(* ===== verification/Go_Prelude.thy ===== *)
theory Go_Prelude
  imports
    Main
    "HOL-Library.Word"
    "HOL-Library.Monad_Syntax"
    "HOL-Library.AList"
    "HOL-Library.Signed_Division"
begin

text \<open>
  What the components share: the Go values and idioms the repository uses, and the lemmas
  about them.

  \<^item> A Go function that can panic at run time (a nil dereference, a failed type assertion, an
    index out of range) returns an \<^typ>\<open>'a option\<close>: \<^term>\<open>None\<close> is the panic. The
    \<open>do\<close> notation of the option monad sequences such calls.
  \<^item> A comma-ok result \<open>(v, ok)\<close> is an \<^typ>\<open>'a option\<close> as well, \<^term>\<open>None\<close>
    for the zero value and \<open>false\<close>; a nil-able pointer or interface is an option.
  \<^item> A Go \<open>error\<close> is a value of type \<open>go_error\<close>, and a result \<open>(v, err)\<close> is a sum.
  \<^item> A Go map is an association list with distinct keys (\<open>gomap\<close>), so that \<open>range\<close> loops
    over it compute. The order of a \<open>range\<close> over a map is unspecified in Go: where the result
    depends on it the order is an argument of the definition.
  \<^item> Go's \<open>/\<close> on \<open>int\<close> truncates towards zero: it is \<open>sdiv\<close>.
\<close>

named_theorems frames \<open>what an operation leaves unchanged\<close>

section \<open>Types\<close>

type_synonym byte = "8 word"
type_synonym bytes = "byte list"
type_synonym ('k, 'v) gomap = "('k \<times> 'v) list"
type_synonym addr = nat
type_synonym time = int \<comment> \<open>a \<open>time.Time\<close>, in nanoseconds since the Unix epoch\<close>

text \<open>
  Errors: \<open>errors.New(text)\<close>, \<open>fmt.Errorf(format, ..., err)\<close> and the errors a library call
  returns. The message of \<open>fmt.Errorf\<close> is kept as its format and the error it wraps.
\<close>

datatype go_error =
    errors_New string
  | fmt_Errorf string go_error
  | library_error string

section \<open>Decimal formatting\<close>

definition digit_char :: "nat \<Rightarrow> char" where
  "digit_char d = char_of (48 + d)"

fun decimal :: "nat \<Rightarrow> string" where
  "decimal n =
     (if n < 10 then [digit_char n] else decimal (n div 10) @ [digit_char (n mod 10)])"

declare decimal.simps [simp del]

text \<open>\<open>fmt.Sprintf("%d", i)\<close>.\<close>

definition fmt_d :: "int \<Rightarrow> string" where
  "fmt_d i = (if i < 0 then CHR ''-'' # decimal (nat (- i)) else decimal (nat i))"

definition decimal_value :: "string \<Rightarrow> nat" where
  "decimal_value s = foldl (\<lambda>v c. 10 * v + (of_char c - 48)) 0 s"

lemma of_char_digit_char: "d < 10 \<Longrightarrow> of_char (digit_char d) = (48 + d :: nat)"
  by (simp add: digit_char_def)

lemma decimal_value_decimal [simp]: "decimal_value (decimal n) = n"
proof (induction n rule: decimal.induct)
  case (1 n)
  show ?case
  proof (cases "n < 10")
    case True
    then show ?thesis
      by (simp add: decimal.simps [of n] decimal_value_def of_char_digit_char)
  next
    case False
    with 1 show ?thesis
      by (simp add: decimal.simps [of n] decimal_value_def of_char_digit_char)
  qed
qed

lemma decimal_digits: "c \<in> set (decimal n) \<Longrightarrow> 48 \<le> (of_char c :: nat) \<and> (of_char c :: nat) < 58"
proof (induction n rule: decimal.induct)
  case (1 n)
  show ?case
  proof (cases "n < 10")
    case True
    with "1.prems" show ?thesis
      by (simp add: decimal.simps [of n] of_char_digit_char)
  next
    case False
    with "1.prems" consider "c \<in> set (decimal (n div 10))" | "c = digit_char (n mod 10)"
      by (auto simp: decimal.simps [of n])
    then show ?thesis
      using "1.IH" [OF False] by cases (auto simp: of_char_digit_char)
  qed
qed

lemma decimal_nonempty [simp]: "decimal n \<noteq> []"
  by (subst decimal.simps) simp

lemma decimal_inject [simp]: "decimal m = decimal n \<longleftrightarrow> m = n"
  by (metis decimal_value_decimal)

lemma fmt_d_chars: "c \<in> set (fmt_d i) \<Longrightarrow> c = CHR ''-'' \<or> 48 \<le> (of_char c :: nat) \<and> (of_char c :: nat) < 58"
  by (auto simp: fmt_d_def decimal_digits split: if_splits)

lemma fmt_d_no_underscore [simp]: "CHR ''_'' \<notin> set (fmt_d i)"
  using fmt_d_chars [of "CHR ''_''" i] by auto

lemma decimal_no_minus: "decimal n \<noteq> CHR ''-'' # s"
proof
  assume "decimal n = CHR ''-'' # s"
  then have "CHR ''-'' \<in> set (decimal n)" by simp
  then show False using decimal_digits by fastforce
qed

lemma fmt_d_inject [simp]: "fmt_d i = fmt_d j \<longleftrightarrow> i = j"
proof
  assume eq: "fmt_d i = fmt_d j"
  show "i = j"
  proof (cases "i < 0"; cases "j < 0")
    assume "i < 0" "j < 0"
    with eq show ?thesis by (simp add: fmt_d_def)
  next
    assume "\<not> i < 0" "\<not> j < 0"
    with eq show ?thesis by (simp add: fmt_d_def)
  next
    assume "i < 0" "\<not> j < 0"
    with eq show ?thesis by (metis decimal_no_minus fmt_d_def)
  next
    assume "\<not> i < 0" "j < 0"
    with eq show ?thesis by (metis decimal_no_minus fmt_d_def)
  qed
qed simp

text \<open>Two strings glued by a separator that the right-hand parts do not contain.\<close>

lemma separated_inject:
  assumes "a @ [s] @ b = a' @ [s] @ b'" and "s \<notin> set b" and "s \<notin> set b'"
  shows "a = a' \<and> b = b'"
proof -
  have right: "takeWhile (\<lambda>c. c \<noteq> s) (rev (x @ [s] @ y)) = rev y" if "s \<notin> set y" for x y
    using that by (subst rev_append, simp, subst takeWhile_append2) auto
  have "rev b = takeWhile (\<lambda>c. c \<noteq> s) (rev (a @ [s] @ b))"
    by (rule right [OF assms(2), symmetric])
  also have "\<dots> = takeWhile (\<lambda>c. c \<noteq> s) (rev (a' @ [s] @ b'))"
    by (simp only: assms(1))
  also have "\<dots> = rev b'"
    by (rule right [OF assms(3)])
  finally have "b = b'" by simp
  with assms(1) show ?thesis by simp
qed

lemma separated_ne:
  assumes "s \<notin> set c"
  shows "a @ [s] @ b \<noteq> c"
  using assms by (metis append_Cons in_set_conv_decomp append_Nil)

section \<open>Maps and loops\<close>

text \<open>
  A \<open>range\<close> loop over a map that only counts the entries with a property does not depend on
  the order: it is the number of keys whose value has the property.
\<close>

lemma count_entries:
  assumes "distinct (map fst m)"
  shows "length (filter (\<lambda>(k, v). P v) m) = card {k. \<exists>v. map_of m k = Some v \<and> P v}"
proof -
  have "{k. \<exists>v. map_of m k = Some v \<and> P v} = fst ` set (filter (\<lambda>(k, v). P v) m)"
    using assms by (force simp: map_of_eq_Some_iff)
  moreover have "distinct (map fst (filter (\<lambda>(k, v). P v) m))"
    using assms by (rule distinct_map_filter)
  ultimately show ?thesis
    by (metis distinct_card length_map list.set_map)
qed

lemma finite_map_of_keys: "finite {k. \<exists>v. map_of m k = Some v \<and> P v}"
  by (rule finite_subset [of _ "dom (map_of m)"]) (auto simp: finite_dom_map_of)

lemma map_of_update [simp]: "map_of (AList.update k v m) = (map_of m)(k \<mapsto> v)"
  by (rule update_conv')

lemma distinct_keys_update [simp]:
  "distinct (map fst m) \<Longrightarrow> distinct (map fst (AList.update k v m))"
  by (rule distinct_update)

lemma length_update:
  "length (AList.update k v m) = (if map_of m k = None then Suc (length m) else length m)"
  by (induction m) (auto split: if_splits)

text \<open>A loop whose body can panic: it stops at the first panic.\<close>

primrec foldo :: "('a \<Rightarrow> 's \<Rightarrow> 's option) \<Rightarrow> 'a list \<Rightarrow> 's \<Rightarrow> 's option" where
  "foldo f [] s = Some s"
| "foldo f (x # xs) s = do { s' \<leftarrow> f x s; foldo f xs s' }"

lemma foldo_append: "foldo f (xs @ ys) s = do { s' \<leftarrow> foldo f xs s; foldo f ys s' }"
  by (induction xs arbitrary: s) simp_all

lemma foldo_snoc: "foldo f (xs @ [x]) s = do { s' \<leftarrow> foldo f xs s; f x s' }"
  by (simp add: foldo_append)

text \<open>Dealing a list out into consecutive runs of given lengths.\<close>

fun deal :: "nat list \<Rightarrow> 'a list \<Rightarrow> 'a list list" where
  "deal [] xs = []"
| "deal (n # ns) xs = take n xs # deal ns (drop n xs)"

lemma length_deal [simp]: "length (deal ns xs) = length ns"
  by (induction ns xs rule: deal.induct) auto

lemma concat_deal: "length xs \<le> sum_list ns \<Longrightarrow> concat (deal ns xs) = xs"
  by (induction ns xs rule: deal.induct) auto

lemma length_deal_nth:
  "length xs = sum_list ns \<Longrightarrow> i < length ns \<Longrightarrow> length (deal ns xs ! i) = ns ! i"
proof (induction ns xs arbitrary: i rule: deal.induct)
  case (1 xs)
  then show ?case by simp
next
  case (2 n ns xs)
  then show ?case by (cases i) auto
qed

lemma deal_Nil: "deal ns [] = replicate (length ns) []"
  by (induction ns) auto

lemma distinct_concat_nth_disjoint:
  assumes "distinct (concat xss)" and "i < length xss" and "j < length xss"
    and "x \<in> set (xss ! i)" and "x \<in> set (xss ! j)"
  shows "i = j"
  using assms
proof (induction xss arbitrary: i j)
  case Nil
  then show ?case by simp
next
  case (Cons ys xss)
  have out: "x \<notin> set ys" if "k < length xss" "x \<in> set (xss ! k)" for k
    using Cons.prems(1) that by (auto dest: nth_mem)
  show ?case
    using Cons.prems Cons.IH out by (cases i; cases j) auto
qed

section \<open>Truncating division\<close>

lemma sdiv_nonneg: "0 \<le> (n::int) \<Longrightarrow> n sdiv 3 = n div 3"
  by (simp add: signed_divide_int_def sgn_if)

end
