(* ===== verification/Tendermint_Api.thy ===== *)
theory Tendermint_Api
  imports Go_Prelude
begin

text \<open>
  What the repository uses of the tendermint module (\<open>github.com/tendermint/tendermint\<close>,
  version 0.34, which is not under \<open>src/\<close>): the data it reads and builds, as records and
  datatypes with the fields the code names, and the operations it calls, as the fields of the
  parameter record \<open>tendermint\<close>. The operations have no definition here. What the code relies
  on is stated as named hypotheses (\<open>signing_spec\<close>, \<open>conversion_spec\<close>, \<open>codec_spec\<close>),
  which the theorems that need them assume.
\<close>

section \<open>Consensus data\<close>

text \<open>
  \<open>prototypes.SignedMsgType\<close> is an open protobuf enumeration: a value may be none of the named
  ones.
\<close>

datatype signed_msg_type = PrevoteType | PrecommitType | ProposalType | OtherType "32 word"

text \<open>The domain types (\<open>ttypes\<close>) and the protobuf types (\<open>prototypes\<close>) are different types.\<close>

record part_set_header =
  psh_Total :: "32 word"
  psh_Hash :: bytes

record block_id =
  Hash :: bytes
  PartSetHeader :: part_set_header

record pb_block_id =
  pb_Hash :: bytes
  pb_PartSetHeader :: part_set_header

record vote =
  vt_Type :: signed_msg_type
  vt_Height :: "64 word"
  vt_Round :: "32 word"
  vt_BlockID :: block_id
  vt_Timestamp :: time
  vt_ValidatorAddress :: bytes
  vt_ValidatorIndex :: "32 word"
  vt_Signature :: bytes

record pb_vote =
  pv_Type :: signed_msg_type
  pv_Height :: "64 word"
  pv_Round :: "32 word"
  pv_BlockID :: pb_block_id
  pv_Timestamp :: time
  pv_ValidatorAddress :: bytes
  pv_ValidatorIndex :: "32 word"
  pv_Signature :: bytes

record proposal =
  pr_Type :: signed_msg_type
  pr_Height :: "64 word"
  pr_Round :: "32 word"
  pr_POLRound :: "32 word"
  pr_BlockID :: block_id
  pr_Timestamp :: time
  pr_Signature :: bytes

record pb_proposal =
  pp_Type :: signed_msg_type
  pp_Height :: "64 word"
  pp_Round :: "32 word"
  pp_PolRound :: "32 word"
  pp_BlockID :: pb_block_id
  pp_Timestamp :: time
  pp_Signature :: bytes

section \<open>Consensus messages\<close>

text \<open>
  The payloads of which the code reads only a height and a round: the fields it does not read
  are one opaque component.
\<close>

record height_round =
  hr_Height :: "64 word"
  hr_Round :: "32 word"
  hr_rest :: bytes

text \<open>\<open>tmsg.Vote\<close> holds a pointer to a vote, which is nil when the field is absent on the wire.\<close>

datatype vote_msg = Vote_msg (vm_Vote: "pb_vote option")

text \<open>\<open>tmsg.Message\<close> is a protobuf \<open>oneof\<close>: the wrapper names the case and holds a pointer.\<close>

datatype message_sum =
    Message_NewRoundStep "height_round option"
  | Message_NewValidBlock "height_round option"
  | Message_Proposal "pb_proposal option"
  | Message_ProposalPol "height_round option"
  | Message_BlockPart "height_round option"
  | Message_Vote "vote_msg option"
  | Message_HasVote "height_round option"
  | Message_VoteSetMaj23 "height_round option"
  | Message_VoteSetBits "height_round option"

datatype pb_message = Message (Sum: "message_sum option")

text \<open>
  The accessors of a \<open>oneof\<close>: the payload when the message is not nil and holds that case, nil
  otherwise.
\<close>

definition sum_of :: "pb_message option \<Rightarrow> message_sum option" where
  "sum_of m = Option.bind m Sum"

definition GetNewRoundStep :: "pb_message option \<Rightarrow> height_round option" where
  "GetNewRoundStep m = (case sum_of m of Some (Message_NewRoundStep p) \<Rightarrow> p | _ \<Rightarrow> None)"

definition GetNewValidBlock :: "pb_message option \<Rightarrow> height_round option" where
  "GetNewValidBlock m = (case sum_of m of Some (Message_NewValidBlock p) \<Rightarrow> p | _ \<Rightarrow> None)"

definition GetProposal :: "pb_message option \<Rightarrow> pb_proposal option" where
  "GetProposal m = (case sum_of m of Some (Message_Proposal p) \<Rightarrow> p | _ \<Rightarrow> None)"

definition GetProposalPol :: "pb_message option \<Rightarrow> height_round option" where
  "GetProposalPol m = (case sum_of m of Some (Message_ProposalPol p) \<Rightarrow> p | _ \<Rightarrow> None)"

definition GetBlockPart :: "pb_message option \<Rightarrow> height_round option" where
  "GetBlockPart m = (case sum_of m of Some (Message_BlockPart p) \<Rightarrow> p | _ \<Rightarrow> None)"

definition GetVote :: "pb_message option \<Rightarrow> vote_msg option" where
  "GetVote m = (case sum_of m of Some (Message_Vote p) \<Rightarrow> p | _ \<Rightarrow> None)"

definition GetVoteSetMaj23 :: "pb_message option \<Rightarrow> height_round option" where
  "GetVoteSetMaj23 m = (case sum_of m of Some (Message_VoteSetMaj23 p) \<Rightarrow> p | _ \<Rightarrow> None)"

definition GetVoteSetBits :: "pb_message option \<Rightarrow> height_round option" where
  "GetVoteSetBits m = (case sum_of m of Some (Message_VoteSetBits p) \<Rightarrow> p | _ \<Rightarrow> None)"

lemmas getter_defs = sum_of_def GetNewRoundStep_def GetNewValidBlock_def GetProposal_def
  GetProposalPol_def GetBlockPart_def GetVote_def GetVoteSetMaj23_def GetVoteSetBits_def

lemma GetVote_Message_Vote [simp]: "GetVote (Some (Message (Some (Message_Vote p)))) = p"
  by (simp add: GetVote_def sum_of_def)

lemma GetProposal_Message_Proposal [simp]:
  "GetProposal (Some (Message (Some (Message_Proposal p)))) = p"
  by (simp add: GetProposal_def sum_of_def)

section \<open>Operations of the module, as parameters\<close>

text \<open>
  \<open>'k\<close> is the type of private keys. \<open>decode_key\<close> is \<open>tmjson.Unmarshal\<close> into a
  \<open>privval.FilePVKey\<close> followed by its \<open>PrivKey\<close>, an interface that stays nil when the JSON
  text has no key; \<open>key_address\<close> is \<open>PubKey().Address()\<close>; \<open>hash_String\<close> is
  \<open>HexBytes.String\<close>.
\<close>

record 'k tendermint =
  decode_key :: "string \<Rightarrow> go_error + 'k option"
  key_address :: "'k \<Rightarrow> bytes"
  key_Sign :: "'k \<Rightarrow> bytes \<Rightarrow> go_error + bytes"
  VoteSignBytes :: "string \<Rightarrow> pb_vote \<Rightarrow> bytes"
  ProposalSignBytes :: "string \<Rightarrow> pb_proposal \<Rightarrow> bytes"
  vote_ToProto :: "vote \<Rightarrow> pb_vote"
  proposal_ToProto :: "proposal \<Rightarrow> pb_proposal"
  ProposalFromProto :: "pb_proposal \<Rightarrow> go_error + proposal"
  block_id_ToProto :: "block_id \<Rightarrow> pb_block_id"
  BlockIDFromProto :: "pb_block_id \<Rightarrow> go_error + block_id"
  hash_String :: "bytes \<Rightarrow> string"
  proto_Marshal :: "pb_message option \<Rightarrow> go_error + bytes"
  proto_Unmarshal :: "bytes \<Rightarrow> go_error + pb_message"

text \<open>
  Signing: a signature made with a key verifies under that key, and the bytes that are signed
  do not depend on the signature field (they are the canonical vote or proposal).
\<close>

definition signing_spec :: "'k tendermint \<Rightarrow> ('k \<Rightarrow> bytes \<Rightarrow> bytes \<Rightarrow> bool) \<Rightarrow> bool" where
  "signing_spec T verify \<longleftrightarrow>
     (\<forall>k m s. key_Sign T k m = Inr s \<longrightarrow> verify k m s) \<and>
     (\<forall>c v s. VoteSignBytes T c (v\<lparr>pv_Signature := s\<rparr>) = VoteSignBytes T c v) \<and>
     (\<forall>c p s. ProposalSignBytes T c (p\<lparr>pp_Signature := s\<rparr>) = ProposalSignBytes T c p)"

text \<open>
  Conversions between domain and protobuf types copy field by field; a block identifier that
  passes tendermint's validation (\<open>valid\<close>) comes back unchanged, and the empty one does. The
  hexadecimal text of a hash determines it.
\<close>

definition nil_block_id :: block_id where
  "nil_block_id = \<lparr>Hash = [], PartSetHeader = \<lparr>psh_Total = 0, psh_Hash = []\<rparr>\<rparr>"

definition conversion_spec :: "'k tendermint \<Rightarrow> (block_id \<Rightarrow> bool) \<Rightarrow> bool" where
  "conversion_spec T valid \<longleftrightarrow>
     (\<forall>v. vote_ToProto T v =
        \<lparr>pv_Type = vt_Type v, pv_Height = vt_Height v, pv_Round = vt_Round v,
         pv_BlockID = block_id_ToProto T (vt_BlockID v), pv_Timestamp = vt_Timestamp v,
         pv_ValidatorAddress = vt_ValidatorAddress v, pv_ValidatorIndex = vt_ValidatorIndex v,
         pv_Signature = vt_Signature v\<rparr>) \<and>
     (\<forall>p. proposal_ToProto T p =
        \<lparr>pp_Type = pr_Type p, pp_Height = pr_Height p, pp_Round = pr_Round p,
         pp_PolRound = pr_POLRound p, pp_BlockID = block_id_ToProto T (pr_BlockID p),
         pp_Timestamp = pr_Timestamp p, pp_Signature = pr_Signature p\<rparr>) \<and>
     (\<forall>q p. ProposalFromProto T q = Inr p \<longrightarrow>
        pr_Height p = pp_Height q \<and> pr_Round p = pp_Round q \<and> pr_POLRound p = pp_PolRound q \<and>
        pr_Timestamp p = pp_Timestamp q \<and> BlockIDFromProto T (pp_BlockID q) = Inr (pr_BlockID p)) \<and>
     (\<forall>b. valid b \<longrightarrow> BlockIDFromProto T (block_id_ToProto T b) = Inr b) \<and>
     (\<forall>q b. BlockIDFromProto T q = Inr b \<longrightarrow> valid b) \<and>
     valid nil_block_id \<and>
     inj (hash_String T) \<and> hash_String T [] = []"

text \<open>
  The wire format: decoding what was encoded gives it back, and a decoded \<open>oneof\<close> holds a
  payload that is not nil (the decoder allocates it before it reads its fields).
\<close>

fun payload_present :: "message_sum \<Rightarrow> bool" where
  "payload_present (Message_NewRoundStep p) = (p \<noteq> None)"
| "payload_present (Message_NewValidBlock p) = (p \<noteq> None)"
| "payload_present (Message_Proposal p) = (p \<noteq> None)"
| "payload_present (Message_ProposalPol p) = (p \<noteq> None)"
| "payload_present (Message_BlockPart p) = (p \<noteq> None)"
| "payload_present (Message_Vote p) = (p \<noteq> None)"
| "payload_present (Message_HasVote p) = (p \<noteq> None)"
| "payload_present (Message_VoteSetMaj23 p) = (p \<noteq> None)"
| "payload_present (Message_VoteSetBits p) = (p \<noteq> None)"

definition codec_spec :: "'k tendermint \<Rightarrow> bool" where
  "codec_spec T \<longleftrightarrow>
     (\<forall>m bs. proto_Marshal T (Some m) = Inr bs \<longrightarrow> proto_Unmarshal T bs = Inr m) \<and>
     (\<forall>m bs s. proto_Unmarshal T bs = Inr m \<longrightarrow> Sum m = Some s \<longrightarrow> payload_present s)"

lemma signing_specD:
  assumes "signing_spec T verify"
  shows "key_Sign T k m = Inr s \<Longrightarrow> verify k m s"
    and "VoteSignBytes T c (v\<lparr>pv_Signature := s\<rparr>) = VoteSignBytes T c v"
    and "ProposalSignBytes T c (p\<lparr>pp_Signature := s\<rparr>) = ProposalSignBytes T c p"
  using assms by (auto simp: signing_spec_def)

lemma conversion_specD:
  assumes "conversion_spec T valid"
  shows "vote_ToProto T v =
        \<lparr>pv_Type = vt_Type v, pv_Height = vt_Height v, pv_Round = vt_Round v,
         pv_BlockID = block_id_ToProto T (vt_BlockID v), pv_Timestamp = vt_Timestamp v,
         pv_ValidatorAddress = vt_ValidatorAddress v, pv_ValidatorIndex = vt_ValidatorIndex v,
         pv_Signature = vt_Signature v\<rparr>"
    and "proposal_ToProto T p =
        \<lparr>pp_Type = pr_Type p, pp_Height = pr_Height p, pp_Round = pr_Round p,
         pp_PolRound = pr_POLRound p, pp_BlockID = block_id_ToProto T (pr_BlockID p),
         pp_Timestamp = pr_Timestamp p, pp_Signature = pr_Signature p\<rparr>"
    and "ProposalFromProto T q = Inr p \<Longrightarrow>
        pr_Height p = pp_Height q \<and> pr_Round p = pp_Round q \<and> pr_POLRound p = pp_PolRound q \<and>
        pr_Timestamp p = pp_Timestamp q \<and> BlockIDFromProto T (pp_BlockID q) = Inr (pr_BlockID p)"
    and "valid b \<Longrightarrow> BlockIDFromProto T (block_id_ToProto T b) = Inr b"
    and "BlockIDFromProto T r = Inr b \<Longrightarrow> valid b"
    and "valid nil_block_id"
    and "inj (hash_String T)"
    and "hash_String T [] = []"
  using assms unfolding conversion_spec_def by blast+

end
