(* ===== verification/Replicas.thy ===== *)
theory Replicas
  imports Tendermint_Api
begin

text \<open>
  \<open>util/replicas.go\<close>: the set of replicas behind a part of a partition, and what the test
  cases read off a replica's registration (its private key, its chain id, its address).
  \<open>types.Replica\<close> is a struct of the scheduler; the code uses its \<open>ID\<close> and its
  \<open>Info map[string]interface{}\<close>, whose values are strings or something else. The mutex of
  \<open>ReplicaSet\<close> is left out: each method holds it from its first statement to its return, so
  the methods are atomic.
\<close>

section \<open>Replicas\<close>

datatype info_value = InfoString string | InfoOther

record replica =
  ID :: string
  Info :: "string \<Rightarrow> info_value option"

text \<open>
  The argument is a pointer: reading \<open>Info\<close> through nil panics. The key returned is an
  interface, nil where the decoded JSON had no key.
\<close>

definition GetPrivKey :: "'k tendermint \<Rightarrow> replica option \<Rightarrow> (go_error + 'k option) option" where
  "GetPrivKey T r = do {
     r' \<leftarrow> r;
     Some (case Info r' ''privkey'' of
         None \<Rightarrow> Inl (errors_New ''no private key specified'')
       | Some InfoOther \<Rightarrow> Inl (errors_New ''malformed key type'')
       | Some (InfoString pKS) \<Rightarrow>
           (case decode_key T pKS of
              Inl err \<Rightarrow> Inl (fmt_Errorf ''malformed key: %#v. error: %s'' err)
            | Inr privKey \<Rightarrow> Inr privKey)) }"

text \<open>\<open>chain_id.(string)\<close> has no comma-ok: it panics when the value is not a string.\<close>

definition GetChainID :: "replica option \<Rightarrow> (go_error + string) option" where
  "GetChainID r = do {
     r' \<leftarrow> r;
     (case Info r' ''chain_id'' of
        None \<Rightarrow> Some (Inl (errors_New ''chain id does not exist''))
      | Some (InfoString chain_id) \<Rightarrow> Some (Inr chain_id)
      | Some InfoOther \<Rightarrow> None) }"

definition GetReplicaAddress :: "'k tendermint \<Rightarrow> replica option \<Rightarrow> (go_error + bytes) option" where
  "GetReplicaAddress T r = do {
     res \<leftarrow> GetPrivKey T r;
     (case res of
        Inl err \<Rightarrow> Some (Inl err)
      | Inr key \<Rightarrow> do { k \<leftarrow> key; Some (Inr (key_address T k)) }) }"

section \<open>Replica sets\<close>

record replica_set =
  replicas :: "(string, replica) gomap"
  valAddrs :: "(bytes, bool) gomap"
  size :: int

definition NewReplicaSet :: replica_set where
  "NewReplicaSet = \<lparr>replicas = [], valAddrs = [], size = 0\<rparr>"

definition ReplicaSet_Add :: "'k tendermint \<Rightarrow> replica \<Rightarrow> replica_set \<Rightarrow> replica_set option" where
  "ReplicaSet_Add T r s =
     (case map_of (replicas s) (ID r) of
        Some _ \<Rightarrow> Some s
      | None \<Rightarrow> do {
          res \<leftarrow> GetPrivKey T (Some r);
          vals \<leftarrow> (case res of
              Inl _ \<Rightarrow> Some (valAddrs s)
            | Inr key \<Rightarrow> do {
                k \<leftarrow> key;
                Some (AList.update (key_address T k) True (valAddrs s)) });
          Some (s\<lparr>valAddrs := vals,
                  replicas := AList.update (ID r) r (replicas s),
                  size := size s + 1\<rparr>) })"

definition ReplicaSet_Size :: "replica_set \<Rightarrow> int" where
  "ReplicaSet_Size s = size s"

definition ReplicaSet_Exists :: "replica_set \<Rightarrow> string \<Rightarrow> bool" where
  "ReplicaSet_Exists s i = (map_of (replicas s) i \<noteq> None)"

definition ReplicaSet_ExistsVal :: "replica_set \<Rightarrow> bytes \<Rightarrow> bool" where
  "ReplicaSet_ExistsVal s a = (map_of (valAddrs s) a \<noteq> None)"

text \<open>
  \<open>ord\<close> is the order in which the \<open>range\<close> statement visits the keys, any permutation.
\<close>

definition ReplicaSet_Iter :: "(string list \<Rightarrow> string list) \<Rightarrow> replica_set \<Rightarrow> string list" where
  "ReplicaSet_Iter ord s = ord (map fst (replicas s))"

definition ReplicaSet_String :: "(string list \<Rightarrow> string list) \<Rightarrow> replica_set \<Rightarrow> string" where
  "ReplicaSet_String ord s = concat (map (\<lambda>r. r @ '','') (ord (map fst (replicas s))))"

definition range_order :: "('a list \<Rightarrow> 'a list) \<Rightarrow> bool" where
  "range_order ord \<longleftrightarrow> (\<forall>xs. set (ord xs) = set xs \<and> length (ord xs) = length xs)"

section \<open>The interface of replica sets\<close>

text \<open>
  What the partitioner relies on. Adding may panic, on a replica whose key is a nil interface:
  \<open>ok\<close> tells the replicas that are safe to add.
\<close>

locale replica_container =
  fixes add :: "'r \<Rightarrow> 's \<Rightarrow> 's option"
    and empty :: 's
    and card_of :: "'s \<Rightarrow> int"
    and member :: "'s \<Rightarrow> 'i \<Rightarrow> bool"
    and ident :: "'r \<Rightarrow> 'i"
    and ok :: "'r \<Rightarrow> bool"
  assumes add_ok: "ok r \<Longrightarrow> \<exists>s'. add r s = Some s'"
    and card_empty: "card_of empty = 0"
    and member_empty: "\<not> member empty i"
    and card_add: "add r s = Some s' \<Longrightarrow>
      card_of s' = (if member s (ident r) then card_of s else card_of s + 1)"
    and member_add: "add r s = Some s' \<Longrightarrow> member s' i \<longleftrightarrow> i = ident r \<or> member s i"
begin

lemma add_all_total: "\<forall>r \<in> set rs. ok r \<Longrightarrow> \<exists>s'. foldo add rs s = Some s'"
proof (induction rs arbitrary: s)
  case Nil
  then show ?case by simp
next
  case (Cons r rs)
  from Cons.prems obtain s1 where "add r s = Some s1"
    using add_ok by fastforce
  with Cons show ?case by simp
qed

lemma member_add_all:
  "foldo add rs s = Some s' \<Longrightarrow> member s' i \<longleftrightarrow> i \<in> ident ` set rs \<or> member s i"
proof (induction rs arbitrary: s)
  case Nil
  then show ?case by simp
next
  case (Cons r rs)
  from Cons.prems obtain s1 where s1: "add r s = Some s1" "foldo add rs s1 = Some s'"
    by (auto split: Option.bind_splits)
  with Cons.IH [OF s1(2)] member_add [OF s1(1)] show ?case by auto
qed

lemma card_add_all:
  "foldo add rs s = Some s' \<Longrightarrow> distinct (map ident rs) \<Longrightarrow> \<forall>r \<in> set rs. \<not> member s (ident r) \<Longrightarrow>
    card_of s' = card_of s + int (length rs)"
proof (induction rs arbitrary: s)
  case Nil
  then show ?case by simp
next
  case (Cons r rs)
  from Cons.prems obtain s1 where s1: "add r s = Some s1" "foldo add rs s1 = Some s'"
    by (auto split: Option.bind_splits)
  have "\<forall>q \<in> set rs. \<not> member s1 (ident q)"
    using Cons.prems member_add [OF s1(1)] by (force simp: image_iff)
  with Cons.IH [OF s1(2)] card_add [OF s1(1)] Cons.prems show ?case by simp
qed

lemma card_from_empty:
  "foldo add rs empty = Some s \<Longrightarrow> distinct (map ident rs) \<Longrightarrow> card_of s = int (length rs)"
  using card_add_all [of rs empty s] by (simp add: card_empty member_empty)

end

text \<open>A replica that \<open>Add\<close> accepts: its key, if it decodes, is not a nil interface.\<close>

definition usable :: "'k tendermint \<Rightarrow> replica \<Rightarrow> bool" where
  "usable T r \<longleftrightarrow> GetPrivKey T (Some r) \<noteq> Some (Inr None)"

lemma GetPrivKey_Some: "\<exists>res. GetPrivKey T (Some r) = Some res"
  by (simp add: GetPrivKey_def)

interpretation rset: replica_container
  "ReplicaSet_Add T" NewReplicaSet ReplicaSet_Size ReplicaSet_Exists ID "usable T" for T
proof unfold_locales
  fix r :: replica and s
  assume ok: "usable T r"
  obtain res where "GetPrivKey T (Some r) = Some res"
    using GetPrivKey_Some by blast
  with ok show "\<exists>s'. ReplicaSet_Add T r s = Some s'"
    by (auto simp: ReplicaSet_Add_def usable_def split: option.splits sum.splits)
next
  show "ReplicaSet_Size NewReplicaSet = 0"
    by (simp add: ReplicaSet_Size_def NewReplicaSet_def)
next
  fix i
  show "\<not> ReplicaSet_Exists NewReplicaSet i"
    by (simp add: ReplicaSet_Exists_def NewReplicaSet_def)
next
  fix r s s'
  assume "ReplicaSet_Add T r s = Some s'"
  then show "ReplicaSet_Size s' =
      (if ReplicaSet_Exists s (ID r) then ReplicaSet_Size s else ReplicaSet_Size s + 1)"
    by (auto simp: ReplicaSet_Add_def ReplicaSet_Size_def ReplicaSet_Exists_def
        split: option.splits Option.bind_splits)
next
  fix r s s' i
  assume "ReplicaSet_Add T r s = Some s'"
  then show "ReplicaSet_Exists s' i \<longleftrightarrow> i = ID r \<or> ReplicaSet_Exists s i"
    by (auto simp: ReplicaSet_Add_def ReplicaSet_Exists_def
        split: option.splits Option.bind_splits)
qed

section \<open>The invariant of replica sets\<close>

text \<open>The address a replica's votes carry, when its key can be read.\<close>

definition address_of :: "'k tendermint \<Rightarrow> replica \<Rightarrow> bytes option" where
  "address_of T r = (case GetReplicaAddress T (Some r) of Some (Inr a) \<Rightarrow> Some a | _ \<Rightarrow> None)"

definition replica_set_wf :: "'k tendermint \<Rightarrow> replica_set \<Rightarrow> bool" where
  "replica_set_wf T s \<longleftrightarrow>
     distinct (map fst (replicas s)) \<and>
     size s = int (length (replicas s)) \<and>
     (\<forall>(i, r) \<in> set (replicas s). i = ID r) \<and>
     fst ` set (valAddrs s) = {a. \<exists>r \<in> snd ` set (replicas s). address_of T r = Some a}"

lemma NewReplicaSet_wf: "replica_set_wf T NewReplicaSet"
  by (simp add: replica_set_wf_def NewReplicaSet_def)

lemma set_update_new:
  "map_of m k = None \<Longrightarrow> set (AList.update k v m) = insert (k, v) (set m)"
  by (induction m) (auto split: if_splits)

lemma fst_set_update: "fst ` set (AList.update k v m) = insert k (fst ` set m)"
  by (simp add: dom_update)

lemma ReplicaSet_Add_wf:
  assumes "replica_set_wf T s" and add: "ReplicaSet_Add T r s = Some s'"
  shows "replica_set_wf T s'"
proof (cases "map_of (replicas s) (ID r)")
  case (Some _)
  with assms show ?thesis by (simp add: ReplicaSet_Add_def)
next
  case None
  from add None obtain res vals where res: "GetPrivKey T (Some r) = Some res"
    and vals: "(case res of Inl _ \<Rightarrow> Some (valAddrs s)
        | Inr key \<Rightarrow> do { k \<leftarrow> key; Some (AList.update (key_address T k) True (valAddrs s)) }) = Some vals"
    and s': "s' = s\<lparr>valAddrs := vals, replicas := AList.update (ID r) r (replicas s), size := size s + 1\<rparr>"
    by (auto simp: ReplicaSet_Add_def split: Option.bind_splits)
  have "fst ` set vals = {a. address_of T r = Some a} \<union> fst ` set (valAddrs s)"
  proof (cases res)
    case (Inl e)
    with res vals show ?thesis
      by (simp add: address_of_def GetReplicaAddress_def)
  next
    case (Inr key)
    with vals obtain k where "key = Some k"
      and "vals = AList.update (key_address T k) True (valAddrs s)"
      by (cases key) auto
    with res Inr show ?thesis
      by (simp add: address_of_def GetReplicaAddress_def fst_set_update)
  qed
  then show ?thesis
    using assms(1) None s'
    by (auto simp: replica_set_wf_def set_update_new length_update image_Un)
qed

lemma ReplicaSet_Add_all_wf:
  "replica_set_wf T s \<Longrightarrow> foldo (ReplicaSet_Add T) rs s = Some s' \<Longrightarrow> replica_set_wf T s'"
  by (induction rs arbitrary: s) (auto intro: ReplicaSet_Add_wf split: Option.bind_splits)

lemma ReplicaSet_Add_all_replicas:
  assumes "foldo (ReplicaSet_Add T) rs s = Some s'" and "distinct (map ID rs)"
    and "\<forall>r \<in> set rs. map_of (replicas s) (ID r) = None"
  shows "snd ` set (replicas s') = snd ` set (replicas s) \<union> set rs"
  using assms
proof (induction rs arbitrary: s)
  case Nil
  then show ?case by simp
next
  case (Cons r rs)
  then obtain s1 where s1: "ReplicaSet_Add T r s = Some s1"
    "foldo (ReplicaSet_Add T) rs s1 = Some s'"
    by (auto split: Option.bind_splits)
  from s1(1) Cons.prems(3) have r1: "replicas s1 = AList.update (ID r) r (replicas s)"
    by (auto simp: ReplicaSet_Add_def split: Option.bind_splits)
  have "\<forall>q \<in> set rs. map_of (replicas s1) (ID q) = None"
    using Cons.prems(2,3) by (force simp: r1 image_iff)
  with Cons.IH [OF s1(2)] Cons.prems(2) have
    "snd ` set (replicas s') = snd ` set (replicas s1) \<union> set rs" by simp
  with Cons.prems(3) r1 show ?case by (simp add: set_update_new)
qed

lemma replica_set_built:
  assumes "foldo (ReplicaSet_Add T) rs NewReplicaSet = Some s" and "distinct (map ID rs)"
  shows "replica_set_wf T s \<and>
    ReplicaSet_Size s = int (length rs) \<and>
    (\<forall>i. ReplicaSet_Exists s i \<longleftrightarrow> i \<in> ID ` set rs) \<and>
    (\<forall>a. ReplicaSet_ExistsVal s a \<longleftrightarrow> (\<exists>r \<in> set rs. address_of T r = Some a))"
proof -
  have wf: "replica_set_wf T s"
    using ReplicaSet_Add_all_wf [OF NewReplicaSet_wf assms(1)] .
  have "snd ` set (replicas s) = set rs"
    using ReplicaSet_Add_all_replicas [OF assms] by (simp add: NewReplicaSet_def)
  then have vals: "ReplicaSet_ExistsVal s a \<longleftrightarrow> (\<exists>r \<in> set rs. address_of T r = Some a)" for a
    using wf by (auto simp: ReplicaSet_ExistsVal_def replica_set_wf_def map_of_eq_None_iff)
  show ?thesis
    using wf vals rset.card_from_empty [OF assms] rset.member_add_all [OF assms(1)]
      rset.member_empty by auto
qed

lemma ReplicaSet_Iter_set:
  assumes "range_order ord"
  shows "set (ReplicaSet_Iter ord s) = {i. ReplicaSet_Exists s i}"
  using assms by (auto simp: range_order_def ReplicaSet_Iter_def ReplicaSet_Exists_def
      map_of_eq_None_iff image_iff)

text \<open>A part of one replica is iterated in the only order there is.\<close>

lemma ReplicaSet_Iter_singleton:
  assumes "range_order ord" and "map fst (replicas s) = [i]"
  shows "ReplicaSet_Iter ord s = [i]"
proof -
  from assms have "set (ord [i]) = {i}" "length (ord [i]) = 1"
    by (auto simp: range_order_def)
  then show ?thesis
    using assms(2) by (cases "ord [i]") (auto simp: ReplicaSet_Iter_def)
qed

end
