(* ===== verification/Partitions.thy ===== *)
theory Partitions
  imports Replicas
begin

text \<open>
  \<open>util/partition.go\<close>: labelled parts of the replicas and the partitioner that deals the
  registered replicas out into parts of given sizes. The partitioner's \<open>types.ReplicaStore\<close> is
  a scheduler object: the model takes what its \<open>Cap()\<close> and \<open>Iter()\<close> return. Integer sums
  are unbounded (the sizes the callers pass are at most the number of replicas).
\<close>

section \<open>Parts and partitions\<close>

record part =
  ReplicaSet :: replica_set
  Label :: string

text \<open>A method of \<open>*Part\<close> or \<open>*Partition\<close> panics when the receiver is nil.\<close>

definition Part_Contains :: "part option \<Rightarrow> string \<Rightarrow> bool option" where
  "Part_Contains p i = do { p' \<leftarrow> p; Some (ReplicaSet_Exists (ReplicaSet p') i) }"

definition Part_ContainsVal :: "part option \<Rightarrow> bytes \<Rightarrow> bool option" where
  "Part_ContainsVal p a = do { p' \<leftarrow> p; Some (ReplicaSet_ExistsVal (ReplicaSet p') a) }"

definition Part_Size :: "part option \<Rightarrow> int option" where
  "Part_Size p = do { p' \<leftarrow> p; Some (ReplicaSet_Size (ReplicaSet p')) }"

definition Part_String :: "(string list \<Rightarrow> string list) \<Rightarrow> part \<Rightarrow> string" where
  "Part_String ord p =
     ''Label: '' @ Label p @ [CHR 0x0A] @ ''Members: '' @ ReplicaSet_String ord (ReplicaSet p)"

record partition =
  Parts :: "(string, part) gomap"

definition NewPartition :: "part list \<Rightarrow> partition" where
  "NewPartition parts = \<lparr>Parts = fold (\<lambda>p m. AList.update (Label p) p m) parts []\<rparr>"

definition Partition_GetPart :: "partition option \<Rightarrow> string \<Rightarrow> part option option" where
  "Partition_GetPart p label = do { p' \<leftarrow> p; Some (map_of (Parts p') label) }"

text \<open>\<open>ordp\<close> is the order of the \<open>range\<close> over the parts, \<open>ordr\<close> those over the replicas.\<close>

definition Partition_String ::
    "((string \<times> part) list \<Rightarrow> (string \<times> part) list) \<Rightarrow> (string list \<Rightarrow> string list) \<Rightarrow>
     partition option \<Rightarrow> string option" where
  "Partition_String ordp ordr p = do {
     p' \<leftarrow> p;
     Some (''Parts:'' @ [CHR 0x0A] @
       concat (map (\<lambda>(l, part). Part_String ordr part @ [CHR 0x0A]) (ordp (Parts p')))) }"

section \<open>The partitioner\<close>

record generic_partitioner =
  all_Cap :: int
  all_Iter :: "replica list"

definition NewGenericPartitioner :: "int \<Rightarrow> replica list \<Rightarrow> generic_partitioner" where
  "NewGenericPartitioner cap rs = \<lparr>all_Cap = cap, all_Iter = rs\<rparr>"

text \<open>
  The first loop, over the sizes and, at the same index, the labels: the total so far and the
  parts so far.
\<close>

fun make_parts :: "(int \<times> string) list \<Rightarrow> int \<Rightarrow> part list \<Rightarrow> go_error + int \<times> part list" where
  "make_parts [] tot parts = Inr (tot, parts)"
| "make_parts ((sz, label) # rest) tot parts =
     (if sz \<le> 0 then Inl (errors_New ''sizes have to be greater than 0'')
      else make_parts rest (tot + sz)
             (parts @ [\<lparr>ReplicaSet = NewReplicaSet, Label = label\<rparr>]))"

definition part_Add :: "'k tendermint \<Rightarrow> replica \<Rightarrow> part \<Rightarrow> part option" where
  "part_Add T r p = do { s \<leftarrow> ReplicaSet_Add T r (ReplicaSet p); Some (p\<lparr>ReplicaSet := s\<rparr>) }"

text \<open>
  The second loop: \<open>curIndex\<close> moves on when the current part is full, and the replica at hand
  goes to the next part without looking at that part's size. An index past the end panics.
\<close>

fun fill_parts :: "'k tendermint \<Rightarrow> int list \<Rightarrow> replica list \<Rightarrow> nat \<Rightarrow> part list \<Rightarrow> part list option" where
  "fill_parts T sizes [] curIndex parts = Some parts"
| "fill_parts T sizes (r # rs) curIndex parts =
     (if length parts \<le> curIndex \<or> length sizes \<le> curIndex then None
      else if ReplicaSet_Size (ReplicaSet (parts ! curIndex)) < sizes ! curIndex then do {
        p \<leftarrow> part_Add T r (parts ! curIndex);
        fill_parts T sizes rs curIndex (parts[curIndex := p]) }
      else if length parts \<le> Suc curIndex then None
      else do {
        p \<leftarrow> part_Add T r (parts ! Suc curIndex);
        fill_parts T sizes rs (Suc curIndex) (parts[Suc curIndex := p]) })"

definition CreatePartition ::
    "'k tendermint \<Rightarrow> generic_partitioner \<Rightarrow> int list \<Rightarrow> string list \<Rightarrow> (go_error + partition) option" where
  "CreatePartition T g sizes labels =
     (if length sizes \<noteq> length labels then
        Some (Inl (errors_New ''sizes and labels should be of same length''))
      else case make_parts (zip sizes labels) 0 [] of
        Inl err \<Rightarrow> Some (Inl err)
      | Inr (totSize, parts) \<Rightarrow>
          if totSize \<noteq> all_Cap g then
            Some (Inl (errors_New ''total size is not the same as number of replicas''))
          else do {
            parts' \<leftarrow> fill_parts T sizes (all_Iter g) 0 parts;
            Some (Inr (NewPartition parts')) })"

section \<open>The first loop\<close>

lemma make_parts_Inr:
  "\<forall>(sz, l) \<in> set zs. 0 < sz \<Longrightarrow> make_parts zs tot parts =
     Inr (tot + sum_list (map fst zs), parts @ map (\<lambda>(sz, l). \<lparr>ReplicaSet = NewReplicaSet, Label = l\<rparr>) zs)"
  by (induction zs tot parts rule: make_parts.induct) auto

lemma make_parts_Inl:
  "(sz, l) \<in> set zs \<Longrightarrow> sz \<le> 0 \<Longrightarrow>
    make_parts zs tot parts = Inl (errors_New ''sizes have to be greater than 0'')"
  by (induction zs tot parts rule: make_parts.induct) auto

lemma zip_sizes:
  assumes "length sizes = length labels"
  shows "map fst (zip sizes labels) = sizes"
    and "(\<forall>(sz, l) \<in> set (zip sizes labels). 0 < sz) \<longleftrightarrow> (\<forall>sz \<in> set sizes. 0 < sz)"
proof -
  show fst: "map fst (zip sizes labels) = sizes"
    using assms by simp
  have "set sizes = fst ` set (zip sizes labels)"
    using fst by (metis list.set_map)
  then show "(\<forall>(sz, l) \<in> set (zip sizes labels). 0 < sz) \<longleftrightarrow> (\<forall>sz \<in> set sizes. 0 < sz)"
    by fastforce
qed

abbreviation empty_parts :: "string list \<Rightarrow> part list" where
  "empty_parts labels \<equiv> map (\<lambda>l. \<lparr>ReplicaSet = NewReplicaSet, Label = l\<rparr>) labels"

lemma make_parts_ok:
  assumes "length sizes = length labels" and "\<forall>sz \<in> set sizes. 0 < sz"
  shows "make_parts (zip sizes labels) 0 [] = Inr (sum_list sizes, empty_parts labels)"
proof -
  have "map (\<lambda>(sz, l). \<lparr>ReplicaSet = NewReplicaSet, Label = l\<rparr>) (zip sizes labels) =
      empty_parts (map snd (zip sizes labels))"
    by (simp add: case_prod_unfold)
  then show ?thesis
    using assms zip_sizes [OF assms(1)] by (subst make_parts_Inr) auto
qed

lemma CreatePartition_fill:
  assumes "length sizes = length labels" and "\<forall>sz \<in> set sizes. 0 < sz"
    and "sum_list sizes = all_Cap g"
  shows "CreatePartition T g sizes labels =
    map_option (Inr \<circ> NewPartition) (fill_parts T sizes (all_Iter g) 0 (empty_parts labels))"
  using assms by (simp add: CreatePartition_def make_parts_ok map_conv_bind_option comp_def)

lemma CreatePartition_error:
  assumes "length sizes \<noteq> length labels \<or> (\<exists>sz \<in> set sizes. sz \<le> 0) \<or> sum_list sizes \<noteq> all_Cap g"
  shows "\<exists>e. CreatePartition T g sizes labels = Some (Inl e)"
proof (cases "length sizes = length labels")
  case False
  then show ?thesis by (simp add: CreatePartition_def)
next
  case len: True
  show ?thesis
  proof (cases "\<forall>sz \<in> set sizes. 0 < sz")
    case True
    with assms have "sum_list sizes \<noteq> all_Cap g"
      using len by fastforce
    with len True show ?thesis by (simp add: CreatePartition_def make_parts_ok)
  next
    case False
    then obtain sz l where "(sz, l) \<in> set (zip sizes labels)" "sz \<le> 0"
      using zip_sizes(2) [OF len] by fastforce
    with len show ?thesis
      by (simp add: CreatePartition_def make_parts_Inl)
  qed
qed

section \<open>The second loop\<close>

text \<open>
  The parts the loop ends with hold consecutive runs of the replicas: \<open>holds\<close> relates a part to
  the run it was filled with.
\<close>

definition holds :: "'k tendermint \<Rightarrow> part \<Rightarrow> replica list \<Rightarrow> bool" where
  "holds T p rs \<longleftrightarrow> foldo (ReplicaSet_Add T) rs NewReplicaSet = Some (ReplicaSet p)"

lemma holds_empty: "list_all2 (holds T) (empty_parts ls) (replicate (length ls) [])"
  by (induction ls) (auto simp: holds_def)

lemma part_Add_holds:
  assumes "holds T p xs" and "usable T r"
  shows "\<exists>p'. part_Add T r p = Some p' \<and> holds T p' (xs @ [r]) \<and> Label p' = Label p"
proof -
  from assms(2) obtain s where "ReplicaSet_Add T r (ReplicaSet p) = Some s"
    using rset.add_ok by blast
  with assms(1) show ?thesis
    by (simp add: part_Add_def holds_def foldo_snoc)
qed

lemma holds_size: "holds T p xs \<Longrightarrow> distinct (map ID xs) \<Longrightarrow> ReplicaSet_Size (ReplicaSet p) = int (length xs)"
  unfolding holds_def by (rule rset.card_from_empty)

lemma fill_parts_deal:
  assumes "length ds = length ss" and "length ls = length ts" and "holds T p xs"
    and "int (length xs) \<le> s" and "\<forall>t \<in> set ts. 0 < t"
    and "int (length (xs @ rs)) \<le> s + sum_list ts"
    and "distinct (map ID (xs @ rs))" and "\<forall>r \<in> set rs. usable T r"
  shows "\<exists>ps. fill_parts T (ss @ s # ts) rs (length ss) (ds @ p # empty_parts ls) = Some (ds @ ps) \<and>
    map Label ps = Label p # ls \<and>
    list_all2 (holds T) ps (deal (map nat (s # ts)) (xs @ rs))"
  using assms
proof (induction rs arbitrary: ss ds s ts ls p xs)
  case Nil
  then show ?case
    using holds_empty [of T ls] by (simp add: deal_Nil comp_def nat_le_iff)
next
  case (Cons r rs)
  have size: "ReplicaSet_Size (ReplicaSet p) = int (length xs)"
    using Cons.prems(3,7) by (intro holds_size) auto
  show ?case
  proof (cases "int (length xs) < s")
    case True
    obtain p' where p': "part_Add T r p = Some p'" "holds T p' (xs @ [r])" "Label p' = Label p"
      using part_Add_holds [OF Cons.prems(3)] Cons.prems(8) by auto
    have "\<exists>ps. fill_parts T (ss @ s # ts) rs (length ss) (ds @ p' # empty_parts ls) = Some (ds @ ps) \<and>
        map Label ps = Label p' # ls \<and>
        list_all2 (holds T) ps (deal (map nat (s # ts)) ((xs @ [r]) @ rs))"
      by (rule Cons.IH [OF Cons.prems(1,2) p'(2)]) (use Cons.prems True in auto)
    then show ?thesis
      using True p' size Cons.prems(1)
      by (simp add: nth_append list_update_append)
  next
    case False
    with Cons.prems(4) have full: "s = int (length xs)" by simp
    with Cons.prems(6) obtain t ts' where ts: "ts = t # ts'"
      by (cases ts) auto
    with Cons.prems(2) obtain l ls' where ls: "ls = l # ls'"
      by (cases ls) auto
    obtain p' where p': "part_Add T r \<lparr>ReplicaSet = NewReplicaSet, Label = l\<rparr> = Some p'"
      "holds T p' [r]" "Label p' = l"
      using part_Add_holds [of T "\<lparr>ReplicaSet = NewReplicaSet, Label = l\<rparr>" "[]" r] Cons.prems(8)
      by (auto simp: holds_def)
    have "\<exists>ps. fill_parts T ((ss @ [s]) @ t # ts') rs (length (ss @ [s])) ((ds @ [p]) @ p' # empty_parts ls') =
          Some ((ds @ [p]) @ ps) \<and>
        map Label ps = Label p' # ls' \<and>
        list_all2 (holds T) ps (deal (map nat (t # ts')) ([r] @ rs))"
      by (rule Cons.IH) (use Cons.prems ts ls p' full in \<open>auto\<close>)
    then obtain ps where ps:
      "fill_parts T (ss @ s # t # ts') rs (Suc (length ss)) (ds @ p # p' # empty_parts ls') = Some (ds @ p # ps)"
      "map Label ps = l # ls'" "list_all2 (holds T) ps (deal (map nat (t # ts')) (r # rs))"
      using p'(3) by auto
    have "fill_parts T (ss @ s # ts) (r # rs) (length ss) (ds @ p # empty_parts ls) = Some (ds @ p # ps)"
      using ps(1) p'(1) size full Cons.prems(1) ts ls
      by (simp add: nth_append list_update_append)
    moreover have "deal (map nat (s # ts)) (xs @ r # rs) = xs # deal (map nat (t # ts')) (r # rs)"
      using full ts by simp
    ultimately show ?thesis
      using ps(2,3) Cons.prems(3) ls by (intro exI [of _ "p # ps"]) simp
  qed
qed

lemma fill_parts_overflow:
  assumes "length ds = length ss" and "length ls = length ts" and "holds T p xs"
    and "int (length xs) \<le> s" and "\<forall>t \<in> set ts. 0 < t"
    and "int (length (xs @ rs)) > s + sum_list ts"
    and "distinct (map ID (xs @ rs))" and "\<forall>r \<in> set rs. usable T r"
  shows "fill_parts T (ss @ s # ts) rs (length ss) (ds @ p # empty_parts ls) = None"
  using assms
proof (induction rs arbitrary: ss ds s ts ls p xs)
  case Nil
  then show ?case
    using sum_list_nonneg [of ts] by (simp add: less_imp_le)
next
  case (Cons r rs)
  have size: "ReplicaSet_Size (ReplicaSet p) = int (length xs)"
    using Cons.prems(3,7) by (intro holds_size) auto
  show ?case
  proof (cases "int (length xs) < s")
    case True
    obtain p' where p': "part_Add T r p = Some p'" "holds T p' (xs @ [r])"
      using part_Add_holds [OF Cons.prems(3)] Cons.prems(8) by auto
    have "fill_parts T (ss @ s # ts) rs (length ss) (ds @ p' # empty_parts ls) = None"
      by (rule Cons.IH [OF Cons.prems(1,2) p'(2)]) (use Cons.prems True in auto)
    then show ?thesis
      using True p' size Cons.prems(1) by (simp add: nth_append list_update_append)
  next
    case False
    with Cons.prems(4) have full: "s = int (length xs)" by simp
    show ?thesis
    proof (cases ts)
      case Nil
      then show ?thesis
        using size full Cons.prems(1,2) by (simp add: nth_append)
    next
      case ts: (Cons t ts')
      with Cons.prems(2) obtain l ls' where ls: "ls = l # ls'"
        by (cases ls) auto
      obtain p' where p': "part_Add T r \<lparr>ReplicaSet = NewReplicaSet, Label = l\<rparr> = Some p'"
        "holds T p' [r]"
        using part_Add_holds [of T "\<lparr>ReplicaSet = NewReplicaSet, Label = l\<rparr>" "[]" r] Cons.prems(8)
        by (auto simp: holds_def)
      have "fill_parts T ((ss @ [s]) @ t # ts') rs (length (ss @ [s])) ((ds @ [p]) @ p' # empty_parts ls') = None"
        by (rule Cons.IH) (use Cons.prems ts ls p' full in \<open>auto\<close>)
      then show ?thesis
        using p'(1) size full Cons.prems(1) ts ls by (simp add: nth_append list_update_append)
    qed
  qed
qed

section \<open>Partitions made by the partitioner\<close>

lemma Parts_fold:
  "distinct (map Label ps) \<Longrightarrow> map_of (fold (\<lambda>p m. AList.update (Label p) p m) ps m) l =
    (case map_of (map (\<lambda>p. (Label p, p)) ps) l of Some p \<Rightarrow> Some p | None \<Rightarrow> map_of m l)"
proof (induction ps arbitrary: m)
  case Nil
  then show ?case by simp
next
  case (Cons p ps)
  then show ?case
    by (auto simp: map_of_eq_None_iff image_iff split: option.splits dest!: map_of_SomeD)
qed

lemma NewPartition_lookup:
  assumes "distinct (map Label ps)"
  shows "map_of (Parts (NewPartition ps)) l = Some p \<longleftrightarrow> p \<in> set ps \<and> Label p = l"
proof -
  have "distinct (map fst (map (\<lambda>p. (Label p, p)) ps))"
    using assms by (simp add: comp_def)
  from map_of_eq_Some_iff [OF this, of l p] show ?thesis
    by (auto simp: NewPartition_def Parts_fold [OF assms] split: option.splits)
qed

text \<open>
  The partitions the callers ask for: sizes and labels of the same length, positive sizes that
  add up to the number of replicas, no label twice, and a store whose replicas have different
  ids and keys that are not nil interfaces.
\<close>

definition partition_request :: "'k tendermint \<Rightarrow> generic_partitioner \<Rightarrow> int list \<Rightarrow> string list \<Rightarrow> bool" where
  "partition_request T g sizes labels \<longleftrightarrow>
     length sizes = length labels \<and> (\<forall>sz \<in> set sizes. 0 < sz) \<and> sum_list sizes = all_Cap g \<and>
     distinct labels \<and> labels \<noteq> [] \<and>
     distinct (map ID (all_Iter g)) \<and> (\<forall>r \<in> set (all_Iter g). usable T r)"

lemma CreatePartition_parts:
  assumes "partition_request T g sizes labels" and "int (length (all_Iter g)) \<le> all_Cap g"
  shows "\<exists>ps. CreatePartition T g sizes labels = Some (Inr (NewPartition ps)) \<and>
    map Label ps = labels \<and> list_all2 (holds T) ps (deal (map nat sizes) (all_Iter g))"
proof -
  from assms(1) obtain s ts l ls where sizes: "sizes = s # ts" and labels: "labels = l # ls"
    by (cases sizes; cases labels) (auto simp: partition_request_def)
  have req: "length ls = length ts" "\<forall>t \<in> set ts. 0 < t" "0 < s" "s + sum_list ts = all_Cap g"
    using assms(1) sizes labels by (auto simp: partition_request_def)
  have "\<exists>ps. fill_parts T ([] @ s # ts) (all_Iter g) (length [])
        ([] @ \<lparr>ReplicaSet = NewReplicaSet, Label = l\<rparr> # empty_parts ls) = Some ([] @ ps) \<and>
      map Label ps = Label \<lparr>ReplicaSet = NewReplicaSet, Label = l\<rparr> # ls \<and>
      list_all2 (holds T) ps (deal (map nat (s # ts)) ([] @ all_Iter g))"
    using fill_parts_deal [of "[]" "[]" ls ts T "\<lparr>ReplicaSet = NewReplicaSet, Label = l\<rparr>" "[]" s
        "all_Iter g"] assms req
    by (simp add: holds_def partition_request_def)
  then show ?thesis
    using CreatePartition_fill [of sizes labels g T] assms(1) sizes labels
    by (auto simp: partition_request_def)
qed

lemma partition_runs:
  assumes "partition_request T g sizes labels" and "int (length (all_Iter g)) = all_Cap g"
  shows "\<exists>P. CreatePartition T g sizes labels = Some (Inr P) \<and>
    (\<forall>l. (\<exists>p. Partition_GetPart (Some P) l = Some (Some p)) \<longleftrightarrow> l \<in> set labels) \<and>
    (\<forall>i < length labels. \<exists>p. Partition_GetPart (Some P) (labels ! i) = Some (Some p) \<and>
       Part_Size (Some p) = Some (sizes ! i) \<and>
       (\<forall>r. Part_Contains (Some p) r =
          Some (r \<in> ID ` set (deal (map nat sizes) (all_Iter g) ! i))) \<and>
       (\<forall>a. Part_ContainsVal (Some p) a =
          Some (\<exists>r \<in> set (deal (map nat sizes) (all_Iter g) ! i). address_of T r = Some a)))"
proof -
  obtain ps where ps: "CreatePartition T g sizes labels = Some (Inr (NewPartition ps))"
    "map Label ps = labels" "list_all2 (holds T) ps (deal (map nat sizes) (all_Iter g))"
    using CreatePartition_parts [OF assms(1)] assms(2) by auto
  let ?runs = "deal (map nat sizes) (all_Iter g)"
  have dist: "distinct (map Label ps)"
    using assms(1) ps(2) by (simp add: partition_request_def)
  have "map int (map nat sizes) = sizes"
    using assms(1) by (auto simp: partition_request_def intro!: map_idI simp: less_imp_le)
  then have "int (sum_list (map nat sizes)) = sum_list sizes"
    by (metis sum_list_of_nat)
  then have total: "length (all_Iter g) = sum_list (map nat sizes)"
    using assms by (simp add: partition_request_def)
  have part: "\<exists>p. Partition_GetPart (Some (NewPartition ps)) (labels ! i) = Some (Some p) \<and>
       Part_Size (Some p) = Some (sizes ! i) \<and>
       (\<forall>r. Part_Contains (Some p) r = Some (r \<in> ID ` set (?runs ! i))) \<and>
       (\<forall>a. Part_ContainsVal (Some p) a = Some (\<exists>r \<in> set (?runs ! i). address_of T r = Some a))"
    if i: "i < length labels" for i
  proof (rule exI [of _ "ps ! i"], intro conjI)
    have len: "length ps = length labels" "length sizes = length labels"
      using ps(2) assms(1) by (auto simp: partition_request_def)
    have runs: "concat ?runs = all_Iter g" "i < length ?runs"
      using concat_deal [of "all_Iter g"] total i len by auto
    have holds: "foldo (ReplicaSet_Add T) (?runs ! i) NewReplicaSet = Some (ReplicaSet (ps ! i))"
      using ps(3) i len by (simp add: list_all2_conv_all_nth holds_def)
    have "distinct (concat (map (map ID) ?runs))"
      using assms(1) runs(1) by (simp add: partition_request_def map_concat [symmetric])
    then have ids: "distinct (map ID (?runs ! i))"
      using runs(2) by (auto simp: distinct_concat_iff)
    note contents = replica_set_built [OF holds ids]
    show "Partition_GetPart (Some (NewPartition ps)) (labels ! i) = Some (Some (ps ! i))"
    proof -
      have "Label (ps ! i) = labels ! i"
        using i len(1) ps(2) by (metis nth_map)
      then have "map_of (Parts (NewPartition ps)) (labels ! i) = Some (ps ! i)"
        using i len(1) by (simp add: NewPartition_lookup [OF dist])
      then show ?thesis by (simp add: Partition_GetPart_def)
    qed
    show "Part_Size (Some (ps ! i)) = Some (sizes ! i)"
    proof -
      have "0 < sizes ! i"
        using assms(1) i len(2) by (simp add: partition_request_def)
      moreover have "length (?runs ! i) = nat (sizes ! i)"
        using length_deal_nth [OF total, of i] i len(2) by simp
      ultimately show ?thesis
        using contents by (simp add: Part_Size_def)
    qed
    show "\<forall>r. Part_Contains (Some (ps ! i)) r = Some (r \<in> ID ` set (?runs ! i))"
      and "\<forall>a. Part_ContainsVal (Some (ps ! i)) a =
        Some (\<exists>r \<in> set (?runs ! i). address_of T r = Some a)"
      using contents by (auto simp: Part_Contains_def Part_ContainsVal_def)
  qed
  have "(\<exists>p. Partition_GetPart (Some (NewPartition ps)) l = Some (Some p)) \<longleftrightarrow> l \<in> set labels" for l
    using NewPartition_lookup [OF dist, of l] ps(2) by (auto simp: Partition_GetPart_def)
  with ps(1) part show ?thesis by blast
qed

text \<open>
  C15: when the sizes add up to the number of replicas, the partitioner returns (no error, no
  panic) a partition with exactly the requested labels, and the part with the i-th label has
  the i-th size and contains exactly the i-th consecutive run of the registered replicas.
\<close>

theorem create_partition_runs:
  assumes "partition_request T g sizes labels" and "int (length (all_Iter g)) = all_Cap g"
  shows "\<exists>P. CreatePartition T g sizes labels = Some (Inr P) \<and>
    (\<forall>l. (\<exists>p. Partition_GetPart (Some P) l = Some (Some p)) \<longleftrightarrow> l \<in> set labels) \<and>
    (\<forall>i < length labels. \<exists>p. Partition_GetPart (Some P) (labels ! i) = Some (Some p) \<and>
       Part_Size (Some p) = Some (sizes ! i) \<and>
       (\<forall>r. Part_Contains (Some p) r =
          Some (r \<in> ID ` set (deal (map nat sizes) (all_Iter g) ! i))) \<and>
       (\<forall>a. Part_ContainsVal (Some p) a =
          Some (\<exists>r \<in> set (deal (map nat sizes) (all_Iter g) ! i). address_of T r = Some a)))"
  by (rule partition_runs [OF assms])

text \<open>
  C14: every registered replica is in one part and in one only: the parts are disjoint and cover
  the replicas.
\<close>

theorem create_partition_exactly_one_part:
  assumes "partition_request T g sizes labels" and "int (length (all_Iter g)) = all_Cap g"
    and "CreatePartition T g sizes labels = Some (Inr P)" and "r \<in> set (all_Iter g)"
  shows "\<exists>!l. \<exists>p. Partition_GetPart (Some P) l = Some (Some p) \<and>
    Part_Contains (Some p) (ID r) = Some True"
proof -
  let ?runs = "deal (map nat sizes) (all_Iter g)"
  have P: "(\<exists>p. Partition_GetPart (Some P) l = Some (Some p)) \<longleftrightarrow> l \<in> set labels"
    "i < length labels \<Longrightarrow> \<exists>p. Partition_GetPart (Some P) (labels ! i) = Some (Some p) \<and>
       (\<forall>r. Part_Contains (Some p) r = Some (r \<in> ID ` set (?runs ! i)))" for l i
    using partition_runs [OF assms(1,2)] assms(3) by auto
  have len: "length ?runs = length labels" "length sizes = length labels"
    using assms(1) by (auto simp: partition_request_def)
  have "sum_list sizes = int (sum_list (map nat sizes))"
  proof -
    have "map int (map nat sizes) = sizes"
      using assms(1) by (auto simp: partition_request_def intro!: map_idI simp: less_imp_le)
    then show ?thesis by (metis sum_list_of_nat)
  qed
  then have cover: "concat ?runs = all_Iter g"
    using assms(1,2) by (intro concat_deal) (simp add: partition_request_def)
  then have ids: "distinct (concat (map (map ID) ?runs))"
    using assms(1) by (simp add: partition_request_def map_concat [symmetric])
  have once: "i = j" if "i < length labels" "j < length labels"
    "ID r \<in> ID ` set (?runs ! i)" "ID r \<in> ID ` set (?runs ! j)" for i j
    using distinct_concat_nth_disjoint [OF ids, of i j "ID r"] that len by simp
  from assms(4) cover obtain i where i: "i < length labels" "r \<in> set (?runs ! i)"
    by (metis UN_E in_set_conv_nth len(1) set_concat)
  show ?thesis
  proof (rule ex1I [of _ "labels ! i"])
    show "\<exists>p. Partition_GetPart (Some P) (labels ! i) = Some (Some p) \<and>
        Part_Contains (Some p) (ID r) = Some True"
      using P(2) [OF i(1)] i(2) by auto
  next
    fix l
    assume l: "\<exists>p. Partition_GetPart (Some P) l = Some (Some p) \<and>
        Part_Contains (Some p) (ID r) = Some True"
    then obtain j where j: "j < length labels" "l = labels ! j"
      using P(1) by (metis in_set_conv_nth)
    with l P(2) [OF j(1)] have "ID r \<in> ID ` set (?runs ! j)" by auto
    with once [OF i(1) j(1)] i(2) j(2) show "l = labels ! i" by auto
  qed
qed

text \<open>
  C16: when the partitioner does not succeed. It reports an error exactly when the sizes and
  labels do not match in length, a size is not positive, or the sizes do not add up to the
  store's capacity. With sizes that pass, it panics (an index past the last part) exactly when
  the store holds more replicas than its capacity.
\<close>

theorem create_partition_failures:
  assumes "\<forall>r \<in> set (all_Iter g). usable T r" and "distinct (map ID (all_Iter g))"
  shows "((\<exists>e. CreatePartition T g sizes labels = Some (Inl e)) \<longleftrightarrow>
      length sizes \<noteq> length labels \<or> (\<exists>sz \<in> set sizes. sz \<le> 0) \<or> sum_list sizes \<noteq> all_Cap g) \<and>
    (CreatePartition T g sizes labels = None \<longleftrightarrow>
      length sizes = length labels \<and> (\<forall>sz \<in> set sizes. 0 < sz) \<and> sum_list sizes = all_Cap g \<and>
      all_Cap g < int (length (all_Iter g)))"
proof (cases "length sizes \<noteq> length labels \<or> (\<exists>sz \<in> set sizes. sz \<le> 0) \<or> sum_list sizes \<noteq> all_Cap g")
  case True
  with CreatePartition_error [OF True, of T] show ?thesis by fastforce
next
  case False
  then have ok: "length sizes = length labels" "\<forall>sz \<in> set sizes. 0 < sz" "sum_list sizes = all_Cap g"
    by auto
  note fill = CreatePartition_fill [OF ok, of T]
  have "fill_parts T sizes (all_Iter g) 0 (empty_parts labels) = None \<longleftrightarrow>
      all_Cap g < int (length (all_Iter g))"
  proof (cases sizes)
    case Nil
    with ok show ?thesis by (cases "all_Iter g") auto
  next
    case (Cons s ts)
    with ok(1) obtain l ls where labels: "labels = l # ls" by (cases labels) auto
    let ?p = "\<lparr>ReplicaSet = NewReplicaSet, Label = l\<rparr>"
    have req: "length ls = length ts" "\<forall>t \<in> set ts. 0 < t" "0 < s" "s + sum_list ts = all_Cap g"
      using ok Cons labels by auto
    have h: "holds T ?p []" by (simp add: holds_def)
    show ?thesis
      using fill_parts_deal [of "[]" "[]" ls ts T ?p "[]" s "all_Iter g"]
        fill_parts_overflow [of "[]" "[]" ls ts T ?p "[]" s "all_Iter g"]
        req h assms Cons labels by (cases "all_Cap g < int (length (all_Iter g))") auto
  qed
  with fill False show ?thesis by auto
qed

section \<open>The partitions of the test cases\<close>

text \<open>
  Every setup deals the replicas out into three parts. \<open>part_is\<close>: the part with a label holds
  exactly the given replicas.
\<close>

definition part_is :: "'k tendermint \<Rightarrow> partition \<Rightarrow> string \<Rightarrow> replica list \<Rightarrow> bool" where
  "part_is T P l rs \<longleftrightarrow>
     (\<exists>p. Partition_GetPart (Some P) l = Some (Some p) \<and>
        Part_Size (Some p) = Some (int (length rs)) \<and>
        (\<forall>i. Part_Contains (Some p) i = Some (i \<in> ID ` set rs)) \<and>
        (\<forall>a. Part_ContainsVal (Some p) a = Some (\<exists>r \<in> set rs. address_of T r = Some a)))"

text \<open>The replicas a store lists: as many as its capacity, with different ids, safe to add.\<close>

definition store_ok :: "'k tendermint \<Rightarrow> replica list \<Rightarrow> int \<Rightarrow> bool" where
  "store_ok T rs cap \<longleftrightarrow>
     int (length rs) = cap \<and> distinct (map ID rs) \<and> (\<forall>r \<in> set rs. usable T r)"

lemma three_parts:
  assumes "store_ok T rs cap" and "0 < a" "0 < b" "0 < c" "a + b + c = cap" and "distinct [l1, l2, l3]"
  shows "\<exists>P. CreatePartition T (NewGenericPartitioner cap rs) [a, b, c] [l1, l2, l3] = Some (Inr P) \<and>
    part_is T P l1 (take (nat a) rs) \<and>
    part_is T P l2 (take (nat b) (drop (nat a) rs)) \<and>
    part_is T P l3 (drop (nat a + nat b) rs) \<and>
    (\<forall>l. (\<exists>p. Partition_GetPart (Some P) l = Some (Some p)) \<longleftrightarrow> l \<in> {l1, l2, l3})"
proof -
  let ?g = "NewGenericPartitioner cap rs"
  have req: "partition_request T ?g [a, b, c] [l1, l2, l3]"
    using assms by (auto simp: partition_request_def NewGenericPartitioner_def store_ok_def)
  have "int (length (all_Iter ?g)) = all_Cap ?g"
    using assms(1) by (simp add: NewGenericPartitioner_def store_ok_def)
  from partition_runs [OF req this] obtain P where
    P: "CreatePartition T ?g [a, b, c] [l1, l2, l3] = Some (Inr P)"
      "\<And>l. (\<exists>p. Partition_GetPart (Some P) l = Some (Some p)) \<longleftrightarrow> l \<in> set [l1, l2, l3]"
    and parts: "\<And>i. i < 3 \<Longrightarrow> \<exists>p. Partition_GetPart (Some P) ([l1, l2, l3] ! i) = Some (Some p) \<and>
       Part_Size (Some p) = Some ([a, b, c] ! i) \<and>
       (\<forall>r. Part_Contains (Some p) r = Some (r \<in> ID ` set (deal (map nat [a, b, c]) rs ! i))) \<and>
       (\<forall>v. Part_ContainsVal (Some p) v =
          Some (\<exists>r \<in> set (deal (map nat [a, b, c]) rs ! i). address_of T r = Some v))"
    by (auto simp: NewGenericPartitioner_def)
  have "int (length rs) = a + b + c"
    using assms(1,5) by (simp add: store_ok_def)
  then have len: "length rs = nat a + nat b + nat c"
    using assms(2-4) by linarith
  have "part_is T P l1 (take (nat a) rs)" "part_is T P l2 (take (nat b) (drop (nat a) rs))"
    using parts [of 0] parts [of 1] len assms(2,3) by (simp_all add: part_is_def)
  moreover have "take (nat c) (drop (nat b) (drop (nat a) rs)) = drop (nat a + nat b) rs"
    using len by (simp add: add.commute)
  then have "part_is T P l3 (drop (nat a + nat b) rs)"
    using parts [of 2] len assms(4) by (simp add: part_is_def)
  ultimately show ?thesis using P by auto
qed

text \<open>
  A request for parts of 1, f and 2 f replicas, in any order of the first two, with
  \<open>f = (cap - 1) / 3\<close> as Go divides: it fits exactly when \<open>cap\<close> is 3 f + 1 and at least 4.
\<close>

lemma byzantine_sizes:
  fixes cap :: int
  assumes "0 \<le> cap"
  shows "(0 < (cap - 1) sdiv 3 \<and> 1 + (cap - 1) sdiv 3 + 2 * ((cap - 1) sdiv 3) = cap) \<longleftrightarrow>
    4 \<le> cap \<and> cap mod 3 = 1"
proof (cases "1 \<le> cap")
  case True
  then have "(cap - 1) sdiv 3 = (cap - 1) div 3" by (simp add: sdiv_nonneg)
  then show ?thesis using True by presburger
next
  case False
  with assms have "cap = 0" by simp
  then show ?thesis by (simp add: signed_divide_int_def)
qed

end
