(* ===== verification/Messages.thy ===== *)
theory Messages
  imports Replicas
begin

text \<open>
  \<open>util/messages.go\<close>: the parsed form of an intercepted message, the parser, the accessors, and
  the operations that forge votes and proposals by changing a field and signing again.

  A \<open>TMessage\<close> is used through pointers, and the forging operations write to the object they are
  given, which is the one the scheduler's message pool refers to. The objects are therefore kept
  in a heap (\<open>tmsgs\<close>) and the operations take addresses. Everything else a \<open>TMessage\<close> refers to
  (its bytes, its protobuf message) is replaced and never written in place, so it is a value.

  \<open>encoding/json\<close> is a pair of functions over the four fields with a JSON tag.
\<close>

section \<open>Messages\<close>

text \<open>\<open>Untyped\<close> is the zero value of \<open>MessageType\<close>, the empty string.\<close>

datatype message_type =
    NewRoundStep | NewValidBlock | Proposal | ProposalPol | BlockPart | Vote | Prevote | Precommit
  | HasVote | VoteSetMaj23 | VoteSetBits | NoneType | Untyped

fun type_name :: "message_type \<Rightarrow> string" where
  "type_name NewRoundStep = ''NewRoundStep''"
| "type_name NewValidBlock = ''NewValidBlock''"
| "type_name Proposal = ''Proposal''"
| "type_name ProposalPol = ''ProposalPol''"
| "type_name BlockPart = ''BlockPart''"
| "type_name Vote = ''Vote''"
| "type_name Prevote = ''Prevote''"
| "type_name Precommit = ''Precommit''"
| "type_name HasVote = ''HasVote''"
| "type_name VoteSetMaj23 = ''VoteSetMaj23''"
| "type_name VoteSetBits = ''VoteSetBits''"
| "type_name NoneType = ''None''"
| "type_name Untyped = ''''"

lemma type_name_inject [simp]: "type_name a = type_name b \<longleftrightarrow> a = b"
  by (cases a; cases b) simp_all

definition ErrInvalidVote :: go_error where
  "ErrInvalidVote = errors_New ''invalid message type to change vote''"

record tmessage =
  ChannelID :: "16 word"
  MsgB :: bytes
  From :: string
  To :: string
  MsgType :: message_type
  Data :: "pb_message option"

record heap =
  tmsgs :: "addr \<Rightarrow> tmessage option"
  next_addr :: addr

definition alloc_tmsg :: "tmessage \<Rightarrow> 'a heap_scheme \<Rightarrow> addr \<times> 'a heap_scheme" where
  "alloc_tmsg t h =
     (next_addr h, h\<lparr>tmsgs := (tmsgs h)(next_addr h \<mapsto> t), next_addr := Suc (next_addr h)\<rparr>)"

definition put_tmsg :: "addr \<Rightarrow> tmessage \<Rightarrow> 'a heap_scheme \<Rightarrow> 'a heap_scheme" where
  "put_tmsg a t h = h\<lparr>tmsgs := (tmsgs h)(a \<mapsto> t)\<rparr>"

definition Clone :: "addr \<Rightarrow> 'a heap_scheme \<Rightarrow> (addr \<times> 'a heap_scheme) option" where
  "Clone a h = do {
     t \<leftarrow> tmsgs h a;
     Some (alloc_tmsg \<lparr>ChannelID = ChannelID t, MsgB = MsgB t, From = From t, To = To t,
                       MsgType = MsgType t, Data = Data t\<rparr> h) }"

text \<open>
  The height and the round of a message. The payload pointer is dereferenced, so a message whose
  type and data disagree panics. \<open>int(x)\<close> on an \<open>int64\<close> or \<open>int32\<close> keeps the signed value.
\<close>

definition hr_pair :: "height_round option \<Rightarrow> (int \<times> int) option" where
  "hr_pair p = map_option (\<lambda>hr. (sint (hr_Height hr), sint (hr_Round hr))) p"

definition vote_pair :: "pb_message option \<Rightarrow> (int \<times> int) option" where
  "vote_pair m = do {
     vm \<leftarrow> GetVote m;
     v \<leftarrow> vm_Vote vm;
     Some (sint (pv_Height v), sint (pv_Round v)) }"

definition HeightRound :: "tmessage \<Rightarrow> (int \<times> int) option" where
  "HeightRound t =
     (case MsgType t of
        NewRoundStep \<Rightarrow> hr_pair (GetNewRoundStep (Data t))
      | Proposal \<Rightarrow> do {
          p \<leftarrow> GetProposal (Data t);
          Some (sint (pp_Height p), sint (pp_Round p)) }
      | Prevote \<Rightarrow> vote_pair (Data t)
      | Precommit \<Rightarrow> vote_pair (Data t)
      | Vote \<Rightarrow> vote_pair (Data t)
      | NewValidBlock \<Rightarrow> hr_pair (GetNewValidBlock (Data t))
      | ProposalPol \<Rightarrow> do {
          p \<leftarrow> GetProposalPol (Data t);
          Some (sint (hr_Height p), -1) }
      | VoteSetMaj23 \<Rightarrow> hr_pair (GetVoteSetMaj23 (Data t))
      | VoteSetBits \<Rightarrow> hr_pair (GetVoteSetBits (Data t))
      | BlockPart \<Rightarrow> hr_pair (GetBlockPart (Data t))
      | _ \<Rightarrow> Some (-1, -1))"

definition Height :: "tmessage \<Rightarrow> int option" where
  "Height t = map_option fst (HeightRound t)"

definition Round :: "tmessage \<Rightarrow> int option" where
  "Round t = map_option snd (HeightRound t)"

section \<open>Encoding and parsing\<close>

record wire =
  w_chan_id :: "16 word"
  w_msg :: bytes
  w_from :: string
  w_to :: string

definition wire_of :: "tmessage \<Rightarrow> wire" where
  "wire_of t = \<lparr>w_chan_id = ChannelID t, w_msg = MsgB t, w_from = From t, w_to = To t\<rparr>"

record json =
  json_Marshal :: "wire \<Rightarrow> go_error + bytes"
  json_Unmarshal :: "bytes \<Rightarrow> wire \<times> go_error option"

text \<open>
  What \<open>encoding/json\<close> documents: a struct whose strings are ASCII comes back from its encoding.
  (Strings that are not valid UTF-8 do not: the encoder replaces the offending bytes.)
\<close>

definition ascii :: "string \<Rightarrow> bool" where
  "ascii s \<longleftrightarrow> (\<forall>c \<in> set s. (of_char c :: nat) < 128)"

definition json_spec :: "json \<Rightarrow> bool" where
  "json_spec J \<longleftrightarrow>
     (\<forall>w bs. ascii (w_from w) \<longrightarrow> ascii (w_to w) \<longrightarrow> json_Marshal J w = Inr bs \<longrightarrow>
        json_Unmarshal J bs = (w, None))"

text \<open>\<open>String()\<close> drops the error; the bytes are then nil and the string is empty.\<close>

definition TMessage_String :: "json \<Rightarrow> tmessage \<Rightarrow> string" where
  "TMessage_String J t =
     (case json_Marshal J (wire_of t) of
        Inl _ \<Rightarrow> '''' | Inr d \<Rightarrow> map (\<lambda>b. char_of (unat b)) d)"

text \<open>\<open>Marshal\<close> stores the encoded data in the message before it encodes the message.\<close>

definition Marshal :: "'k tendermint \<Rightarrow> json \<Rightarrow> addr \<Rightarrow> 'a heap_scheme \<Rightarrow>
    ((go_error + bytes) \<times> 'a heap_scheme) option" where
  "Marshal T J a h = do {
     t \<leftarrow> tmsgs h a;
     Some (case proto_Marshal T (Data t) of
         Inl err \<Rightarrow> (Inl err, h)
       | Inr msgB \<Rightarrow>
           (let t' = t\<lparr>MsgB := msgB\<rparr>
            in (json_Marshal J (wire_of t'), put_tmsg a t' h))) }"

text \<open>
  The type of a decoded message. A vote message is told apart by the type of the vote in it:
  \<open>v.Vote.Type\<close> goes through the inner pointer without a check.
\<close>

definition sum_type :: "pb_message \<Rightarrow> message_type option" where
  "sum_type m =
     (case Sum m of
        Some (Message_NewRoundStep _) \<Rightarrow> Some NewRoundStep
      | Some (Message_NewValidBlock _) \<Rightarrow> Some NewValidBlock
      | Some (Message_Proposal _) \<Rightarrow> Some Proposal
      | Some (Message_ProposalPol _) \<Rightarrow> Some ProposalPol
      | Some (Message_BlockPart _) \<Rightarrow> Some BlockPart
      | Some (Message_Vote _) \<Rightarrow>
          (case GetVote (Some m) of
             None \<Rightarrow> Some Vote
           | Some v \<Rightarrow> do {
               pv \<leftarrow> vm_Vote v;
               Some (case pv_Type pv of
                   PrevoteType \<Rightarrow> Prevote
                 | PrecommitType \<Rightarrow> Precommit
                 | _ \<Rightarrow> Vote) })
      | Some (Message_HasVote _) \<Rightarrow> Some HasVote
      | Some (Message_VoteSetMaj23 _) \<Rightarrow> Some VoteSetMaj23
      | Some (Message_VoteSetBits _) \<Rightarrow> Some VoteSetBits
      | None \<Rightarrow> Some NoneType)"

text \<open>The parser returns the message it filled in even when it returns an error.\<close>

definition Parse :: "'k tendermint \<Rightarrow> json \<Rightarrow> bytes \<Rightarrow> (tmessage \<times> go_error option) option" where
  "Parse T J m =
     (case json_Unmarshal J m of (w, err) \<Rightarrow>
        let cMsg = \<lparr>ChannelID = w_chan_id w, MsgB = w_msg w, From = w_from w, To = w_to w,
                    MsgType = Untyped, Data = None\<rparr>
        in if err \<noteq> None then Some (cMsg, err)
           else if ChannelID cMsg < 0x20 \<or> ChannelID cMsg > 0x23 then
             Some (cMsg\<lparr>MsgType := NoneType\<rparr>, None)
           else case proto_Unmarshal T (MsgB cMsg) of
               Inl _ \<Rightarrow> Some (cMsg\<lparr>MsgType := NoneType, Data := None\<rparr>, None)
             | Inr tMsg \<Rightarrow> do {
                 ty \<leftarrow> sum_type tMsg;
                 Some (cMsg\<lparr>Data := Some tMsg, MsgType := ty\<rparr>, None) })"

section \<open>Reading votes and proposals\<close>

definition GetProposalBlockID :: "'k tendermint \<Rightarrow> tmessage \<Rightarrow> block_id option option" where
  "GetProposalBlockID T t =
     (if MsgType t \<noteq> Proposal then Some None
      else do {
        prop \<leftarrow> GetProposal (Data t);
        Some (case BlockIDFromProto T (pp_BlockID prop) of Inl _ \<Rightarrow> None | Inr b \<Rightarrow> Some b) })"

definition GetProposalBlockIDS :: "'k tendermint \<Rightarrow> tmessage \<Rightarrow> string option option" where
  "GetProposalBlockIDS T t = do {
     b \<leftarrow> GetProposalBlockID T t;
     Some (map_option (\<lambda>blockID. hash_String T (Hash blockID)) b) }"

definition inner_vote :: "tmessage \<Rightarrow> pb_vote option" where
  "inner_vote t = do { vm \<leftarrow> GetVote (Data t); vm_Vote vm }"

definition GetVoteTime :: "tmessage \<Rightarrow> time option option" where
  "GetVoteTime t =
     (if MsgType t = Precommit \<or> MsgType t = Prevote
      then do { v \<leftarrow> inner_vote t; Some (Some (pv_Timestamp v)) }
      else Some None)"

definition GetVoteBlockID :: "'k tendermint \<Rightarrow> tmessage \<Rightarrow> block_id option option" where
  "GetVoteBlockID T t =
     (if MsgType t \<noteq> Prevote \<and> MsgType t \<noteq> Precommit then Some None
      else do {
        v \<leftarrow> inner_vote t;
        Some (case BlockIDFromProto T (pv_BlockID v) of Inl _ \<Rightarrow> None | Inr b \<Rightarrow> Some b) })"

definition GetVoteBlockIDS :: "'k tendermint \<Rightarrow> tmessage \<Rightarrow> string option option" where
  "GetVoteBlockIDS T t = do {
     b \<leftarrow> GetVoteBlockID T t;
     Some (map_option (\<lambda>blockID. hash_String T (Hash blockID)) b) }"

text \<open>The type is not looked at: a message that is not a vote panics.\<close>

definition IsVoteFrom :: "'k tendermint \<Rightarrow> tmessage \<Rightarrow> replica option \<Rightarrow> bool option" where
  "IsVoteFrom T t r = do {
     pk \<leftarrow> GetPrivKey T r;
     (case pk of
        Inl _ \<Rightarrow> Some False
      | Inr privKey \<Rightarrow> do {
          k \<leftarrow> privKey;
          v \<leftarrow> inner_vote t;
          Some (key_address T k = pv_ValidatorAddress v) }) }"

text \<open>
  \<open>GetValidatorAddress\<close> is a generated accessor: on a nil vote it returns nil instead of
  panicking.
\<close>

definition GetVoteValidator :: "tmessage \<Rightarrow> bytes option option" where
  "GetVoteValidator t =
     (if MsgType t \<noteq> Prevote \<and> MsgType t \<noteq> Precommit then Some None
      else do {
        vm \<leftarrow> GetVote (Data t);
        Some (Some (case vm_Vote vm of None \<Rightarrow> [] | Some v \<Rightarrow> pv_ValidatorAddress v)) })"

section \<open>Forging votes and proposals\<close>

text \<open>
  The results are Go pairs of a pointer and an error; on a message that is not a vote
  \<open>ChangeVote\<close> returns both. The message object is written last, after the signature.
\<close>

type_synonym 'h forged = "(addr option \<times> go_error option) \<times> 'h"

definition put_vote :: "addr \<Rightarrow> tmessage \<Rightarrow> pb_vote \<Rightarrow> 'a heap_scheme \<Rightarrow> 'a heap_scheme" where
  "put_vote a t v h =
     put_tmsg a (t\<lparr>Data := Some (Message (Some (Message_Vote (Some (Vote_msg (Some v))))))\<rparr>) h"

definition put_proposal :: "addr \<Rightarrow> tmessage \<Rightarrow> pb_proposal \<Rightarrow> 'a heap_scheme \<Rightarrow> 'a heap_scheme" where
  "put_proposal a t p h =
     put_tmsg a (t\<lparr>Data := Some (Message (Some (Message_Proposal (Some p))))\<rparr>) h"

definition ChangeVote :: "'k tendermint \<Rightarrow> replica option \<Rightarrow> addr \<Rightarrow> block_id option \<Rightarrow>
    'a heap_scheme \<Rightarrow> 'a heap_scheme forged option" where
  "ChangeVote T r a blockID h = do {
     pk \<leftarrow> GetPrivKey T r;
     (case pk of Inl err \<Rightarrow> Some ((None, Some err), h) | Inr privKey \<Rightarrow> do {
     cid \<leftarrow> GetChainID r;
     (case cid of Inl err \<Rightarrow> Some ((None, Some err), h) | Inr chainID \<Rightarrow> do {
     t \<leftarrow> tmsgs h a;
     (if MsgType t \<noteq> Prevote \<and> MsgType t \<noteq> Precommit then Some ((Some a, Some ErrInvalidVote), h)
      else do {
        vt \<leftarrow> inner_vote t;
        b \<leftarrow> blockID;
        let newVote = \<lparr>vt_Type = pv_Type vt, vt_Height = pv_Height vt, vt_Round = pv_Round vt,
          vt_BlockID = b, vt_Timestamp = pv_Timestamp vt,
          vt_ValidatorAddress = pv_ValidatorAddress vt,
          vt_ValidatorIndex = pv_ValidatorIndex vt, vt_Signature = []\<rparr>;
        let signBytes = VoteSignBytes T chainID (vote_ToProto T newVote);
        k \<leftarrow> privKey;
        (case key_Sign T k signBytes of
           Inl err \<Rightarrow> Some ((None, Some (fmt_Errorf ''could not sign vote: %s'' err)), h)
         | Inr sig \<Rightarrow>
             Some ((Some a, None), put_vote a t (vote_ToProto T (newVote\<lparr>vt_Signature := sig\<rparr>)) h)) }) }) }) }"

definition ChangeVoteToNil :: "'k tendermint \<Rightarrow> replica option \<Rightarrow> addr \<Rightarrow>
    'a heap_scheme \<Rightarrow> 'a heap_scheme forged option" where
  "ChangeVoteToNil T r a h = ChangeVote T r a (Some nil_block_id) h"

text \<open>The same with the time instead of the block; on another type it returns no error.\<close>

definition ChangeVoteTime :: "'k tendermint \<Rightarrow> replica option \<Rightarrow> addr \<Rightarrow> time \<Rightarrow>
    'a heap_scheme \<Rightarrow> 'a heap_scheme forged option" where
  "ChangeVoteTime T r a tm h = do {
     pk \<leftarrow> GetPrivKey T r;
     (case pk of Inl err \<Rightarrow> Some ((None, Some err), h) | Inr privKey \<Rightarrow> do {
     cid \<leftarrow> GetChainID r;
     (case cid of Inl err \<Rightarrow> Some ((None, Some err), h) | Inr chainID \<Rightarrow> do {
     t \<leftarrow> tmsgs h a;
     (if MsgType t \<noteq> Prevote \<and> MsgType t \<noteq> Precommit then Some ((Some a, None), h)
      else do {
        vt \<leftarrow> inner_vote t;
        (case BlockIDFromProto T (pv_BlockID vt) of
           Inl err \<Rightarrow> Some ((None, Some err), h)
         | Inr b \<Rightarrow> do {
             let newVote = \<lparr>vt_Type = pv_Type vt, vt_Height = pv_Height vt, vt_Round = pv_Round vt,
               vt_BlockID = b, vt_Timestamp = tm,
               vt_ValidatorAddress = pv_ValidatorAddress vt,
               vt_ValidatorIndex = pv_ValidatorIndex vt, vt_Signature = []\<rparr>;
             let signBytes = VoteSignBytes T chainID (vote_ToProto T newVote);
             k \<leftarrow> privKey;
             (case key_Sign T k signBytes of
                Inl err \<Rightarrow> Some ((None, Some (fmt_Errorf ''could not sign vote: %s'' err)), h)
              | Inr sig \<Rightarrow>
                  Some ((Some a, None), put_vote a t (vote_ToProto T (newVote\<lparr>vt_Signature := sig\<rparr>)) h)) }) }) }) }) }"

definition ChangeProposalBlockID :: "'k tendermint \<Rightarrow> replica option \<Rightarrow> addr \<Rightarrow>
    'a heap_scheme \<Rightarrow> 'a heap_scheme forged option" where
  "ChangeProposalBlockID T r a h = do {
     pk \<leftarrow> GetPrivKey T r;
     (case pk of Inl err \<Rightarrow> Some ((None, Some err), h) | Inr privKey \<Rightarrow> do {
     cid \<leftarrow> GetChainID r;
     (case cid of Inl err \<Rightarrow> Some ((None, Some err), h) | Inr chainID \<Rightarrow> do {
     t \<leftarrow> tmsgs h a;
     propP \<leftarrow> GetProposal (Data t);
     (case ProposalFromProto T propP of
        Inl _ \<Rightarrow> Some ((None, Some (errors_New ''failed converting proposal message'')), h)
      | Inr prop \<Rightarrow> do {
          let newProp = \<lparr>pr_Type = pr_Type prop, pr_Height = pr_Height prop,
            pr_Round = pr_Round prop, pr_POLRound = pr_POLRound prop,
            pr_BlockID = nil_block_id, pr_Timestamp = pr_Timestamp prop, pr_Signature = []\<rparr>;
          let signB = ProposalSignBytes T chainID (proposal_ToProto T newProp);
          k \<leftarrow> privKey;
          (case key_Sign T k signB of
             Inl err \<Rightarrow> Some ((None, Some (fmt_Errorf ''could not sign proposal: %s'' err)), h)
           | Inr sig \<Rightarrow>
               Some ((Some a, None), put_proposal a t (proposal_ToProto T (newProp\<lparr>pr_Signature := sig\<rparr>)) h)) }) }) }) }"

definition ChangeProposalLockedValue :: "'k tendermint \<Rightarrow> replica option \<Rightarrow> addr \<Rightarrow>
    'a heap_scheme \<Rightarrow> 'a heap_scheme forged option" where
  "ChangeProposalLockedValue T r a h = do {
     pk \<leftarrow> GetPrivKey T r;
     (case pk of Inl err \<Rightarrow> Some ((None, Some err), h) | Inr privKey \<Rightarrow> do {
     cid \<leftarrow> GetChainID r;
     (case cid of Inl err \<Rightarrow> Some ((None, Some err), h) | Inr chainID \<Rightarrow> do {
     t \<leftarrow> tmsgs h a;
     propP \<leftarrow> GetProposal (Data t);
     (case ProposalFromProto T propP of
        Inl _ \<Rightarrow> Some ((None, Some (errors_New ''failed converting proposal message'')), h)
      | Inr prop \<Rightarrow> do {
          let newProp = \<lparr>pr_Type = pr_Type prop, pr_Height = pr_Height prop,
            pr_Round = pr_Round prop, pr_POLRound = -1,
            pr_BlockID = pr_BlockID prop, pr_Timestamp = pr_Timestamp prop, pr_Signature = []\<rparr>;
          let signB = ProposalSignBytes T chainID (proposal_ToProto T newProp);
          k \<leftarrow> privKey;
          (case key_Sign T k signB of
             Inl err \<Rightarrow> Some ((None, Some (fmt_Errorf ''could not sign proposal: %s'' err)), h)
           | Inr sig \<Rightarrow>
               Some ((Some a, None), put_proposal a t (proposal_ToProto T (newProp\<lparr>pr_Signature := sig\<rparr>)) h)) }) }) }) }"

section \<open>Parsed messages are well typed\<close>

text \<open>
  The type tag agrees with the data: what the accessors of the tagged type dereference is there.
\<close>

definition well_typed :: "tmessage \<Rightarrow> bool" where
  "well_typed t \<longleftrightarrow>
     (case Data t of
        None \<Rightarrow> MsgType t = NoneType \<or> MsgType t = Untyped
      | Some m \<Rightarrow> sum_type m = Some (MsgType t) \<and> (\<forall>s. Sum m = Some s \<longrightarrow> payload_present s))"

lemma codec_specD:
  assumes "codec_spec T"
  shows "proto_Marshal T (Some m) = Inr bs \<Longrightarrow> proto_Unmarshal T bs = Inr m"
    and "proto_Unmarshal T bs = Inr m \<Longrightarrow> Sum m = Some s \<Longrightarrow> payload_present s"
  using assms by (auto simp: codec_spec_def)

lemma Parse_well_typed:
  assumes "codec_spec T" and "Parse T J m = Some (t, err)"
  shows "well_typed t"
  using assms(2) codec_specD(2) [OF assms(1)]
  by (auto simp: Parse_def well_typed_def Let_def
      split: prod.splits if_splits sum.splits Option.bind_splits)

lemma sum_type_payload:
  assumes "sum_type m = Some ty" and "\<forall>s. Sum m = Some s \<longrightarrow> payload_present s"
  shows "ty = NewRoundStep \<Longrightarrow> \<exists>p. GetNewRoundStep (Some m) = Some p"
    and "ty = NewValidBlock \<Longrightarrow> \<exists>p. GetNewValidBlock (Some m) = Some p"
    and "ty = Proposal \<Longrightarrow> \<exists>p. GetProposal (Some m) = Some p"
    and "ty = ProposalPol \<Longrightarrow> \<exists>p. GetProposalPol (Some m) = Some p"
    and "ty = BlockPart \<Longrightarrow> \<exists>p. GetBlockPart (Some m) = Some p"
    and "ty = VoteSetMaj23 \<Longrightarrow> \<exists>p. GetVoteSetMaj23 (Some m) = Some p"
    and "ty = VoteSetBits \<Longrightarrow> \<exists>p. GetVoteSetBits (Some m) = Some p"
    and "ty = Prevote \<Longrightarrow> \<exists>v. GetVote (Some m) = Some (Vote_msg (Some v)) \<and> pv_Type v = PrevoteType"
    and "ty = Precommit \<Longrightarrow> \<exists>v. GetVote (Some m) = Some (Vote_msg (Some v)) \<and> pv_Type v = PrecommitType"
    and "ty = Vote \<Longrightarrow> \<exists>v. GetVote (Some m) = Some (Vote_msg (Some v))"
proof -
  consider "Sum m = None" "ty = NoneType"
    | s where "Sum m = Some s" "payload_present s" "sum_type m = Some ty"
    using assms by (cases "Sum m") (auto simp: sum_type_def)
  note cs = this
  have vote: "\<exists>v. GetVote (Some m) = Some (Vote_msg (Some v)) \<and>
      (ty = Prevote \<longrightarrow> pv_Type v = PrevoteType) \<and> (ty = Precommit \<longrightarrow> pv_Type v = PrecommitType)"
    if "ty = Prevote \<or> ty = Precommit \<or> ty = Vote"
    using cs
  proof cases
    case 1
    with that show ?thesis by auto
  next
    case (2 s)
    with that obtain vm where s: "s = Message_Vote (Some vm)"
      by (cases s) (auto simp: sum_type_def)
    with 2 have vm: "GetVote (Some m) = Some vm" by (simp add: getter_defs)
    with 2 s obtain v where v: "vm = Vote_msg (Some v)"
      by (cases vm) (auto simp: sum_type_def split: Option.bind_splits)
    with 2 s vm show ?thesis
      by (auto simp: sum_type_def split: signed_msg_type.splits)
  qed
  show "ty = Prevote \<Longrightarrow> \<exists>v. GetVote (Some m) = Some (Vote_msg (Some v)) \<and> pv_Type v = PrevoteType"
    and "ty = Precommit \<Longrightarrow> \<exists>v. GetVote (Some m) = Some (Vote_msg (Some v)) \<and> pv_Type v = PrecommitType"
    and "ty = Vote \<Longrightarrow> \<exists>v. GetVote (Some m) = Some (Vote_msg (Some v))"
    using vote by auto
  show "ty = NewRoundStep \<Longrightarrow> \<exists>p. GetNewRoundStep (Some m) = Some p"
    and "ty = NewValidBlock \<Longrightarrow> \<exists>p. GetNewValidBlock (Some m) = Some p"
    and "ty = Proposal \<Longrightarrow> \<exists>p. GetProposal (Some m) = Some p"
    and "ty = ProposalPol \<Longrightarrow> \<exists>p. GetProposalPol (Some m) = Some p"
    and "ty = BlockPart \<Longrightarrow> \<exists>p. GetBlockPart (Some m) = Some p"
    and "ty = VoteSetMaj23 \<Longrightarrow> \<exists>p. GetVoteSetMaj23 (Some m) = Some p"
    and "ty = VoteSetBits \<Longrightarrow> \<exists>p. GetVoteSetBits (Some m) = Some p"
    using assms
    by (cases m; auto simp: sum_type_def getter_defs
        split: message_sum.splits option.splits Option.bind_splits signed_msg_type.splits)+
qed

definition int32_range :: "int \<Rightarrow> bool" where
  "int32_range r \<longleftrightarrow> - (2 ^ 31) \<le> r \<and> r < 2 ^ 31"

definition int64_range :: "int \<Rightarrow> bool" where
  "int64_range h \<longleftrightarrow> - (2 ^ 63) \<le> h \<and> h < 2 ^ 63"

lemma sint32_range: "int32_range (sint (w :: 32 word))"
  using sint_ge [of w] sint_lt [of w] by (simp add: int32_range_def)

lemma sint64_range: "int64_range (sint (w :: 64 word))"
  using sint_ge [of w] sint_lt [of w] by (simp add: int64_range_def)

lemma HeightRound_range:
  assumes "HeightRound t = Some (h, r)"
  shows "int64_range h \<and> int32_range r"
  using assms
  by (auto simp: HeightRound_def hr_pair_def vote_pair_def sint32_range sint64_range
      int32_range_def [of "-1"] int64_range_def [of "-1"]
      split: message_type.splits Option.bind_splits)

lemma well_typed_HeightRound:
  assumes "well_typed t"
  shows "\<exists>h r. HeightRound t = Some (h, r)"
proof (cases "Data t")
  case None
  with assms show ?thesis by (auto simp: well_typed_def HeightRound_def)
next
  case (Some m)
  with assms have ty: "sum_type m = Some (MsgType t)" "\<forall>s. Sum m = Some s \<longrightarrow> payload_present s"
    by (auto simp: well_typed_def)
  note payload = sum_type_payload [OF ty]
  show ?thesis
  proof (cases "MsgType t")
    case Prevote
    then show ?thesis using payload(8) Some by (auto simp: HeightRound_def vote_pair_def)
  next
    case Precommit
    then show ?thesis using payload(9) Some by (auto simp: HeightRound_def vote_pair_def)
  next
    case Vote
    then show ?thesis using payload(10) Some by (auto simp: HeightRound_def vote_pair_def)
  qed (use payload(1-7) Some in \<open>auto simp: HeightRound_def hr_pair_def\<close>)
qed

lemma inner_vote_GetVote: "inner_vote t = Some v \<Longrightarrow> GetVote (Data t) = Some (Vote_msg (Some v))"
  by (cases "GetVote (Data t)"; auto simp: inner_vote_def intro: vote_msg.expand)

lemma well_typed_vote:
  assumes "well_typed t" and "MsgType t = Prevote \<or> MsgType t = Precommit"
  shows "\<exists>v. inner_vote t = Some v \<and>
    (MsgType t = Prevote \<longleftrightarrow> pv_Type v = PrevoteType) \<and>
    (MsgType t = Precommit \<longleftrightarrow> pv_Type v = PrecommitType)"
proof (cases "Data t")
  case None
  with assms show ?thesis by (auto simp: well_typed_def)
next
  case (Some m)
  with assms(1) have ty: "sum_type m = Some (MsgType t)" "\<forall>s. Sum m = Some s \<longrightarrow> payload_present s"
    by (auto simp: well_typed_def)
  show ?thesis
    using sum_type_payload(8,9) [OF ty] assms(2) Some by (auto simp: inner_vote_def)
qed

lemma well_typed_proposal:
  assumes "well_typed t" and "MsgType t = Proposal"
  shows "\<exists>p. GetProposal (Data t) = Some p"
proof (cases "Data t")
  case None
  with assms show ?thesis by (auto simp: well_typed_def)
next
  case (Some m)
  with assms(1) have ty: "sum_type m = Some (MsgType t)" "\<forall>s. Sum m = Some s \<longrightarrow> payload_present s"
    by (auto simp: well_typed_def)
  show ?thesis
    using sum_type_payload(1-7) [OF ty] assms(2) Some by auto
qed

text \<open>
  C37: whatever the parser returns can be asked for its height and round without a panic, and
  they are 64-bit and 32-bit values; a message tagged as a prevote or a precommit holds a vote of
  that type.
\<close>

theorem parsed_message_safe:
  assumes "codec_spec T" and "Parse T J m = Some (t, err)"
  shows "well_typed t \<and>
    (\<exists>h r. HeightRound t = Some (h, r) \<and> int64_range h \<and> int32_range r) \<and>
    (MsgType t = Prevote \<longrightarrow> (\<exists>v. inner_vote t = Some v \<and> pv_Type v = PrevoteType)) \<and>
    (MsgType t = Precommit \<longrightarrow> (\<exists>v. inner_vote t = Some v \<and> pv_Type v = PrecommitType))"
proof -
  have wt: "well_typed t" using Parse_well_typed [OF assms] .
  from well_typed_HeightRound [OF wt] obtain h r where hr: "HeightRound t = Some (h, r)"
    by blast
  show ?thesis
    using wt hr HeightRound_range [OF hr] well_typed_vote [OF wt] by blast
qed

lemma sum_type_nil_vote [simp]: "sum_type (Message (Some (Message_Vote (Some (Vote_msg None))))) = None"
  by (simp add: sum_type_def)

lemma sum_type_None: "sum_type p = None \<longleftrightarrow> p = Message (Some (Message_Vote (Some (Vote_msg None))))"
proof (cases p)
  case (Message s)
  then show ?thesis
    by (cases s) (auto simp: sum_type_def getter_defs vote_msg.expand
        split: message_sum.splits option.splits Option.bind_splits)
qed

text \<open>
  C38: the one input on which the parser panics: a message on a consensus channel whose payload
  decodes to a vote message without a vote in it.
\<close>

theorem parse_panics_iff:
  "Parse T J m = None \<longleftrightarrow>
    (\<exists>w. json_Unmarshal J m = (w, None) \<and> 0x20 \<le> w_chan_id w \<and> w_chan_id w \<le> 0x23 \<and>
      proto_Unmarshal T (w_msg w) = Inr (Message (Some (Message_Vote (Some (Vote_msg None))))))"
  by (auto simp: Parse_def Let_def not_less sum_type_None split: prod.splits sum.splits Option.bind_splits)

section \<open>Encoding and parsing back\<close>

lemma Marshal_Parse:
  assumes "codec_spec T" and "json_spec J"
    and "tmsgs h a = Some t" and "well_typed t" and "Data t = Some m"
    and "0x20 \<le> ChannelID t" and "ChannelID t \<le> 0x23" and "ascii (From t)" and "ascii (To t)"
    and "Marshal T J a h = Some (Inr bs, h')"
  shows "\<exists>t'. Parse T J bs = Some (t', None) \<and> tmsgs h' a = Some t' \<and>
    t' = t\<lparr>MsgB := MsgB t'\<rparr> \<and> (\<forall>b. b \<noteq> a \<longrightarrow> tmsgs h' b = tmsgs h b)"
proof -
  from assms(3,5,10) obtain msgB where msgB: "proto_Marshal T (Some m) = Inr msgB"
    "json_Marshal J (wire_of (t\<lparr>MsgB := msgB\<rparr>)) = Inr bs" "h' = put_tmsg a (t\<lparr>MsgB := msgB\<rparr>) h"
    by (auto simp: Marshal_def Let_def split: sum.splits)
  have "json_Unmarshal J bs = (wire_of (t\<lparr>MsgB := msgB\<rparr>), None)"
    using assms(2,8,9) msgB(2) by (auto simp: json_spec_def wire_of_def)
  moreover have "proto_Unmarshal T msgB = Inr m"
    using codec_specD(1) [OF assms(1)] msgB(1) .
  moreover have "sum_type m = Some (MsgType t)"
    using assms(4,5) by (simp add: well_typed_def)
  ultimately have "Parse T J bs = Some (t\<lparr>MsgB := msgB\<rparr>, None)"
    using assms(5-7) by (simp add: Parse_def wire_of_def Let_def not_less)
  then show ?thesis
    using msgB(3) by (auto simp: put_tmsg_def)
qed

text \<open>
  C39: encoding a well-typed message on a consensus channel and parsing the bytes gives the same
  message: the same endpoints, channel, type and data, and the bytes \<open>Marshal\<close> stored in it.
\<close>

theorem marshal_parse_roundtrip:
  assumes "codec_spec T" and "json_spec J"
    and "tmsgs h a = Some t" and "well_typed t" and "Data t = Some m"
    and "0x20 \<le> ChannelID t" and "ChannelID t \<le> 0x23" and "ascii (From t)" and "ascii (To t)"
    and "Marshal T J a h = Some (Inr bs, h')"
  shows "\<exists>t'. Parse T J bs = Some (t', None) \<and> tmsgs h' a = Some t' \<and>
    t' = t\<lparr>MsgB := MsgB t'\<rparr> \<and> (\<forall>b. b \<noteq> a \<longrightarrow> tmsgs h' b = tmsgs h b)"
  by (rule Marshal_Parse [OF assms])

section \<open>Forged messages\<close>

lemma put_vote_simps [simp]:
  "tmsgs (put_vote a t v h) b =
     (if b = a then Some (t\<lparr>Data := Some (Message (Some (Message_Vote (Some (Vote_msg (Some v))))))\<rparr>)
      else tmsgs h b)"
  "next_addr (put_vote a t v h) = next_addr h"
  "inner_vote (t\<lparr>Data := Some (Message (Some (Message_Vote (Some (Vote_msg (Some v))))))\<rparr>) = Some v"
  by (simp_all add: put_vote_def put_tmsg_def inner_vote_def)

lemma put_proposal_simps [simp]:
  "tmsgs (put_proposal a t p h) b =
     (if b = a then Some (t\<lparr>Data := Some (Message (Some (Message_Proposal (Some p))))\<rparr>)
      else tmsgs h b)"
  "next_addr (put_proposal a t p h) = next_addr h"
  by (simp_all add: put_proposal_def put_tmsg_def)

text \<open>A replica that can sign: its key and its chain id can be read.\<close>

definition signer :: "'k tendermint \<Rightarrow> replica \<Rightarrow> 'k \<Rightarrow> string \<Rightarrow> bool" where
  "signer T r k c \<longleftrightarrow> GetPrivKey T (Some r) = Some (Inr (Some k)) \<and> GetChainID (Some r) = Some (Inr c)"

text \<open>
  What a forged vote is: the vote \<open>v\<close> with block \<open>b\<close> and time \<open>tm\<close>, everything else unchanged,
  under a signature that verifies for the whole new vote.
\<close>

definition forged_vote :: "'k tendermint \<Rightarrow> ('k \<Rightarrow> bytes \<Rightarrow> bytes \<Rightarrow> bool) \<Rightarrow> 'k \<Rightarrow> string \<Rightarrow>
    pb_vote \<Rightarrow> block_id \<Rightarrow> time \<Rightarrow> pb_vote \<Rightarrow> bool" where
  "forged_vote T verify k c v b tm v' \<longleftrightarrow>
     (\<exists>sig. v' = v\<lparr>pv_BlockID := block_id_ToProto T b, pv_Timestamp := tm, pv_Signature := sig\<rparr>) \<and>
     verify k (VoteSignBytes T c v') (pv_Signature v')"

lemma sign_vote:
  assumes "signing_spec T verify" and "conversion_spec T valid"
    and nv: "nv = \<lparr>vt_Type = pv_Type v, vt_Height = pv_Height v, vt_Round = pv_Round v,
      vt_BlockID = b, vt_Timestamp = tm, vt_ValidatorAddress = pv_ValidatorAddress v,
      vt_ValidatorIndex = pv_ValidatorIndex v, vt_Signature = []\<rparr>"
    and "key_Sign T k (VoteSignBytes T c (vote_ToProto T nv)) = Inr sig"
  shows "forged_vote T verify k c v b tm (vote_ToProto T (nv\<lparr>vt_Signature := sig\<rparr>))"
proof -
  note vtp = conversion_specD(1) [OF assms(2)]
  have eq: "vote_ToProto T (nv\<lparr>vt_Signature := sig\<rparr>) = (vote_ToProto T nv)\<lparr>pv_Signature := sig\<rparr>"
    by (simp add: vtp)
  have "vote_ToProto T (nv\<lparr>vt_Signature := sig\<rparr>) =
      v\<lparr>pv_BlockID := block_id_ToProto T b, pv_Timestamp := tm, pv_Signature := sig\<rparr>"
    by (simp add: vtp nv)
  moreover have "verify k (VoteSignBytes T c (vote_ToProto T nv)) sig"
    using signing_specD(1) [OF assms(1,4)] .
  then have "verify k (VoteSignBytes T c (vote_ToProto T (nv\<lparr>vt_Signature := sig\<rparr>)))
      (pv_Signature (vote_ToProto T (nv\<lparr>vt_Signature := sig\<rparr>)))"
    using signing_specD(2) [OF assms(1)] by (simp add: eq)
  ultimately show ?thesis
    unfolding forged_vote_def by blast
qed

lemma ChangeVote_cases:
  assumes "signing_spec T verify" and "conversion_spec T valid"
    and "ChangeVote T (Some r) a (Some b) h = Some ((res, err), h')"
  shows "(err \<noteq> None \<longrightarrow> h' = h) \<and>
    (err = None \<longrightarrow> res = Some a \<and>
      (\<exists>t v k c v'. tmsgs h a = Some t \<and> (MsgType t = Prevote \<or> MsgType t = Precommit) \<and>
        inner_vote t = Some v \<and> signer T r k c \<and>
        forged_vote T verify k c v b (pv_Timestamp v) v' \<and> h' = put_vote a t v' h))"
proof (cases "err = None")
  case False
  with assms(3) show ?thesis
    by (auto simp: ChangeVote_def Let_def split: sum.splits if_splits Option.bind_splits)
next
  case True
  with assms(3) obtain k c t v sig where run: "GetPrivKey T (Some r) = Some (Inr (Some k))"
    "GetChainID (Some r) = Some (Inr c)" "tmsgs h a = Some t"
    "MsgType t = Prevote \<or> MsgType t = Precommit" "inner_vote t = Some v" "res = Some a"
    "key_Sign T k (VoteSignBytes T c (vote_ToProto T \<lparr>vt_Type = pv_Type v, vt_Height = pv_Height v,
      vt_Round = pv_Round v, vt_BlockID = b, vt_Timestamp = pv_Timestamp v,
      vt_ValidatorAddress = pv_ValidatorAddress v, vt_ValidatorIndex = pv_ValidatorIndex v,
      vt_Signature = []\<rparr>)) = Inr sig"
    "h' = put_vote a t (vote_ToProto T (\<lparr>vt_Type = pv_Type v, vt_Height = pv_Height v,
      vt_Round = pv_Round v, vt_BlockID = b, vt_Timestamp = pv_Timestamp v,
      vt_ValidatorAddress = pv_ValidatorAddress v, vt_ValidatorIndex = pv_ValidatorIndex v,
      vt_Signature = []\<rparr>\<lparr>vt_Signature := sig\<rparr>)) h"
    by (auto simp: ChangeVote_def Let_def split: sum.splits if_splits Option.bind_splits)
  from sign_vote [OF assms(1,2) refl run(7)] run True show ?thesis
    by (auto simp: signer_def)
qed

text \<open>
  C33: what \<open>ChangeVote\<close> can return. Either there is an error and nothing was written, or the
  message object now holds the same vote for the given block with a signature of the given
  replica, and no other object was touched.
\<close>

theorem change_vote_result:
  assumes "signing_spec T verify" and "conversion_spec T valid"
    and "ChangeVote T (Some r) a (Some b) h = Some ((res, err), h')"
  shows "(err \<noteq> None \<longrightarrow> h' = h) \<and>
    (err = None \<longrightarrow> res = Some a \<and>
      (\<exists>t v k c v'. tmsgs h a = Some t \<and> (MsgType t = Prevote \<or> MsgType t = Precommit) \<and>
        inner_vote t = Some v \<and> signer T r k c \<and>
        forged_vote T verify k c v b (pv_Timestamp v) v' \<and> h' = put_vote a t v' h))"
  by (rule ChangeVote_cases [OF assms])

lemma ChangeVote_returns:
  assumes "well_typed t" and "tmsgs h a = Some t" and "usable T r"
    and "Info r ''chain_id'' \<noteq> Some InfoOther"
  shows "(\<exists>out. ChangeVote T (Some r) a (Some b) h = Some out) \<and>
    (\<forall>k c. signer T r k c \<longrightarrow> (\<forall>m. \<exists>sig. key_Sign T k m = Inr sig) \<longrightarrow>
      (\<exists>h'. ChangeVote T (Some r) a (Some b) h =
        (if MsgType t = Prevote \<or> MsgType t = Precommit then Some ((Some a, None), h')
         else Some ((Some a, Some ErrInvalidVote), h))))"
proof -
  obtain pk where pk: "GetPrivKey T (Some r) = Some pk" "pk \<noteq> Inr None"
    using GetPrivKey_Some assms(3) unfolding usable_def by metis
  have "\<exists>cid. GetChainID (Some r) = Some cid"
    using assms(4) by (auto simp: GetChainID_def split: option.splits info_value.splits)
  then obtain cid where cid: "GetChainID (Some r) = Some cid" by blast
  have vote: "\<exists>v. inner_vote t = Some v" if "MsgType t = Prevote \<or> MsgType t = Precommit"
    using well_typed_vote [OF assms(1) that] by blast
  have "\<exists>out. ChangeVote T (Some r) a (Some b) h = Some out"
  proof (cases pk)
    case (Inl e)
    with pk show ?thesis by (simp add: ChangeVote_def)
  next
    case (Inr key)
    with pk(2) obtain k where "key = Some k" by (cases key) auto
    with Inr pk(1) cid vote assms(2) show ?thesis
      by (cases cid; cases "MsgType t = Prevote \<or> MsgType t = Precommit")
        (auto simp: ChangeVote_def Let_def split: sum.split)
  qed
  moreover have "\<exists>h'. ChangeVote T (Some r) a (Some b) h =
        (if MsgType t = Prevote \<or> MsgType t = Precommit then Some ((Some a, None), h')
         else Some ((Some a, Some ErrInvalidVote), h))"
    if sg: "signer T r k c" "\<forall>m. \<exists>sig. key_Sign T k m = Inr sig" for k c
  proof (cases "MsgType t = Prevote \<or> MsgType t = Precommit")
    case True
    with vote obtain v where v: "inner_vote t = Some v" by blast
    obtain sig where "key_Sign T k (VoteSignBytes T c (vote_ToProto T \<lparr>vt_Type = pv_Type v,
        vt_Height = pv_Height v, vt_Round = pv_Round v, vt_BlockID = b,
        vt_Timestamp = pv_Timestamp v, vt_ValidatorAddress = pv_ValidatorAddress v,
        vt_ValidatorIndex = pv_ValidatorIndex v, vt_Signature = []\<rparr>)) = Inr sig"
      using sg(2) by blast
    with True v sg(1) assms(2) show ?thesis
      by (auto simp: ChangeVote_def signer_def Let_def)
  next
    case False
    with sg(1) assms(2) show ?thesis
      by (simp add: ChangeVote_def signer_def)
  qed
  ultimately show ?thesis by blast
qed


lemma forged_vote_fields:
  assumes "forged_vote T verify k c v b tm v'"
  shows "pv_Type v' = pv_Type v" "pv_Height v' = pv_Height v" "pv_Round v' = pv_Round v"
    "pv_BlockID v' = block_id_ToProto T b" "pv_Timestamp v' = tm"
    "pv_ValidatorAddress v' = pv_ValidatorAddress v" "pv_ValidatorIndex v' = pv_ValidatorIndex v"
    "verify k (VoteSignBytes T c v') (pv_Signature v')"
  using assms by (auto simp: forged_vote_def)

lemma well_typed_put_vote:
  assumes "well_typed t" and "MsgType t = Prevote \<or> MsgType t = Precommit"
    and "inner_vote t = Some v" and "pv_Type v' = pv_Type v"
  shows "well_typed (t\<lparr>Data := Some (Message (Some (Message_Vote (Some (Vote_msg (Some v'))))))\<rparr>)"
  using well_typed_vote [OF assms(1,2)] assms(2-4)
  by (auto simp: well_typed_def sum_type_def)

lemma ChangeVoteToNil_reads:
  assumes "signing_spec T verify" and "conversion_spec T valid"
    and "ChangeVoteToNil T (Some r) a h = Some ((res, None), h')"
    and "tmsgs h a = Some t" and "well_typed t"
  shows "\<exists>t'. tmsgs h' a = Some t' \<and> well_typed t' \<and> t' = t\<lparr>Data := Data t'\<rparr> \<and>
    GetVoteBlockID T t' = Some (Some nil_block_id) \<and> GetVoteBlockIDS T t' = Some (Some '''') \<and>
    HeightRound t' = HeightRound t \<and> GetVoteValidator t' = GetVoteValidator t \<and>
    (\<forall>q. IsVoteFrom T t' q = IsVoteFrom T t q)"
proof -
  from ChangeVote_cases [OF assms(1,2) assms(3) [unfolded ChangeVoteToNil_def]] assms(4)
  obtain v k c v' where run: "MsgType t = Prevote \<or> MsgType t = Precommit" "inner_vote t = Some v"
    "forged_vote T verify k c v nil_block_id (pv_Timestamp v) v'" "h' = put_vote a t v' h"
    by auto
  note f = forged_vote_fields [OF run(3)]
  have gv: "GetVote (Data t) = Some (Vote_msg (Some v))"
    using run(2) by (rule inner_vote_GetVote)
  have nil: "BlockIDFromProto T (block_id_ToProto T nil_block_id) = Inr nil_block_id"
    using conversion_specD(4,6) [OF assms(2)] by blast
  show ?thesis
    using run(1,2) run(4) f gv nil well_typed_put_vote [OF assms(5) run(1,2) f(1)]
      conversion_specD(8) [OF assms(2)]
    by (auto simp: GetVoteBlockID_def GetVoteBlockIDS_def GetVoteValidator_def HeightRound_def
        vote_pair_def IsVoteFrom_def nil_block_id_def)
qed

text \<open>
  C35: a vote changed to nil reads back as a vote for nil: the block is the empty block, its text
  is the empty string, and type, endpoints, height, round and validator are those of the vote
  before; the message stays well typed.
\<close>

theorem change_vote_to_nil_reads_nil:
  assumes "signing_spec T verify" and "conversion_spec T valid"
    and "ChangeVoteToNil T (Some r) a h = Some ((res, None), h')"
    and "tmsgs h a = Some t" and "well_typed t"
  shows "\<exists>t'. tmsgs h' a = Some t' \<and> well_typed t' \<and> t' = t\<lparr>Data := Data t'\<rparr> \<and>
    GetVoteBlockID T t' = Some (Some nil_block_id) \<and> GetVoteBlockIDS T t' = Some (Some '''') \<and>
    HeightRound t' = HeightRound t \<and> GetVoteValidator t' = GetVoteValidator t \<and>
    (\<forall>q. IsVoteFrom T t' q = IsVoteFrom T t q)"
  by (rule ChangeVoteToNil_reads [OF assms])

text \<open>
  Changing the time of a vote. Without an error either the message was not a vote and nothing
  was written, or it is now the same vote, for the same block, at the given time and validly
  signed.
\<close>

lemma change_vote_time_result:
  assumes "signing_spec T verify" and "conversion_spec T valid"
    and "ChangeVoteTime T (Some r) a tm h = Some ((res, err), h')"
  shows "(err \<noteq> None \<longrightarrow> h' = h) \<and>
    (err = None \<longrightarrow> res = Some a \<and>
      (\<exists>t. tmsgs h a = Some t \<and>
        (if MsgType t = Prevote \<or> MsgType t = Precommit then
           \<exists>v k c b v'. inner_vote t = Some v \<and> signer T r k c \<and>
             GetVoteBlockID T t = Some (Some b) \<and>
             forged_vote T verify k c v b tm v' \<and> h' = put_vote a t v' h
         else h' = h)))"
proof (cases "err = None")
  case False
  with assms(3) show ?thesis
    by (auto simp: ChangeVoteTime_def Let_def split: sum.splits if_splits Option.bind_splits)
next
  case True
  with assms(3) obtain k' c t where start: "GetPrivKey T (Some r) = Some (Inr k')"
    "GetChainID (Some r) = Some (Inr c)" "tmsgs h a = Some t"
    by (auto simp: ChangeVoteTime_def split: sum.splits Option.bind_splits)
  show ?thesis
  proof (cases "MsgType t = Prevote \<or> MsgType t = Precommit")
    case False
    with assms(3) True start show ?thesis by (simp add: ChangeVoteTime_def)
  next
    case vote: True
    with assms(3) True start obtain k v b sig where run: "k' = Some k" "inner_vote t = Some v"
      "BlockIDFromProto T (pv_BlockID v) = Inr b" "res = Some a"
      "key_Sign T k (VoteSignBytes T c (vote_ToProto T \<lparr>vt_Type = pv_Type v, vt_Height = pv_Height v,
        vt_Round = pv_Round v, vt_BlockID = b, vt_Timestamp = tm,
        vt_ValidatorAddress = pv_ValidatorAddress v, vt_ValidatorIndex = pv_ValidatorIndex v,
        vt_Signature = []\<rparr>)) = Inr sig"
      "h' = put_vote a t (vote_ToProto T (\<lparr>vt_Type = pv_Type v, vt_Height = pv_Height v,
        vt_Round = pv_Round v, vt_BlockID = b, vt_Timestamp = tm,
        vt_ValidatorAddress = pv_ValidatorAddress v, vt_ValidatorIndex = pv_ValidatorIndex v,
        vt_Signature = []\<rparr>\<lparr>vt_Signature := sig\<rparr>)) h"
      by (auto simp: ChangeVoteTime_def Let_def split: sum.splits if_splits Option.bind_splits)
    have "GetVoteBlockID T t = Some (Some b)"
      using vote run(2,3) by (auto simp: GetVoteBlockID_def)
    with sign_vote [OF assms(1,2) refl run(5)] vote run start True show ?thesis
      by (auto simp: signer_def)
  qed
qed

text \<open>What a forged proposal is, as for votes; \<open>pol\<close> is its proof-of-lock round.\<close>

definition forged_proposal :: "'k tendermint \<Rightarrow> ('k \<Rightarrow> bytes \<Rightarrow> bytes \<Rightarrow> bool) \<Rightarrow> 'k \<Rightarrow> string \<Rightarrow>
    proposal \<Rightarrow> block_id \<Rightarrow> 32 word \<Rightarrow> pb_proposal \<Rightarrow> bool" where
  "forged_proposal T verify k c p b pol p' \<longleftrightarrow>
     pp_Type p' = pr_Type p \<and> pp_Height p' = pr_Height p \<and> pp_Round p' = pr_Round p \<and>
     pp_PolRound p' = pol \<and> pp_BlockID p' = block_id_ToProto T b \<and>
     pp_Timestamp p' = pr_Timestamp p \<and>
     verify k (ProposalSignBytes T c p') (pp_Signature p')"

lemma sign_proposal:
  assumes "signing_spec T verify" and "conversion_spec T valid"
    and np: "np = \<lparr>pr_Type = pr_Type p, pr_Height = pr_Height p, pr_Round = pr_Round p,
      pr_POLRound = pol, pr_BlockID = b, pr_Timestamp = pr_Timestamp p, pr_Signature = []\<rparr>"
    and "key_Sign T k (ProposalSignBytes T c (proposal_ToProto T np)) = Inr sig"
  shows "forged_proposal T verify k c p b pol (proposal_ToProto T (np\<lparr>pr_Signature := sig\<rparr>))"
proof -
  note ptp = conversion_specD(2) [OF assms(2)]
  have eq: "proposal_ToProto T (np\<lparr>pr_Signature := sig\<rparr>) = (proposal_ToProto T np)\<lparr>pp_Signature := sig\<rparr>"
    by (simp add: ptp)
  have "verify k (ProposalSignBytes T c (proposal_ToProto T np)) sig"
    using signing_specD(1) [OF assms(1,4)] .
  then have "verify k (ProposalSignBytes T c (proposal_ToProto T (np\<lparr>pr_Signature := sig\<rparr>))) sig"
    using signing_specD(3) [OF assms(1)] by (simp add: eq)
  then show ?thesis
    by (simp add: forged_proposal_def ptp np)
qed

text \<open>
  C36: changing a proposal. \<open>ChangeProposalBlockID\<close> proposes the empty block with the same
  proof-of-lock round, \<open>ChangeProposalLockedValue\<close> the same block with no proof-of-lock round;
  height, round and time stay, the signature is the given replica's. With an error nothing is
  written.
\<close>

theorem change_proposal_result:
  assumes "signing_spec T verify" and "conversion_spec T valid"
    and change: "(if nil_block then ChangeProposalBlockID else ChangeProposalLockedValue) T (Some r) a h =
      Some ((res, err), h')"
  shows "(err \<noteq> None \<longrightarrow> res = None \<and> h' = h) \<and>
    (err = None \<longrightarrow> res = Some a \<and>
      (\<exists>t q p k c p'. tmsgs h a = Some t \<and> GetProposal (Data t) = Some q \<and>
        ProposalFromProto T q = Inr p \<and> signer T r k c \<and>
        (if nil_block then forged_proposal T verify k c p nil_block_id (pp_PolRound q) p'
         else forged_proposal T verify k c p (pr_BlockID p) (-1) p') \<and>
        pp_Height p' = pp_Height q \<and> pp_Round p' = pp_Round q \<and>
        pp_Timestamp p' = pp_Timestamp q \<and>
        h' = put_proposal a t p' h))"
proof (cases "err = None")
  case False
  with change show ?thesis
    by (auto simp: ChangeProposalBlockID_def ChangeProposalLockedValue_def Let_def
        split: sum.splits Option.bind_splits if_splits)
next
  case True
  let ?np = "\<lambda>p. \<lparr>pr_Type = pr_Type p, pr_Height = pr_Height p, pr_Round = pr_Round p,
      pr_POLRound = (if nil_block then pr_POLRound p else -1),
      pr_BlockID = (if nil_block then nil_block_id else pr_BlockID p),
      pr_Timestamp = pr_Timestamp p, pr_Signature = []\<rparr> :: proposal"
  from change True obtain t q p k c sig where run: "tmsgs h a = Some t" "GetProposal (Data t) = Some q"
    "ProposalFromProto T q = Inr p" "signer T r k c" "res = Some a"
    "key_Sign T k (ProposalSignBytes T c (proposal_ToProto T (?np p))) = Inr sig"
    "h' = put_proposal a t (proposal_ToProto T ((?np p)\<lparr>pr_Signature := sig\<rparr>)) h"
    by (cases nil_block; auto simp: ChangeProposalBlockID_def ChangeProposalLockedValue_def signer_def Let_def
        split: sum.splits Option.bind_splits)
  note forged = sign_proposal [OF assms(1,2) refl run(6)]
  note same = conversion_specD(3) [OF assms(2) run(3)]
  show ?thesis
    using True run(1-5,7) forged same
    by (cases nil_block) (auto simp: forged_proposal_def)
qed

section \<open>Forged votes on the wire\<close>

text \<open>
  A message as the parser makes it from a consensus channel, with endpoints that are ASCII; and
  what replaces a vote: bytes that the parser reads as the vote for nil of the same validator,
  height and round, between the same endpoints, validly signed with the replica's key.
\<close>

definition from_parser :: "tmessage \<Rightarrow> bool" where
  "from_parser t \<longleftrightarrow> well_typed t \<and> 0x20 \<le> ChannelID t \<and> ChannelID t \<le> 0x23 \<and>
     ascii (From t) \<and> ascii (To t)"

definition vote_bytes :: "'k tendermint \<Rightarrow> json \<Rightarrow> ('k \<Rightarrow> bytes \<Rightarrow> bytes \<Rightarrow> bool) \<Rightarrow> replica \<Rightarrow>
    tmessage \<Rightarrow> block_id \<Rightarrow> bytes \<Rightarrow> bool" where
  "vote_bytes T J verify r t b bs \<longleftrightarrow>
     (\<exists>t' v v' k c. (MsgType t = Prevote \<or> MsgType t = Precommit) \<and> inner_vote t = Some v \<and>
        signer T r k c \<and> Parse T J bs = Some (t', None) \<and>
        t' = t\<lparr>MsgB := MsgB t', Data := Data t'\<rparr> \<and> inner_vote t' = Some v' \<and>
        forged_vote T verify k c v b (pv_Timestamp v) v')"

lemma put_vote_on_wire:
  assumes "codec_spec T" and "json_spec J"
    and v: "MsgType t = Prevote \<or> MsgType t = Precommit" "inner_vote t = Some v" "pv_Type v' = pv_Type v"
    and "from_parser t" and "Marshal T J a (put_vote a t v' h) = Some (Inr bs, h2)"
  shows "\<exists>t'. Parse T J bs = Some (t', None) \<and> t' = t\<lparr>MsgB := MsgB t', Data := Data t'\<rparr> \<and>
    inner_vote t' = Some v'"
proof -
  let ?h1 = "put_vote a t v' h"
  let ?t1 = "t\<lparr>Data := Some (Message (Some (Message_Vote (Some (Vote_msg (Some v'))))))\<rparr>"
  have t1: "tmsgs ?h1 a = Some ?t1" "well_typed ?t1"
    using v assms(6) well_typed_put_vote [of t v v'] by (auto simp: from_parser_def)
  have "\<exists>t'. Parse T J bs = Some (t', None) \<and> tmsgs h2 a = Some t' \<and>
      t' = ?t1\<lparr>MsgB := MsgB t'\<rparr> \<and> (\<forall>b. b \<noteq> a \<longrightarrow> tmsgs h2 b = tmsgs ?h1 b)"
    by (rule Marshal_Parse [OF assms(1,2) t1]) (use assms(6,7) in \<open>auto simp: from_parser_def\<close>)
  then obtain t' where t': "Parse T J bs = Some (t', None)" "t' = ?t1\<lparr>MsgB := MsgB t'\<rparr>"
    by blast
  then have "inner_vote t' = Some v'"
    by (metis inner_vote_def put_vote_simps(3) tmessage.select_convs(6) tmessage.surjective
        tmessage.update_convs(2))
  moreover have "t' = t\<lparr>MsgB := MsgB t', Data := Data t'\<rparr>"
    using t'(2) by (metis (no_types, lifting) tmessage.surjective tmessage.update_convs(2,6)
        tmessage.select_convs(6))
  ultimately show ?thesis using t'(1) by blast
qed

lemma forged_vote_on_wire:
  assumes "signing_spec T verify" and "conversion_spec T valid" and "codec_spec T" and "json_spec J"
    and change: "ChangeVote T (Some r) a (Some b) h = Some ((res, None), h1)"
    and "res = Some a'" and "Marshal T J a' h1 = Some (Inr bs, h2)"
    and t: "tmsgs h a = Some t" "from_parser t"
  shows "vote_bytes T J verify r t b bs"
proof -
  from ChangeVote_cases [OF assms(1,2) change] assms(6) t(1) obtain v k c v' where
    run: "MsgType t = Prevote \<or> MsgType t = Precommit" "inner_vote t = Some v" "signer T r k c"
      "forged_vote T verify k c v b (pv_Timestamp v) v'" "h1 = put_vote a t v' h" "a' = a"
    by auto
  from assms(7) have mar: "Marshal T J a (put_vote a t v' h) = Some (Inr bs, h2)"
    by (simp only: run(5,6))
  from put_vote_on_wire [OF assms(3,4) run(1,2) forged_vote_fields(1) [OF run(4)] t(2) mar]
  obtain t' where "Parse T J bs = Some (t', None)" "t' = t\<lparr>MsgB := MsgB t', Data := Data t'\<rparr>"
    "inner_vote t' = Some v'"
    by blast
  with run(1-4) show ?thesis
    unfolding vote_bytes_def by blast
qed

text \<open>The block such bytes carry, as the accessors read it.\<close>

lemma vote_bytes_block:
  assumes "conversion_spec T valid" and "valid b" and "vote_bytes T J verify r t b bs"
  shows "\<exists>t'. Parse T J bs = Some (t', None) \<and> GetVoteBlockID T t' = Some (Some b) \<and>
    MsgType t' = MsgType t \<and> From t' = From t \<and> To t' = To t"
proof -
  from assms(3) obtain t' v v' k c where w: "MsgType t = Prevote \<or> MsgType t = Precommit"
    "Parse T J bs = Some (t', None)" "t' = t\<lparr>MsgB := MsgB t', Data := Data t'\<rparr>"
    "inner_vote t' = Some v'" "forged_vote T verify k c v b (pv_Timestamp v) v'"
    by (auto simp: vote_bytes_def)
  from w(3) have same: "MsgType t' = MsgType t" "From t' = From t" "To t' = To t"
    by (metis tmessage.ext_inject tmessage.surjective tmessage.update_convs(2,6))+
  have "BlockIDFromProto T (pv_BlockID v') = Inr b"
    using forged_vote_fields(4) [OF w(5)] conversion_specD(4) [OF assms(1,2)] by simp
  with w(1,2,4) same show ?thesis
    by (auto simp: GetVoteBlockID_def)
qed

text \<open>
  Forging a vote and encoding it, the two calls every filter that replaces votes makes in a row:
  the bytes, or nothing when either call reports an error.
\<close>

definition forge_vote :: "'k tendermint \<Rightarrow> json \<Rightarrow> replica \<Rightarrow> addr \<Rightarrow> block_id \<Rightarrow> 'a heap_scheme \<Rightarrow>
    (bytes option \<times> 'a heap_scheme) option" where
  "forge_vote T J r a b h = do {
     ((newVote, err), h1) \<leftarrow> ChangeVote T (Some r) a (Some b) h;
     (if err \<noteq> None then Some (None, h1)
      else do {
        a' \<leftarrow> newVote;
        (out, h2) \<leftarrow> Marshal T J a' h1;
        Some (case out of Inl _ \<Rightarrow> None | Inr bs \<Rightarrow> Some bs, h2) }) }"

lemma Marshal_total: "tmsgs h a = Some t \<Longrightarrow> \<exists>res h'. Marshal T J a h = Some (res, h')"
  by (cases "proto_Marshal T (Data t)") (auto simp: Marshal_def Let_def)

lemma forge_vote_bytes:
  assumes "signing_spec T verify" and "conversion_spec T valid" and "codec_spec T" and "json_spec J"
    and "forge_vote T J r a b h = Some (Some bs, h')" and "tmsgs h a = Some t" and "from_parser t"
  shows "vote_bytes T J verify r t b bs"
proof -
  obtain res err h1 where cv: "ChangeVote T (Some r) a (Some b) h = Some ((res, err), h1)"
    using assms(5) by (auto simp: forge_vote_def Option.bind_eq_Some_conv)
  with assms(5) have "err = None" by (cases err) (simp_all add: forge_vote_def)
  with assms(5) cv obtain a' out h2 where mar: "res = Some a'" "Marshal T J a' h1 = Some (out, h2)"
    by (auto simp: forge_vote_def Option.bind_eq_Some_conv)
  with assms(5) cv \<open>err = None\<close> have "out = Inr bs" by (cases out) (simp_all add: forge_vote_def)
  with forged_vote_on_wire [OF assms(1-4) _ mar(1) _ assms(6,7)] cv mar(2) \<open>err = None\<close>
  show ?thesis by simp
qed

lemma forge_vote_returns:
  assumes "signing_spec T verify" and "conversion_spec T valid" and "tmsgs h a = Some t"
    and "well_typed t" and "usable T r" and "Info r ''chain_id'' \<noteq> Some InfoOther"
  obtains out h' where "forge_vote T J r a b h = Some (out, h')"
proof -
  obtain res err h1 where cv: "ChangeVote T (Some r) a (Some b) h = Some ((res, err), h1)"
    using ChangeVote_returns [OF assms(4,3,5,6), of b] by fastforce
  show ?thesis
  proof (cases err)
    case (Some x)
    with cv show ?thesis by (intro that) (simp add: forge_vote_def)
  next
    case None
    from ChangeVote_cases [OF assms(1,2) cv] None assms(3)
    obtain t1 where t1: "res = Some a" "tmsgs h1 a = Some t1"
      by (auto simp: put_vote_def put_tmsg_def)
    obtain out h2 where "Marshal T J a h1 = Some (out, h2)"
      using Marshal_total [OF t1(2)] by blast
    with cv None t1(1) show ?thesis by (intro that) (simp add: forge_vote_def)
  qed
qed

end
