(* ===== verification/Worlds.thy ===== *)
theory Worlds
  imports Partitions Messages
begin

text \<open>
  What the test cases run in. The scheduler library (\<open>github.com/ds-test-framework/scheduler\<close>,
  v1.9.4, not under \<open>src/\<close>) calls handlers and conditions with an event and a
  \<open>testlib.Context\<close>. Its operations are the fields of the parameter record \<open>testlib\<close>, over an
  opaque event type \<open>'e\<close> and an opaque context type \<open>'c\<close>; \<open>testlib_spec\<close> states what is
  documented of them, as a simulation: through an observation \<open>\<alpha>\<close> of the context, each
  operation reads or updates the variables, replicas and message stores one would expect.

  The objects of this repository that are shared through pointers (parsed messages, counters,
  maps) live in the heaps of the record \<open>world\<close>, beside the context. The logger is left out; its
  arguments are kept where evaluating them can panic.
\<close>

section \<open>Objects\<close>

text \<open>
  \<open>types.Message\<close>: the fields the code reads. \<open>ParsedMessage\<close> is an interface: nil, a
  \<open>*TMessage\<close>, or another implementation.
\<close>

datatype parsed_message = ParsedTMessage addr | ParsedOther

record message =
  msg_ID :: string
  msg_From :: string
  msg_To :: string
  ParsedMessage :: "parsed_message option"

text \<open>\<open>testCaseOneVoteCount\<close> of \<open>testcases/sanity/one.go\<close>.\<close>

record testCaseOneVoteCount =
  recorded :: "(string, (string, bool) gomap) gomap"
  delivered :: "(string, (string, int) gomap) gomap"

text \<open>
  The values the code stores in \<open>Vars\<close>, as dynamic types. Maps, counters and vote counts are
  references into the heaps; a message store and a counter of the library are the library's.
\<close>

datatype var_value =
    VInt int
  | VString string
  | VBool bool
  | VTime time
  | VStrings "string list"
  | VMessage message
  | VBlockID "block_id option"
  | VReplica "replica option"
  | VPartition "partition option"
  | VIntMap addr
  | VReplicaCounter addr
  | VVoteCounts addr
  | VMessageStore addr
  | VCounter int

record 'c world = heap +
  int_maps :: "addr \<Rightarrow> (string, int) gomap option"
  replica_counters :: "addr \<Rightarrow> (string, int) gomap option"
  vote_maps :: "addr \<Rightarrow> (int, addr) gomap option"
  vote_counts :: "addr \<Rightarrow> testCaseOneVoteCount option"
  ctx :: 'c

section \<open>The scheduler library, as parameters\<close>

text \<open>\<open>e.Type.(*types.GenericEventType)\<close>, with its \<open>T\<close> and \<open>Params\<close>.\<close>

datatype event_type = GenericEventType string "string \<Rightarrow> string option" | OtherEventType

text \<open>
  A counter kept in \<open>Vars\<close> is used through \<open>GetCounter(label)\<close>, which gives nil when the label
  does not hold one, so \<open>Value\<close> and \<open>Incr\<close> then panic.
\<close>

record ('e, 'c) testlib =
  IsMessageSend :: "'e \<Rightarrow> bool"
  IsMessageReceive :: "'e \<Rightarrow> bool"
  MessageID :: "'e \<Rightarrow> string"
  event_Type :: "'e \<Rightarrow> event_type"
  GetMessage :: "'c \<Rightarrow> 'e \<Rightarrow> message option"
  MessagePool_Get :: "'c \<Rightarrow> string \<Rightarrow> message option"
  NewMessage :: "'c \<Rightarrow> message \<Rightarrow> bytes \<Rightarrow> message \<times> 'c"
  Vars_Get :: "'c \<Rightarrow> string \<Rightarrow> var_value option"
  Vars_Set :: "'c \<Rightarrow> string \<Rightarrow> var_value \<Rightarrow> 'c"
  Vars_Exists :: "'c \<Rightarrow> string \<Rightarrow> bool"
  Vars_GetInt :: "'c \<Rightarrow> string \<Rightarrow> int option"
  Vars_GetString :: "'c \<Rightarrow> string \<Rightarrow> string option"
  Vars_GetBool :: "'c \<Rightarrow> string \<Rightarrow> bool option"
  Vars_SetCounter :: "'c \<Rightarrow> string \<Rightarrow> 'c"
  Counter_Value :: "'c \<Rightarrow> string \<Rightarrow> int option"
  Counter_Incr :: "'c \<Rightarrow> string \<Rightarrow> 'c option"
  Replicas_Cap :: "'c \<Rightarrow> int"
  Replicas_Iter :: "'c \<Rightarrow> replica list"
  Replicas_Get :: "'c \<Rightarrow> string \<Rightarrow> replica option"
  NewMessageStore :: "'c \<Rightarrow> addr \<times> 'c"
  Store_Add :: "'c \<Rightarrow> addr \<Rightarrow> message \<Rightarrow> 'c"
  Store_Remove :: "'c \<Rightarrow> addr \<Rightarrow> string \<Rightarrow> 'c"
  Store_Size :: "'c \<Rightarrow> addr \<Rightarrow> int"
  Store_Iter :: "'c \<Rightarrow> addr \<Rightarrow> message list"
  Abort :: "'c \<Rightarrow> 'c"
  EndTestCase :: "'c \<Rightarrow> 'c"

text \<open>
  Handlers and conditions, with the world threaded through; \<^term>\<open>None\<close> is a panic. The messages a
  handler returns are pointers, so an entry of the slice may be nil.
\<close>

type_synonym ('e, 'c) handler =
  "'e \<Rightarrow> 'c world \<Rightarrow> ((message option list \<times> bool) \<times> 'c world) option"
type_synonym ('e, 'c) condition =
  "'e \<Rightarrow> 'c world \<Rightarrow> (bool \<times> 'c world) option"

section \<open>What the library documents\<close>

text \<open>The observable part of a context.\<close>

record 'e lib_state =
  lvars :: "string \<Rightarrow> var_value option"
  lmessage :: "'e \<Rightarrow> message option"
  lpool :: "string \<Rightarrow> message option"
  lreplicas :: "replica list"
  lcap :: int
  lstores :: "addr \<Rightarrow> message list option"
  laborted :: bool
  lended :: bool

text \<open>
  A message store is keyed by message id. In which order \<open>Iter\<close> lists it is not said, so a store
  is observed as the list \<open>Iter\<close> would return, and adding or removing fixes its elements only.
\<close>

definition store_added :: "message \<Rightarrow> message list \<Rightarrow> message list \<Rightarrow> bool" where
  "store_added m ms ms' \<longleftrightarrow>
     distinct (map msg_ID ms') \<and> set ms' = {x \<in> set ms. msg_ID x \<noteq> msg_ID m} \<union> {m}"

definition store_removed :: "string \<Rightarrow> message list \<Rightarrow> message list \<Rightarrow> bool" where
  "store_removed i ms ms' \<longleftrightarrow>
     distinct (map msg_ID ms') \<and> set ms' = {x \<in> set ms. msg_ID x \<noteq> i}"

definition vars_spec :: "('e, 'c) testlib \<Rightarrow> ('c \<Rightarrow> 'e lib_state) \<Rightarrow> bool" where
  "vars_spec L \<alpha> \<longleftrightarrow>
     (\<forall>c k. Vars_Get L c k = lvars (\<alpha> c) k) \<and>
     (\<forall>c k. Vars_Exists L c k = (lvars (\<alpha> c) k \<noteq> None)) \<and>
     (\<forall>c k. Vars_GetInt L c k = (case lvars (\<alpha> c) k of Some (VInt i) \<Rightarrow> Some i | _ \<Rightarrow> None)) \<and>
     (\<forall>c k. Vars_GetString L c k = (case lvars (\<alpha> c) k of Some (VString s) \<Rightarrow> Some s | _ \<Rightarrow> None)) \<and>
     (\<forall>c k. Vars_GetBool L c k = (case lvars (\<alpha> c) k of Some (VBool b) \<Rightarrow> Some b | _ \<Rightarrow> None)) \<and>
     (\<forall>c k. Counter_Value L c k = (case lvars (\<alpha> c) k of Some (VCounter i) \<Rightarrow> Some i | _ \<Rightarrow> None)) \<and>
     (\<forall>c k v. \<alpha> (Vars_Set L c k v) = (\<alpha> c)\<lparr>lvars := (lvars (\<alpha> c))(k \<mapsto> v)\<rparr>) \<and>
     (\<forall>c k. \<alpha> (Vars_SetCounter L c k) = (\<alpha> c)\<lparr>lvars := (lvars (\<alpha> c))(k \<mapsto> VCounter 0)\<rparr>) \<and>
     (\<forall>c k. map_option \<alpha> (Counter_Incr L c k) =
        (case lvars (\<alpha> c) k of
           Some (VCounter i) \<Rightarrow> Some ((\<alpha> c)\<lparr>lvars := (lvars (\<alpha> c))(k \<mapsto> VCounter (i + 1))\<rparr>)
         | _ \<Rightarrow> None))"

definition context_spec :: "('e, 'c) testlib \<Rightarrow> ('c \<Rightarrow> 'e lib_state) \<Rightarrow> bool" where
  "context_spec L \<alpha> \<longleftrightarrow>
     (\<forall>c e. GetMessage L c e = lmessage (\<alpha> c) e) \<and>
     (\<forall>c i. MessagePool_Get L c i = lpool (\<alpha> c) i) \<and>
     (\<forall>c. Replicas_Cap L c = lcap (\<alpha> c)) \<and>
     (\<forall>c. Replicas_Iter L c = lreplicas (\<alpha> c)) \<and>
     (\<forall>c i. Replicas_Get L c i = find (\<lambda>r. ID r = i) (lreplicas (\<alpha> c))) \<and>
     (\<forall>c m d. \<exists>p. \<alpha> (snd (NewMessage L c m d)) = (\<alpha> c)\<lparr>lpool := p\<rparr>) \<and>
     (\<forall>c. \<alpha> (Abort L c) = (\<alpha> c)\<lparr>laborted := True\<rparr>) \<and>
     (\<forall>c. \<alpha> (EndTestCase L c) = (\<alpha> c)\<lparr>lended := True\<rparr>)"

definition stores_spec :: "('e, 'c) testlib \<Rightarrow> ('c \<Rightarrow> 'e lib_state) \<Rightarrow> bool" where
  "stores_spec L \<alpha> \<longleftrightarrow>
     (\<forall>c. lstores (\<alpha> c) (fst (NewMessageStore L c)) = None \<and>
        \<alpha> (snd (NewMessageStore L c)) =
          (\<alpha> c)\<lparr>lstores := (lstores (\<alpha> c))(fst (NewMessageStore L c) \<mapsto> [])\<rparr>) \<and>
     (\<forall>c s ms. lstores (\<alpha> c) s = Some ms \<longrightarrow>
        Store_Size L c s = int (length ms) \<and> Store_Iter L c s = ms) \<and>
     (\<forall>c s ms m. lstores (\<alpha> c) s = Some ms \<longrightarrow>
        (\<exists>ms'. store_added m ms ms' \<and>
          \<alpha> (Store_Add L c s m) = (\<alpha> c)\<lparr>lstores := (lstores (\<alpha> c))(s \<mapsto> ms')\<rparr>)) \<and>
     (\<forall>c s ms i. lstores (\<alpha> c) s = Some ms \<longrightarrow>
        (\<exists>ms'. store_removed i ms ms' \<and>
          \<alpha> (Store_Remove L c s i) = (\<alpha> c)\<lparr>lstores := (lstores (\<alpha> c))(s \<mapsto> ms')\<rparr>)) \<and>
     (\<forall>c s m. \<exists>st. \<alpha> (Store_Add L c s m) = (\<alpha> c)\<lparr>lstores := st\<rparr>) \<and>
     (\<forall>c s i. \<exists>st. \<alpha> (Store_Remove L c s i) = (\<alpha> c)\<lparr>lstores := st\<rparr>)"

definition testlib_spec :: "('e, 'c) testlib \<Rightarrow> ('c \<Rightarrow> 'e lib_state) \<Rightarrow> bool" where
  "testlib_spec L \<alpha> \<longleftrightarrow> vars_spec L \<alpha> \<and> context_spec L \<alpha> \<and> stores_spec L \<alpha>"

lemma vars_specD:
  assumes "testlib_spec L \<alpha>"
  shows "Vars_Get L c k = lvars (\<alpha> c) k"
    and "Vars_Exists L c k = (lvars (\<alpha> c) k \<noteq> None)"
    and "Vars_GetInt L c k = (case lvars (\<alpha> c) k of Some (VInt i) \<Rightarrow> Some i | _ \<Rightarrow> None)"
    and "Vars_GetString L c k = (case lvars (\<alpha> c) k of Some (VString s) \<Rightarrow> Some s | _ \<Rightarrow> None)"
    and "Vars_GetBool L c k = (case lvars (\<alpha> c) k of Some (VBool b) \<Rightarrow> Some b | _ \<Rightarrow> None)"
    and "Counter_Value L c k = (case lvars (\<alpha> c) k of Some (VCounter i) \<Rightarrow> Some i | _ \<Rightarrow> None)"
    and "\<alpha> (Vars_Set L c k v) = (\<alpha> c)\<lparr>lvars := (lvars (\<alpha> c))(k \<mapsto> v)\<rparr>"
    and "\<alpha> (Vars_SetCounter L c k) = (\<alpha> c)\<lparr>lvars := (lvars (\<alpha> c))(k \<mapsto> VCounter 0)\<rparr>"
    and "map_option \<alpha> (Counter_Incr L c k) =
        (case lvars (\<alpha> c) k of
           Some (VCounter i) \<Rightarrow> Some ((\<alpha> c)\<lparr>lvars := (lvars (\<alpha> c))(k \<mapsto> VCounter (i + 1))\<rparr>)
         | _ \<Rightarrow> None)"
  using assms unfolding testlib_spec_def vars_spec_def by blast+

lemma context_specD:
  assumes "testlib_spec L \<alpha>"
  shows "GetMessage L c e = lmessage (\<alpha> c) e"
    and "MessagePool_Get L c i = lpool (\<alpha> c) i"
    and "Replicas_Cap L c = lcap (\<alpha> c)"
    and "Replicas_Iter L c = lreplicas (\<alpha> c)"
    and "Replicas_Get L c i = find (\<lambda>r. ID r = i) (lreplicas (\<alpha> c))"
    and "\<exists>p. \<alpha> (snd (NewMessage L c m d)) = (\<alpha> c)\<lparr>lpool := p\<rparr>"
    and "\<alpha> (Abort L c) = (\<alpha> c)\<lparr>laborted := True\<rparr>"
    and "\<alpha> (EndTestCase L c) = (\<alpha> c)\<lparr>lended := True\<rparr>"
  using assms unfolding testlib_spec_def context_spec_def by blast+

lemma stores_specD:
  assumes "testlib_spec L \<alpha>"
  shows "lstores (\<alpha> c) (fst (NewMessageStore L c)) = None"
    and "\<alpha> (snd (NewMessageStore L c)) =
      (\<alpha> c)\<lparr>lstores := (lstores (\<alpha> c))(fst (NewMessageStore L c) \<mapsto> [])\<rparr>"
    and "lstores (\<alpha> c) s = Some ms \<Longrightarrow> Store_Size L c s = int (length ms)"
    and "lstores (\<alpha> c) s = Some ms \<Longrightarrow> Store_Iter L c s = ms"
    and "lstores (\<alpha> c) s = Some ms \<Longrightarrow> \<exists>ms'. store_added m ms ms' \<and>
      \<alpha> (Store_Add L c s m) = (\<alpha> c)\<lparr>lstores := (lstores (\<alpha> c))(s \<mapsto> ms')\<rparr>"
    and "lstores (\<alpha> c) s = Some ms \<Longrightarrow> \<exists>ms'. store_removed i ms ms' \<and>
      \<alpha> (Store_Remove L c s i) = (\<alpha> c)\<lparr>lstores := (lstores (\<alpha> c))(s \<mapsto> ms')\<rparr>"
    and "\<exists>st. \<alpha> (Store_Add L c s m) = (\<alpha> c)\<lparr>lstores := st\<rparr>"
    and "\<exists>st. \<alpha> (Store_Remove L c s i) = (\<alpha> c)\<lparr>lstores := st\<rparr>"
  using assms unfolding testlib_spec_def stores_spec_def by blast+

lemma Counter_Incr_Some:
  assumes "testlib_spec L \<alpha>" and "lvars (\<alpha> c) k = Some (VCounter i)"
  obtains c' where "Counter_Incr L c k = Some c'"
    and "\<alpha> c' = (\<alpha> c)\<lparr>lvars := (lvars (\<alpha> c))(k \<mapsto> VCounter (i + 1))\<rparr>"
  using vars_specD(9) [OF assms(1), of c k] assms(2) by (auto simp: map_option_eq_Some)

section \<open>Helpers of the code\<close>

definition set_var :: "('e, 'c) testlib \<Rightarrow> string \<Rightarrow> var_value \<Rightarrow> 'c world \<Rightarrow> 'c world" where
  "set_var L k v w = w\<lparr>ctx := Vars_Set L (ctx w) k v\<rparr>"

definition abort_test :: "('e, 'c) testlib \<Rightarrow> 'c world \<Rightarrow> 'c world" where
  "abort_test L w = w\<lparr>ctx := Abort L (ctx w)\<rparr>"

definition end_test :: "('e, 'c) testlib \<Rightarrow> 'c world \<Rightarrow> 'c world" where
  "end_test L w = w\<lparr>ctx := EndTestCase L (ctx w)\<rparr>"

text \<open>\<open>util.GetParsedMessage\<close> and \<open>util.GetMessageFromEvent\<close>.\<close>

definition GetParsedMessage :: "message option \<Rightarrow> addr option" where
  "GetParsedMessage m =
     (case m of
        None \<Rightarrow> None
      | Some m' \<Rightarrow> (case ParsedMessage m' of Some (ParsedTMessage a) \<Rightarrow> Some a | _ \<Rightarrow> None))"

definition GetMessageFromEvent :: "('e, 'c) testlib \<Rightarrow> 'e \<Rightarrow> 'c world \<Rightarrow> addr option" where
  "GetMessageFromEvent L e w =
     (case GetMessage L (ctx w) e of None \<Rightarrow> None | Some m \<Rightarrow> GetParsedMessage (Some m))"

lemma GetMessageFromEvent_eq: "GetMessageFromEvent L e w = GetParsedMessage (GetMessage L (ctx w) e)"
  by (simp add: GetMessageFromEvent_def GetParsedMessage_def split: option.splits)

text \<open>The message of an event and its parsed form, as every filter reads them.\<close>

definition message_of :: "('e, 'c) testlib \<Rightarrow> 'e \<Rightarrow> 'c world \<Rightarrow> (message \<times> addr) option" where
  "message_of L e w =
     (case GetMessage L (ctx w) e of
        None \<Rightarrow> None
      | Some m \<Rightarrow> (case GetParsedMessage (Some m) of None \<Rightarrow> None | Some a \<Rightarrow> Some (m, a)))"

text \<open>\<open>GetString\<close> without its comma-ok gives the empty string.\<close>

definition string_var :: "('e, 'c) testlib \<Rightarrow> string \<Rightarrow> 'c world \<Rightarrow> string" where
  "string_var L key w = (case Vars_GetString L (ctx w) key of Some s \<Rightarrow> s | None \<Rightarrow> '''')"

text \<open>The library's counterpart of a partial write: the heap of parsed messages only.\<close>

lemma put_tmsg_world [simp]:
  "ctx (put_tmsg a t w) = ctx w" "int_maps (put_tmsg a t w) = int_maps w"
  "replica_counters (put_tmsg a t w) = replica_counters w"
  "vote_maps (put_tmsg a t w) = vote_maps w" "vote_counts (put_tmsg a t w) = vote_counts w"
  by (simp_all add: put_tmsg_def)

lemma put_vote_world [simp]:
  "ctx (put_vote a t v w) = ctx w" "int_maps (put_vote a t v w) = int_maps w"
  "replica_counters (put_vote a t v w) = replica_counters w"
  "vote_maps (put_vote a t v w) = vote_maps w" "vote_counts (put_vote a t v w) = vote_counts w"
  by (simp_all add: put_vote_def)

lemma set_var_world [simp]:
  "tmsgs (set_var L k v w) = tmsgs w" "int_maps (set_var L k v w) = int_maps w"
  "replica_counters (set_var L k v w) = replica_counters w"
  "vote_maps (set_var L k v w) = vote_maps w" "vote_counts (set_var L k v w) = vote_counts w"
  "next_addr (set_var L k v w) = next_addr w"
  by (simp_all add: set_var_def)

lemma set_var_ctx [simp]: "ctx (set_var L k v w) = Vars_Set L (ctx w) k v"
  by (simp add: set_var_def)

lemma end_of_test_world [simp]:
  "tmsgs (abort_test L w) = tmsgs w" "tmsgs (end_test L w) = tmsgs w"
  "ctx (abort_test L w) = Abort L (ctx w)" "ctx (end_test L w) = EndTestCase L (ctx w)"
  by (simp_all add: abort_test_def end_test_def)

section \<open>Events with messages\<close>

text \<open>
  The event \<open>e\<close> is about the scheduler's message \<open>m\<close>, whose parsed form is the object at \<open>a\<close>, a
  message \<open>t\<close> that came from the parser.
\<close>

definition carries :: "('e, 'c) testlib \<Rightarrow> 'c world \<Rightarrow> 'e \<Rightarrow> message \<Rightarrow> addr \<Rightarrow> tmessage \<Rightarrow> bool" where
  "carries L w e m a t \<longleftrightarrow> GetMessage L (ctx w) e = Some m \<and> GetParsedMessage (Some m) = Some a \<and>
     tmsgs w a = Some t \<and> well_typed t"

lemma carriesD:
  assumes "carries L w e m a t"
  shows "GetMessage L (ctx w) e = Some m" and "GetParsedMessage (Some m) = Some a"
    and "GetMessageFromEvent L e w = Some a" and "tmsgs w a = Some t" and "well_typed t"
  using assms by (simp_all add: carries_def GetMessageFromEvent_eq)

lemma carries_message_of: "carries L w e m a t \<Longrightarrow> message_of L e w = Some (m, a)"
  by (simp add: carries_def message_of_def)

lemma carries_HeightRound: "carries L w e m a t \<Longrightarrow> \<exists>h r. HeightRound t = Some (h, r)"
  by (auto dest: carriesD(5) well_typed_HeightRound)

lemma carries_keep:
  assumes "testlib_spec L \<alpha>" and "lmessage (\<alpha> (ctx w')) = lmessage (\<alpha> (ctx w))" and "tmsgs w' = tmsgs w"
  shows "carries L w' e m a t = carries L w e m a t"
  using assms by (simp add: carries_def context_specD)

section \<open>Replacing a vote\<close>

text \<open>
  What a filter answers when it forges the vote at \<open>a\<close> with the key of \<open>r\<close> for the block \<open>b\<close>: a
  new message with the forged bytes, which the parser reads as that vote, or nothing when signing
  or encoding reports an error.
\<close>

definition replaced :: "'k tendermint \<Rightarrow> json \<Rightarrow> ('e, 'c) testlib \<Rightarrow> ('k \<Rightarrow> bytes \<Rightarrow> bytes \<Rightarrow> bool) \<Rightarrow>
    message \<Rightarrow> addr \<Rightarrow> tmessage \<Rightarrow> replica \<Rightarrow> block_id \<Rightarrow> 'c world \<Rightarrow> message option list \<times> bool \<Rightarrow> bool" where
  "replaced T J L verify m a t r b w out \<longleftrightarrow>
     (\<exists>forged w1. forge_vote T J r a b w = Some (forged, w1) \<and>
       (case forged of
          None \<Rightarrow> out = ([], False)
        | Some bs \<Rightarrow> out = ([Some (fst (NewMessage L (ctx w1) m bs))], True) \<and> vote_bytes T J verify r t b bs))"

lemma send_forged:
  assumes "signing_spec T verify" and "conversion_spec T valid" and "codec_spec T" and "json_spec J"
    and "tmsgs w a = Some t" and "from_parser t" and "usable T r" and "Info r ''chain_id'' \<noteq> Some InfoOther"
  shows "\<exists>out w'. Option.bind (ChangeVote T (Some r) a (Some b) w) (\<lambda>((newVote, err), w1).
      if err \<noteq> None then Some (([], False), w1)
      else do {
        a' \<leftarrow> newVote;
        (msgB, w2) \<leftarrow> Marshal T J a' w1;
        (case msgB of
          Inl _ \<Rightarrow> Some (([], False), w2)
        | Inr bs \<Rightarrow>
            (case NewMessage L (ctx w2) m bs of (m', c) \<Rightarrow>
               Some (([Some m'], True), w2\<lparr>ctx := c\<rparr>))) }) = Some (out, w') \<and>
    replaced T J L verify m a t r b w out"
proof -
  have "well_typed t" using assms(6) by (simp add: from_parser_def)
  then obtain forged w1 where f: "forge_vote T J r a b w = Some (forged, w1)"
    using forge_vote_returns [OF assms(1,2,5) _ assms(7,8)] by blast
  have bytes: "vote_bytes T J verify r t b bs" if "forged = Some bs" for bs
    using forge_vote_bytes [OF assms(1-4) _ assms(5,6)] f that by blast
  obtain res err wc where cv: "ChangeVote T (Some r) a (Some b) w = Some ((res, err), wc)"
    using f by (auto simp: forge_vote_def Option.bind_eq_Some_conv)
  show ?thesis
  proof (cases err)
    case (Some x)
    then show ?thesis using cv f by (simp add: replaced_def forge_vote_def)
  next
    case None
    with f cv obtain a' out w2 where mar: "res = Some a'" "Marshal T J a' wc = Some (out, w2)"
      by (auto simp: forge_vote_def Option.bind_eq_Some_conv)
    show ?thesis
      using cv f None mar bytes
      by (cases out) (auto simp: replaced_def forge_vote_def split: prod.split)
  qed
qed

end
