(* ===== verification/Tracking.thy ===== *)
theory Tracking
  imports Worlds
begin

text \<open>
  Two contracts that several test cases share, as locales, and the code that provides the first
  of them. \<open>round_tracker\<close>: the map from replicas to the highest round seen of them, which the
  conditions "all replicas reached round r" maintain. \<open>quota\<close>: a count per recipient that lets
  a limited number of votes through, behind the filters that delay or drop votes.
\<close>

section \<open>Highest round seen, per replica\<close>

locale round_tracker =
  fixes track :: "'i \<Rightarrow> int \<Rightarrow> 'm \<Rightarrow> 'm"
    and round_of :: "'m \<Rightarrow> 'i \<Rightarrow> int option"
  assumes track_same: "round_of (track i r m) i =
      Some (case round_of m i of None \<Rightarrow> r | Some q \<Rightarrow> max q r)"
    and track_other: "j \<noteq> i \<Longrightarrow> round_of (track i r m) j = round_of m j"
begin

lemma track_mono: "round_of m j = Some q \<Longrightarrow> \<exists>q' \<ge> q. round_of (track i r m) j = Some q'"
  by (cases "j = i") (auto simp: track_same track_other)

lemma tracked_rounds:
  "round_of (fold (\<lambda>(i, r). track i r) obs m) j =
    (case round_of m j of
       None \<Rightarrow> (if \<exists>r. (j, r) \<in> set obs then Some (Max {r. (j, r) \<in> set obs}) else None)
     | Some q \<Rightarrow> Some (Max (insert q {r. (j, r) \<in> set obs})))"
proof (induction obs arbitrary: m)
  case Nil
  then show ?case by (simp split: option.splits)
next
  case (Cons o1 obs)
  obtain i r where o1: "o1 = (i, r)" by fastforce
  have fin: "finite {q. (j, q) \<in> set obs}"
    by (rule finite_subset [of _ "snd ` set obs"]) force+
  show ?case
  proof (cases "j = i")
    case True
    let ?R = "{q. (j, q) \<in> set obs}"
    from True have o1: "o1 = (j, r)" using o1 by simp
    have ex: "(\<exists>q. (j, q) \<in> set obs) \<longleftrightarrow> ?R \<noteq> {}" by blast
    have maxs: "Max (insert q (insert r ?R)) = Max (insert (max q r) ?R)" for q
      using fin by (cases "?R = {}") (simp_all add: max.assoc)
    have "{q. (j, q) \<in> set (o1 # obs)} = insert r ?R"
      using o1 by auto
    then show ?thesis
      using maxs by (cases "round_of m j") (auto simp: Cons.IH o1 track_same)
  next
    case False
    then show ?thesis
      by (cases "round_of m j") (simp_all add: Cons.IH o1 track_other)
  qed
qed

end

text \<open>
  The update the code performs, once per observed message: on a missing entry \<open>cRound\<close> is the
  zero value, and the second test may write the entry again.
\<close>

definition track_round :: "string \<Rightarrow> int \<Rightarrow> (string, int) gomap \<Rightarrow> (string, int) gomap" where
  "track_round from r m =
     (let cRound = (case map_of m from of None \<Rightarrow> 0 | Some q \<Rightarrow> q);
          m1 = (if map_of m from = None then AList.update from r m else m)
      in if cRound < r then AList.update from r m1 else m1)"

interpretation rounds: round_tracker track_round map_of
  by unfold_locales (auto simp: track_round_def Let_def split: option.splits)

lemma track_round_keys:
  "distinct (map fst m) \<Longrightarrow> distinct (map fst (track_round from r m))"
  by (simp add: track_round_def Let_def)

lemma map_of_track_round:
  "map_of (track_round from r m) =
    (map_of m)(from \<mapsto> (case map_of m from of None \<Rightarrow> r | Some q \<Rightarrow> max q r))"
  using rounds.track_same rounds.track_other by fastforce

text \<open>How many replicas have been seen at a round or beyond: the second loop of the conditions.\<close>

definition count_reached :: "int \<Rightarrow> (string, int) gomap \<Rightarrow> int" where
  "count_reached toRound m = int (length (filter (\<lambda>(k, r). toRound \<le> r) m))"

lemma count_reached_card:
  "distinct (map fst m) \<Longrightarrow>
    count_reached toRound m = int (card {p. \<exists>r. map_of m p = Some r \<and> toRound \<le> r})"
  unfolding count_reached_def by (subst count_entries) auto

text \<open>
  From the empty map, the count is over the whole history: the replicas of which some observed
  round is at least \<open>toRound\<close>.
\<close>

lemma fold_track_round_keys:
  "distinct (map fst m) \<Longrightarrow> distinct (map fst (fold (\<lambda>(i, r). track_round i r) obs m))"
  by (induction obs arbitrary: m) (auto simp: track_round_keys split: prod.splits)

definition replicas_at :: "int \<Rightarrow> (string \<times> int) list \<Rightarrow> string set" where
  "replicas_at toRound obs = {p. \<exists>r. (p, r) \<in> set obs \<and> toRound \<le> r}"

lemma reached_history:
  "count_reached toRound (fold (\<lambda>(i, r). track_round i r) obs []) =
    int (card (replicas_at toRound obs))"
proof -
  have fin: "finite {r. (p, r) \<in> set obs}" for p
    by (rule finite_subset [of _ "snd ` set obs"]) force+
  have "(\<exists>q. map_of (fold (\<lambda>(i, r). track_round i r) obs []) p = Some q \<and> toRound \<le> q) \<longleftrightarrow>
      (\<exists>r. (p, r) \<in> set obs \<and> toRound \<le> r)" for p
  proof (cases "\<exists>r. (p, r) \<in> set obs")
    case True
    then have "{r. (p, r) \<in> set obs} \<noteq> {}" by blast
    with True show ?thesis
      by (simp add: rounds.tracked_rounds Max_ge_iff [OF fin])
  next
    case False
    then show ?thesis by (auto simp: rounds.tracked_rounds)
  qed
  then show ?thesis
    by (simp add: count_reached_card fold_track_round_keys replicas_at_def)
qed

subsection \<open>Evaluating a condition on a sequence of events\<close>

fun answers :: "('e, 'c) condition \<Rightarrow> 'e list \<Rightarrow> 'c world \<Rightarrow> (bool list \<times> 'c world) option" where
  "answers c [] w = Some ([], w)"
| "answers c (e # es) w = do {
     (b, w1) \<leftarrow> c e w;
     (bs, w2) \<leftarrow> answers c es w1;
     Some (b # bs, w2) }"

text \<open>
  A condition that tracks rounds: on an event that shows a replica at a round it updates the map
  and answers whether the count has reached the number of replicas. Whatever it shares with the
  other conditions is in this lemma; \<open>I\<close> is what it keeps of the world.
\<close>

lemma answers_track_rounds:
  assumes step: "\<And>e f r w. e \<in> E \<Longrightarrow> I w \<Longrightarrow> sees e = (f, r) \<Longrightarrow> \<exists>w'. c e w =
      Some (count_reached toRound (track_round f r (rc w)) = n, w') \<and>
      rc w' = track_round f r (rc w) \<and> I w'"
    and "set es \<subseteq> E" and "I w" and "rc w = fold (\<lambda>(i, r). track_round i r) past []"
  shows "\<exists>bs w'. answers c es w = Some (bs, w') \<and> I w' \<and> length bs = length es \<and>
    (\<forall>i < length es. bs ! i \<longleftrightarrow>
      int (card (replicas_at toRound (past @ map sees (take (Suc i) es)))) = n)"
  using assms(2-4)
proof (induction es arbitrary: w past)
  case Nil
  then show ?case by simp
next
  case (Cons e es)
  obtain f r where fr: "sees e = (f, r)" by fastforce
  have "e \<in> E" "set es \<subseteq> E" using Cons.prems(1) by auto
  from step [OF this(1) Cons.prems(2) fr] obtain w1 where w1:
    "c e w = Some (count_reached toRound (track_round f r (rc w)) = n, w1)"
    "rc w1 = track_round f r (rc w)" "I w1"
    by blast
  have rc1: "rc w1 = fold (\<lambda>(i, r). track_round i r) (past @ [(f, r)]) []"
    using w1(2) Cons.prems(3) by simp
  then have now: "count_reached toRound (track_round f r (rc w)) =
      int (card (replicas_at toRound (past @ map sees (take (Suc 0) (e # es)))))"
    using w1(2) reached_history [of toRound "past @ [(f, r)]"] fr by simp
  from Cons.IH [OF \<open>set es \<subseteq> E\<close> w1(3) rc1] obtain bs w' where rest: "answers c es w1 = Some (bs, w')" "I w'"
    "length bs = length es"
    "\<forall>i < length es. bs ! i \<longleftrightarrow> int (card (replicas_at toRound ((past @ [(f, r)]) @ map sees (take (Suc i) es)))) = n"
    by (elim exE conjE) (rule that)
  have "\<forall>i < length (e # es). ((count_reached toRound (track_round f r (rc w)) = n) # bs) ! i \<longleftrightarrow>
      int (card (replicas_at toRound (past @ map sees (take (Suc i) (e # es))))) = n"
  proof (intro allI impI)
    fix i
    assume "i < length (e # es)"
    then show "((count_reached toRound (track_round f r (rc w)) = n) # bs) ! i \<longleftrightarrow>
        int (card (replicas_at toRound (past @ map sees (take (Suc i) (e # es))))) = n"
    proof (cases i)
      case 0
      then show ?thesis using now by (simp only: nth_Cons_0)
    next
      case (Suc j)
      with \<open>i < length (e # es)\<close> have "j < length es" by simp
      from rest(4) [rule_format, OF this] show ?thesis
        by (simp only: Suc nth_Cons_Suc take_Suc_Cons list.map fr append.simps append_assoc)
    qed
  qed
  note all = this
  have "answers c (e # es) w = Some ((count_reached toRound (track_round f r (rc w)) = n) # bs, w')"
    using w1(1) rest(1) by simp
  then show ?case
    by (intro exI conjI) (assumption, rule rest(2), simp add: rest(3), rule all)
qed

subsection \<open>The map in the variables\<close>

text \<open>
  \<open>commonCond.updateRoundCount\<close> of \<open>testcases/lockedvalue/common.go\<close>; the other round
  conditions have the same statements in line. The map is a reference: it is created on first
  use, updated in place and stored again under its key. \<open>trk\<close> is the update of an entry.
\<close>

definition updateRoundCount :: "('e, 'c) testlib \<Rightarrow> string \<Rightarrow>
    (string \<Rightarrow> int \<Rightarrow> (string, int) gomap \<Rightarrow> (string, int) gomap) \<Rightarrow> int \<Rightarrow> string \<Rightarrow> 'c world \<Rightarrow>
    ((string, int) gomap \<times> 'c world) option" where
  "updateRoundCount L key trk round from w = do {
     let w1 = (case Vars_Get L (ctx w) key of
         Some _ \<Rightarrow> w
       | None \<Rightarrow>
           (let a = next_addr w
            in set_var L key (VIntMap a)
                 (w\<lparr>int_maps := (int_maps w)(a \<mapsto> []), next_addr := Suc a\<rparr>)));
     rI \<leftarrow> Vars_Get L (ctx w1) key;
     a \<leftarrow> (case rI of VIntMap a \<Rightarrow> Some a | _ \<Rightarrow> None);
     m \<leftarrow> int_maps w1 a;
     let m' = trk from round m;
     Some (m', set_var L key (VIntMap a) (w1\<lparr>int_maps := (int_maps w1)(a \<mapsto> m')\<rparr>)) }"

text \<open>The map behind a key: empty before the first use.\<close>

definition round_count :: "('c \<Rightarrow> 'e lib_state) \<Rightarrow> string \<Rightarrow> 'c world \<Rightarrow> (string, int) gomap" where
  "round_count \<alpha> key w =
     (case lvars (\<alpha> (ctx w)) key of
        Some (VIntMap a) \<Rightarrow> (case int_maps w a of Some m \<Rightarrow> m | None \<Rightarrow> [])
      | _ \<Rightarrow> [])"

definition round_count_ok :: "('c \<Rightarrow> 'e lib_state) \<Rightarrow> string \<Rightarrow> 'c world \<Rightarrow> bool" where
  "round_count_ok \<alpha> key w \<longleftrightarrow>
     lvars (\<alpha> (ctx w)) key = None \<or>
     (\<exists>a m. lvars (\<alpha> (ctx w)) key = Some (VIntMap a) \<and> int_maps w a = Some m \<and>
        distinct (map fst m))"

lemma round_count_distinct: "round_count_ok \<alpha> key w \<Longrightarrow> distinct (map fst (round_count \<alpha> key w))"
  by (auto simp: round_count_ok_def round_count_def)

lemma updateRoundCount_spec:
  assumes lib: "testlib_spec L \<alpha>" and ok: "round_count_ok \<alpha> key w"
    and keys: "\<And>m. distinct (map fst m) \<Longrightarrow> distinct (map fst (trk from r m))"
  obtains a w' where "updateRoundCount L key trk r from w = Some (trk from r (round_count \<alpha> key w), w')"
    and "round_count \<alpha> key w' = trk from r (round_count \<alpha> key w)" and "round_count_ok \<alpha> key w'"
    and "\<alpha> (ctx w') = (\<alpha> (ctx w))\<lparr>lvars := (lvars (\<alpha> (ctx w)))(key \<mapsto> VIntMap a)\<rparr>"
    and "tmsgs w' = tmsgs w"
proof (cases "lvars (\<alpha> (ctx w)) key")
  case None
  let ?a = "next_addr w"
  let ?w1 = "set_var L key (VIntMap ?a) (w\<lparr>int_maps := (int_maps w)(?a \<mapsto> []), next_addr := Suc ?a\<rparr>)"
  let ?w' = "set_var L key (VIntMap ?a) (?w1\<lparr>int_maps := (int_maps ?w1)(?a \<mapsto> trk from r [])\<rparr>)"
  from None have run: "updateRoundCount L key trk r from w = Some (trk from r (round_count \<alpha> key w), ?w')"
    by (simp add: updateRoundCount_def vars_specD [OF lib] round_count_def Let_def)
  from None keys [of "[]"] show ?thesis
    by (intro that [OF run, of ?a])
      (simp_all add: vars_specD [OF lib] round_count_def round_count_ok_def)
next
  case (Some v)
  with ok obtain a m where "v = VIntMap a" "int_maps w a = Some m" "distinct (map fst m)"
    by (auto simp: round_count_ok_def)
  note v = Some this
  let ?w' = "set_var L key (VIntMap a) (w\<lparr>int_maps := (int_maps w)(a \<mapsto> trk from r m)\<rparr>)"
  from v have run: "updateRoundCount L key trk r from w = Some (trk from r (round_count \<alpha> key w), ?w')"
    by (simp add: updateRoundCount_def vars_specD [OF lib] round_count_def Let_def)
  from v keys [of m] show ?thesis
    by (intro that [OF run, of a])
      (simp_all add: vars_specD [OF lib] round_count_def round_count_ok_def)
qed

lemma update_track_round:
  assumes lib: "testlib_spec L \<alpha>" and ok: "round_count_ok \<alpha> key w"
  obtains a w' where
    "updateRoundCount L key track_round r from w = Some (track_round from r (round_count \<alpha> key w), w')"
    and "round_count \<alpha> key w' = track_round from r (round_count \<alpha> key w)" and "round_count_ok \<alpha> key w'"
    and "\<alpha> (ctx w') = (\<alpha> (ctx w))\<lparr>lvars := (lvars (\<alpha> (ctx w)))(key \<mapsto> VIntMap a)\<rparr>"
    and "tmsgs w' = tmsgs w"
  by (rule updateRoundCount_spec [OF lib ok, of track_round "from" r]) (auto intro: track_round_keys that)

lemma round_count_ok_new:
  "lvars (\<alpha> (ctx w)) key = None \<Longrightarrow> round_count_ok \<alpha> key w \<and> round_count \<alpha> key w = []"
  by (simp add: round_count_ok_def round_count_def)

section \<open>A handler on a sequence of events\<close>

fun outputs :: "('e, 'c) handler \<Rightarrow> 'e list \<Rightarrow> 'c world \<Rightarrow>
    ((message option list \<times> bool) list \<times> 'c world) option" where
  "outputs h [] w = Some ([], w)"
| "outputs h (e # es) w = do {
     (out, w1) \<leftarrow> h e w;
     (outs, w2) \<leftarrow> outputs h es w1;
     Some (out # outs, w2) }"

section \<open>Letting a limited number through\<close>

locale quota =
  fixes count :: "'s \<Rightarrow> 'k \<Rightarrow> int"
    and bump :: "'k \<Rightarrow> 's \<Rightarrow> 's"
  assumes bump_same: "count (bump k s) k = count s k + 1"
    and bump_other: "j \<noteq> k \<Longrightarrow> count (bump k s) j = count s j"

text \<open>
  The gate in front of a recipient: below the limit the request passes and is counted. A run of
  requests gives the list of answers.
\<close>

definition gate :: "('s \<Rightarrow> 'k \<Rightarrow> int) \<Rightarrow> ('k \<Rightarrow> 's \<Rightarrow> 's) \<Rightarrow> ('k \<Rightarrow> int) \<Rightarrow> 'k \<Rightarrow> 's \<Rightarrow> bool \<times> 's" where
  "gate count bump limit k s = (if count s k < limit k then (True, bump k s) else (False, s))"

fun gate_run :: "('s \<Rightarrow> 'k \<Rightarrow> int) \<Rightarrow> ('k \<Rightarrow> 's \<Rightarrow> 's) \<Rightarrow> ('k \<Rightarrow> int) \<Rightarrow> 'k list \<Rightarrow> 's \<Rightarrow> bool list \<times> 's" where
  "gate_run count bump limit [] s = ([], s)"
| "gate_run count bump limit (k # ks) s =
     (case gate count bump limit k s of (b, s1) \<Rightarrow>
        case gate_run count bump limit ks s1 of (bs, s2) \<Rightarrow> (b # bs, s2))"

definition passed :: "'k \<Rightarrow> 'k list \<Rightarrow> bool list \<Rightarrow> nat" where
  "passed k ks bs = length (filter (\<lambda>(j, b). j = k \<and> b) (zip ks bs))"

context quota begin

text \<open>A request is answered by counting the earlier ones with the same key, those refused too.\<close>

lemma gate_answers:
  assumes "gate_run count bump limit ks s = (bs, s')"
  shows "length bs = length ks \<and>
    (\<forall>i < length ks. bs ! i \<longleftrightarrow> count s (ks ! i) + int (count_list (take i ks) (ks ! i)) < limit (ks ! i))"
  using assms
proof (induction ks arbitrary: s bs)
  case Nil
  then show ?case by simp
next
  case (Cons j ks)
  obtain b s1 bs1 where step: "gate count bump limit j s = (b, s1)"
    "gate_run count bump limit ks s1 = (bs1, s')" "bs = b # bs1"
    using Cons.prems by (auto split: prod.splits)
  note IH = Cons.IH [OF step(2)]
  have b: "b \<longleftrightarrow> count s j < limit j"
    using step(1) by (auto simp: gate_def split: if_splits)
  have s1: "count s1 k = (if k = j \<and> b then count s k + 1 else count s k)" for k
    using step(1) bump_same bump_other by (auto simp: gate_def split: if_splits)
  show ?case
  proof (intro conjI allI impI)
    fix i
    assume i: "i < length (j # ks)"
    show "bs ! i \<longleftrightarrow> count s ((j # ks) ! i) + int (count_list (take i (j # ks)) ((j # ks) ! i)) <
        limit ((j # ks) ! i)"
    proof (cases i)
      case 0
      then show ?thesis using b step(3) by simp
    next
      case (Suc i')
      with i IH have "bs1 ! i' \<longleftrightarrow> count s1 (ks ! i') + int (count_list (take i' ks) (ks ! i')) < limit (ks ! i')"
        by simp
      then show ?thesis using Suc step(3) b by (auto simp: s1)
    qed
  qed (use IH step(3) in simp)
qed

lemma gate_passes:
  assumes "count s k \<le> limit k" and "gate_run count bump limit ks s = (bs, s')"
  shows "int (passed k ks bs) = min (int (count_list ks k)) (limit k - count s k) \<and>
    count s' k = count s k + int (passed k ks bs)"
  using assms
proof (induction ks arbitrary: s bs)
  case Nil
  then show ?case by (simp add: passed_def)
next
  case (Cons j ks)
  obtain b s1 bs1 where step: "gate count bump limit j s = (b, s1)"
    "gate_run count bump limit ks s1 = (bs1, s')" "bs = b # bs1"
    using Cons.prems(2) by (auto split: prod.splits)
  have le: "count s1 k \<le> limit k"
    using step(1) Cons.prems(1) bump_same bump_other [of k j]
    by (cases "j = k") (auto simp: gate_def split: if_splits)
  from Cons.IH [OF le step(2)] show ?case
    using step(1,3) Cons.prems(1) bump_same bump_other [of k j]
    by (cases "j = k") (auto simp: gate_def passed_def split: if_splits)
qed

end

text \<open>
  A handler that is a gate: on each event it asks the gate in front of the event's key, and what
  it delivers depends on the answer. \<open>I\<close> is what it keeps of the world.
\<close>

lemma outputs_gate:
  assumes step: "\<And>e w. e \<in> E \<Longrightarrow> I w \<Longrightarrow> \<exists>w'. h e w =
      Some (out (fst (gate count bump limit (key e) (st w))) e, w') \<and>
      st w' = snd (gate count bump limit (key e) (st w)) \<and> I w'"
    and "set es \<subseteq> E" and "I w"
    and "gate_run count bump limit (map key es) (st w) = (bs, s')"
  shows "\<exists>w'. outputs h es w = Some (map (\<lambda>(b, e). out b e) (zip bs es), w') \<and> I w' \<and> st w' = s'"
  using assms(2-4)
proof (induction es arbitrary: w bs)
  case Nil
  then show ?case by simp
next
  case (Cons e es)
  let ?g = "gate count bump limit (key e) (st w)"
  from step [of e w] Cons.prems(1,2) obtain w1 where w1: "h e w = Some (out (fst ?g) e, w1)"
    "st w1 = snd ?g" "I w1"
    by auto
  obtain bs1 where run: "bs = fst ?g # bs1"
    "gate_run count bump limit (map key es) (st w1) = (bs1, s')"
    using Cons.prems(3) w1(2) by (auto split: prod.splits)
  from Cons.IH [OF _ w1(3) run(2)] Cons.prems(1) w1(1) run(1) show ?case by auto
qed

end
