(* ===== verification/Common.thy ===== *)
theory Common
  imports Tracking
begin

text \<open>
  The package \<open>common\<close>: the setup every test case of the newer style shares
  (\<open>common/common.go\<close>), its conditions (\<open>common/cond.go\<close>) and its handlers
  (\<open>common/handlers.go\<close>).
\<close>

section \<open>Setup\<close>

text \<open>A setup option writes variables; \<^term>\<open>None\<close> is a panic in it.\<close>

type_synonym 'c setup_option = "'c world \<Rightarrow> 'c world option"

definition addFN :: "('e, 'c) testlib \<Rightarrow> 'c setup_option" where
  "addFN L w =
     (let n = Replicas_Cap L (ctx w);
          f = (n - 1) sdiv 3
      in Some (set_var L ''faults'' (VInt f) (set_var L ''n'' (VInt n) w)))"

text \<open>
  The callers of \<open>CreatePartition\<close> drop its error: the partition stored is then the nil pointer.
\<close>

definition create_partition :: "'k tendermint \<Rightarrow> ('e, 'c) testlib \<Rightarrow> int list \<Rightarrow> string list \<Rightarrow>
    'c world \<Rightarrow> partition option option" where
  "create_partition T L sizes labels w = do {
     res \<leftarrow> CreatePartition T (NewGenericPartitioner (Replicas_Cap L (ctx w)) (Replicas_Iter L (ctx w)))
       sizes labels;
     Some (case res of Inl _ \<Rightarrow> None | Inr p \<Rightarrow> Some p) }"

definition common_partition :: "'k tendermint \<Rightarrow> ('e, 'c) testlib \<Rightarrow> 'c setup_option" where
  "common_partition T L w = do {
     let f = (Replicas_Cap L (ctx w) - 1) sdiv 3;
     p \<leftarrow> create_partition T L [1, f, 2 * f] [''h'', ''faulty'', ''rest''] w;
     Some (set_var L ''partition'' (VPartition p) w) }"

definition DefaultOptions :: "'k tendermint \<Rightarrow> ('e, 'c) testlib \<Rightarrow> 'c setup_option list" where
  "DefaultOptions T L = [addFN L, common_partition T L]"

definition Setup :: "'k tendermint \<Rightarrow> ('e, 'c) testlib \<Rightarrow> 'c setup_option list \<Rightarrow> 'c setup_option" where
  "Setup T L options w = foldo (\<lambda>o1. o1) (DefaultOptions T L @ options) w"

section \<open>Conditions\<close>

definition IsCommit :: "('e, 'c) testlib \<Rightarrow> ('e, 'c) condition" where
  "IsCommit L e w =
     (case event_Type L e of
        GenericEventType ty _ \<Rightarrow> Some (ty = ''Committing block'', w)
      | OtherEventType \<Rightarrow> Some (False, w))"

definition IsMessageFromRound :: "('e, 'c) testlib \<Rightarrow> int \<Rightarrow> ('e, 'c) condition" where
  "IsMessageFromRound L round e w =
     (case GetMessageFromEvent L e w of
        None \<Rightarrow> Some (False, w)
      | Some a \<Rightarrow> do {
          m \<leftarrow> tmsgs w a;
          r \<leftarrow> Round m;
          Some (r = round, w) })"

text \<open>\<open>getPartition\<close> with its comma-ok type assertion.\<close>

definition common_getPartition :: "('e, 'c) testlib \<Rightarrow> 'c world \<Rightarrow> partition option option" where
  "common_getPartition L w =
     (case Vars_Get L (ctx w) ''partition'' of Some (VPartition p) \<Rightarrow> Some p | _ \<Rightarrow> None)"

definition IsVoteFromPart :: "'k tendermint \<Rightarrow> ('e, 'c) testlib \<Rightarrow> string \<Rightarrow> ('e, 'c) condition" where
  "IsVoteFromPart T L partS e w =
     (case GetMessageFromEvent L e w of
        None \<Rightarrow> Some (False, w)
      | Some a \<Rightarrow> do {
          m \<leftarrow> tmsgs w a;
          if MsgType m \<noteq> Precommit \<and> MsgType m \<noteq> Prevote then Some (False, w)
          else (case common_getPartition L w of
            None \<Rightarrow> Some (False, w)
          | Some ptn \<Rightarrow> do {
              part \<leftarrow> Partition_GetPart ptn partS;
              (case part of
                None \<Rightarrow> Some (False, w)
              | Some p \<Rightarrow> do {
                  val \<leftarrow> GetVoteValidator m;
                  (case val of
                    None \<Rightarrow> Some (False, w)
                  | Some v \<Rightarrow> do { b \<leftarrow> Part_ContainsVal (Some p) v; Some (b, w) }) }) }) })"

definition IsVoteFromFaulty :: "'k tendermint \<Rightarrow> ('e, 'c) testlib \<Rightarrow> ('e, 'c) condition" where
  "IsVoteFromFaulty T L = IsVoteFromPart T L ''faulty''"

definition IsFromPart :: "('e, 'c) testlib \<Rightarrow> string \<Rightarrow> ('e, 'c) condition" where
  "IsFromPart L partS e w =
     (case GetMessageFromEvent L e w of
        None \<Rightarrow> Some (False, w)
      | Some a \<Rightarrow> do {
          m \<leftarrow> tmsgs w a;
          (case common_getPartition L w of
            None \<Rightarrow> Some (False, w)
          | Some ptn \<Rightarrow> do {
              part \<leftarrow> Partition_GetPart ptn partS;
              (case part of
                None \<Rightarrow> Some (False, w)
              | Some p \<Rightarrow> do { b \<leftarrow> Part_Contains (Some p) (From m); Some (b, w) }) }) })"

definition IsToPart :: "('e, 'c) testlib \<Rightarrow> string \<Rightarrow> ('e, 'c) condition" where
  "IsToPart L partS e w =
     (case GetMessageFromEvent L e w of
        None \<Rightarrow> Some (False, w)
      | Some a \<Rightarrow> do {
          m \<leftarrow> tmsgs w a;
          (case common_getPartition L w of
            None \<Rightarrow> Some (False, w)
          | Some ptn \<Rightarrow> do {
              part \<leftarrow> Partition_GetPart ptn partS;
              (case part of
                None \<Rightarrow> Some (False, w)
              | Some p \<Rightarrow> do { b \<leftarrow> Part_Contains (Some p) (To m); Some (b, w) }) }) })"

definition IsMessageType :: "('e, 'c) testlib \<Rightarrow> message_type \<Rightarrow> ('e, 'c) condition" where
  "IsMessageType L ty e w =
     (case GetMessage L (ctx w) e of
        None \<Rightarrow> Some (False, w)
      | Some message \<Rightarrow>
          (case GetParsedMessage (Some message) of
            None \<Rightarrow> Some (False, w)
          | Some a \<Rightarrow> do { m \<leftarrow> tmsgs w a; Some (MsgType m = ty, w) }))"

text \<open>
  \<open>RoundReached\<close> keeps one counter per round and one flag per replica and round, under keys
  built with \<open>fmt.Sprintf\<close>.
\<close>

definition round_key :: "int \<Rightarrow> string" where
  "round_key r = ''roundCount_'' @ fmt_d r"

definition replica_key :: "string \<Rightarrow> int \<Rightarrow> string" where
  "replica_key from r = ''roundCount_'' @ from @ ''_'' @ fmt_d r"

definition ensure_counter :: "('e, 'c) testlib \<Rightarrow> string \<Rightarrow> 'c world \<Rightarrow> 'c world" where
  "ensure_counter L key w =
     (if \<not> Vars_Exists L (ctx w) key then w\<lparr>ctx := Vars_SetCounter L (ctx w) key\<rparr> else w)"

definition RoundReached :: "('e, 'c) testlib \<Rightarrow> int \<Rightarrow> ('e, 'c) condition" where
  "RoundReached L r e w = do {
     let w1 = ensure_counter L (round_key r) w;
     v \<leftarrow> Counter_Value L (ctx w1) (round_key r);
     let n = (case Vars_GetInt L (ctx w1) ''n'' of Some n \<Rightarrow> n | None \<Rightarrow> 0);
     (if v = n then Some (True, w1)
      else if \<not> IsMessageSend L e then Some (False, w1)
      else (case GetMessageFromEvent L e w1 of
        None \<Rightarrow> Some (False, w1)
      | Some a \<Rightarrow> do {
          message \<leftarrow> tmsgs w1 a;
          msgRound \<leftarrow> Round message;
          let replicaKey = replica_key (From message) msgRound;
          (if Vars_Exists L (ctx w1) replicaKey then Some (False, w1)
           else do {
             let w2 = set_var L replicaKey (VBool True) w1;
             let w3 = ensure_counter L (round_key msgRound) w2;
             c \<leftarrow> Counter_Incr L (ctx w3) (round_key msgRound);
             let w4 = w3\<lparr>ctx := c\<rparr>;
             v' \<leftarrow> Counter_Value L (ctx w4) (round_key r);
             Some (v' = n, w4) }) })) }"

section \<open>Handlers\<close>

text \<open>The replica whose address is the vote's validator: the first one the store lists.\<close>

fun find_validator :: "'k tendermint \<Rightarrow> replica list \<Rightarrow> bytes \<Rightarrow> replica option option" where
  "find_validator T [] valAddr = Some None"
| "find_validator T (r # rs) valAddr = do {
     res \<leftarrow> GetReplicaAddress T (Some r);
     (case res of
        Inl _ \<Rightarrow> find_validator T rs valAddr
      | Inr a \<Rightarrow> if a = valAddr then Some (Some r) else find_validator T rs valAddr) }"

definition common_ChangeVoteToNil :: "'k tendermint \<Rightarrow> json \<Rightarrow> ('e, 'c) testlib \<Rightarrow> ('e, 'c) handler" where
  "common_ChangeVoteToNil T J L e w =
     (if \<not> IsMessageSend L e then Some (([], False), w)
      else case GetMessage L (ctx w) e of
        None \<Rightarrow> Some (([], False), w)
      | Some message \<Rightarrow> (case GetParsedMessage (Some message) of
        None \<Rightarrow> Some (([], False), w)
      | Some a \<Rightarrow> do {
          tMsg \<leftarrow> tmsgs w a;
          (if MsgType tMsg \<noteq> Precommit \<and> MsgType tMsg \<noteq> Prevote then Some (([], False), w)
           else do {
             val \<leftarrow> GetVoteValidator tMsg;
             (case val of
               None \<Rightarrow> Some (([], False), w)
             | Some valAddr \<Rightarrow> do {
                 replica \<leftarrow> find_validator T (Replicas_Iter L (ctx w)) valAddr;
                 (case replica of
                   None \<Rightarrow> Some (([], False), w)
                 | Some r \<Rightarrow> do {
                     ((newVote, err), w1) \<leftarrow> ChangeVoteToNil T (Some r) a w;
                     (if err \<noteq> None then Some (([], False), w1)
                      else do {
                        a' \<leftarrow> newVote;
                        (msgB, w2) \<leftarrow> Marshal T J a' w1;
                        (case msgB of
                          Inl _ \<Rightarrow> Some (([], False), w2)
                        | Inr bs \<Rightarrow>
                            (case NewMessage L (ctx w2) message bs of (m', c) \<Rightarrow>
                               Some (([Some m'], True), w2\<lparr>ctx := c\<rparr>))) }) }) }) }) }))"

definition RecordMessage :: "('e, 'c) testlib \<Rightarrow> string \<Rightarrow> ('e, 'c) handler" where
  "RecordMessage L label e w =
     (case GetMessage L (ctx w) e of
        None \<Rightarrow> Some (([], False), w)
      | Some message \<Rightarrow> Some (([], True), set_var L label (VMessage message) w))"

section \<open>The round counters\<close>

lemma round_key_inject [simp]: "round_key r = round_key r' \<longleftrightarrow> r = r'"
  by (simp add: round_key_def)

lemma replica_key_inject [simp]: "replica_key f r = replica_key f' r' \<longleftrightarrow> f = f' \<and> r = r'"
proof
  assume "replica_key f r = replica_key f' r'"
  then have "f @ [CHR ''_''] @ fmt_d r = f' @ [CHR ''_''] @ fmt_d r'"
    by (simp add: replica_key_def)
  then have "f = f' \<and> fmt_d r = fmt_d r'"
    by (rule separated_inject) simp_all
  then show "f = f' \<and> r = r'" by simp
qed simp

lemma round_key_replica_key [simp]: "round_key r \<noteq> replica_key f r'" "replica_key f r' \<noteq> round_key r"
  using separated_ne [of "CHR ''_''" "fmt_d r" f "fmt_d r'"]
  by (auto simp: round_key_def replica_key_def)

lemma keys_not_n [simp]: "''n'' \<noteq> round_key r" "''n'' \<noteq> replica_key f r"
  "round_key r \<noteq> ''n''" "replica_key f r \<noteq> ''n''"
  by (auto simp: round_key_def replica_key_def)

text \<open>
  The replicas flagged for a round, and the invariant: the counter of a round is the number of
  replicas flagged for it. The keys of different rounds and replicas never coincide.
\<close>

definition seen :: "'e lib_state \<Rightarrow> int \<Rightarrow> string set" where
  "seen s r = {f. lvars s (replica_key f r) \<noteq> None}"

definition round_counters_ok :: "'e lib_state \<Rightarrow> bool" where
  "round_counters_ok s \<longleftrightarrow>
     (\<forall>r. finite (seen s r) \<and>
       (case lvars s (round_key r) of
          None \<Rightarrow> seen s r = {}
        | Some (VCounter i) \<Rightarrow> i = int (card (seen s r))
        | _ \<Rightarrow> False))"

lemma round_counters_okD:
  assumes "round_counters_ok s"
  shows "finite (seen s r)"
    and "lvars s (round_key r) = None \<and> seen s r = {} \<or>
      lvars s (round_key r) = Some (VCounter (int (card (seen s r))))"
  using assms [unfolded round_counters_ok_def, rule_format, of r]
  by (auto split: option.splits var_value.splits)

lemma round_counters_okI:
  assumes "\<And>r. finite (seen s r)"
    and "\<And>r. lvars s (round_key r) = None \<and> seen s r = {} \<or>
      lvars s (round_key r) = Some (VCounter (int (card (seen s r))))"
  shows "round_counters_ok s"
  unfolding round_counters_ok_def
proof (intro allI conjI)
  fix r
  show "finite (seen s r)" by (rule assms(1))
  show "case lvars s (round_key r) of None \<Rightarrow> seen s r = {}
      | Some (VCounter i) \<Rightarrow> i = int (card (seen s r)) | _ \<Rightarrow> False"
    using assms(2) [of r] by auto
qed

definition n_of :: "'e lib_state \<Rightarrow> int" where
  "n_of s = (case lvars s ''n'' of Some (VInt n) \<Rightarrow> n | _ \<Rightarrow> 0)"

lemma ensure_counter_round:
  fixes r :: int
  assumes lib: "testlib_spec L \<alpha>" and ok: "round_counters_ok (\<alpha> (ctx w))"
  defines "s \<equiv> \<alpha> (ctx w)"
  defines "s1 \<equiv> \<alpha> (ctx (ensure_counter L (round_key r) w))"
  shows "round_counters_ok s1" and "seen s1 q = seen s q" and "n_of s1 = n_of s"
    and "lvars s1 (round_key r) = Some (VCounter (int (card (seen s r))))"
    and "lvars s1 (replica_key f q) = lvars s (replica_key f q)"
    and "lmessage s1 = lmessage s"
    and "tmsgs (ensure_counter L (round_key r) w) = tmsgs w"
proof -
  have s1: "s1 = (if lvars s (round_key r) = None
      then s\<lparr>lvars := (lvars s)(round_key r \<mapsto> VCounter 0)\<rparr> else s)"
    by (simp add: s1_def s_def ensure_counter_def vars_specD [OF lib])
  show seen: "seen s1 q = seen s q" for q
    by (simp add: s1 seen_def)
  note okD = round_counters_okD [OF ok [folded s_def]]
  show "lvars s1 (round_key r) = Some (VCounter (int (card (seen s r))))"
    using okD(2) [of r] by (auto simp: s1)
  then show "round_counters_ok s1"
    using okD seen by (intro round_counters_okI) (auto simp: s1)
  show "n_of s1 = n_of s" and "lvars s1 (replica_key f q) = lvars s (replica_key f q)"
    and "lmessage s1 = lmessage s"
    by (simp_all add: s1 n_of_def)
  show "tmsgs (ensure_counter L (round_key r) w) = tmsgs w"
    by (simp add: ensure_counter_def)
qed

lemma flag_replica:
  assumes "round_counters_ok s" and "f \<notin> seen s q"
  defines "c \<equiv> int (card (seen s q))"
  defines "s4 \<equiv> s\<lparr>lvars := (lvars s)(replica_key f q \<mapsto> VBool True, round_key q \<mapsto> VCounter (c + 1))\<rparr>"
  shows "round_counters_ok s4" and "seen s4 p = (if p = q then insert f (seen s q) else seen s p)"
    and "n_of s4 = n_of s"
proof -
  note okD = round_counters_okD [OF assms(1)]
  show seen: "seen s4 p = (if p = q then insert f (seen s q) else seen s p)" for p
    by (auto simp: s4_def seen_def)
  show "round_counters_ok s4"
  proof (rule round_counters_okI)
    fix p
    show "finite (seen s4 p)" using okD(1) by (simp add: seen)
    have "lvars s4 (round_key p) = (if p = q then Some (VCounter (c + 1)) else lvars s (round_key p))"
      by (simp add: s4_def)
    then show "lvars s4 (round_key p) = None \<and> seen s4 p = {} \<or>
        lvars s4 (round_key p) = Some (VCounter (int (card (seen s4 p))))"
      using okD [of p] assms(2) by (cases "p = q") (simp_all add: seen c_def)
  qed
  show "n_of s4 = n_of s" by (simp add: s4_def n_of_def)
qed

text \<open>
  Messages of the pool were made by the parser: what an event's message points to is a well-typed
  \<open>TMessage\<close>.
\<close>

definition pool_ok :: "('e, 'c) testlib \<Rightarrow> 'c world \<Rightarrow> bool" where
  "pool_ok L w \<longleftrightarrow>
     (\<forall>e a. GetMessageFromEvent L e w = Some a \<longrightarrow> (\<exists>t. tmsgs w a = Some t \<and> well_typed t))"

text \<open>The observation an event gives: a message sent by a replica, of a round.\<close>

definition sent_round :: "('e, 'c) testlib \<Rightarrow> 'e \<Rightarrow> 'c world \<Rightarrow> (string \<times> int) option" where
  "sent_round L e w =
     (if IsMessageSend L e
      then do {
        a \<leftarrow> GetMessageFromEvent L e w;
        t \<leftarrow> tmsgs w a;
        r \<leftarrow> Round t;
        Some (From t, r) }
      else None)"

lemma RoundReached_event:
  assumes lib: "testlib_spec L \<alpha>" and ok: "round_counters_ok (\<alpha> (ctx w))"
    and sent: "IsMessageSend L e \<Longrightarrow> sent_round L e w = None \<Longrightarrow> GetMessageFromEvent L e w = None"
  shows "\<exists>b w'. RoundReached L r e w = Some (b, w') \<and> round_counters_ok (\<alpha> (ctx w')) \<and>
    n_of (\<alpha> (ctx w')) = n_of (\<alpha> (ctx w)) \<and>
    (b \<longleftrightarrow> int (card (seen (\<alpha> (ctx w')) r)) = n_of (\<alpha> (ctx w))) \<and>
    (\<forall>q. seen (\<alpha> (ctx w')) q =
      (case sent_round L e w of
         Some (f, q') \<Rightarrow>
           if q = q' \<and> int (card (seen (\<alpha> (ctx w)) r)) \<noteq> n_of (\<alpha> (ctx w))
           then insert f (seen (\<alpha> (ctx w)) q) else seen (\<alpha> (ctx w)) q
       | None \<Rightarrow> seen (\<alpha> (ctx w)) q))"
proof -
  define w1 where "w1 = ensure_counter L (round_key r) w"
  note e1 = ensure_counter_round [OF lib ok, of r, folded w1_def]
  let ?s = "\<alpha> (ctx w)" and ?s1 = "\<alpha> (ctx w1)"
  have n: "(case Vars_GetInt L (ctx w1) ''n'' of Some n \<Rightarrow> n | None \<Rightarrow> 0) = n_of ?s"
    using e1(3) by (simp add: vars_specD [OF lib] n_of_def split: option.splits var_value.splits)
  have v: "Counter_Value L (ctx w1) (round_key r) = Some (int (card (seen ?s r)))"
    using e1(4) by (simp add: vars_specD [OF lib])
  have msg: "GetMessageFromEvent L e w1 = GetMessageFromEvent L e w"
    using e1(6) by (simp add: GetMessageFromEvent_eq context_specD [OF lib])
  have tm: "tmsgs w1 = tmsgs w" by (rule e1(7))
  have stop: ?thesis
    if "RoundReached L r e w = Some (int (card (seen ?s r)) = n_of ?s, w1)"
      and "\<And>f q'. sent_round L e w = Some (f, q') \<Longrightarrow> int (card (seen ?s r)) = n_of ?s \<or> f \<in> seen ?s q'"
    using that e1(1-3) by (auto split: option.splits simp: insert_absorb)
  note unf = RoundReached_def w1_def [symmetric] Let_def v n msg
  show ?thesis
  proof (cases "int (card (seen ?s r)) = n_of ?s")
    case True
    show ?thesis by (rule stop) (simp_all add: unf True)
  next
    case notyet: False
    show ?thesis
    proof (cases "sent_round L e w")
      case None
      show ?thesis
      proof (rule stop)
        show "RoundReached L r e w = Some (int (card (seen ?s r)) = n_of ?s, w1)"
          using notyet sent None by (simp add: unf)
      qed (simp add: None)
    next
      case (Some fq)
      then obtain f q a t where fq: "fq = (f, q)" "IsMessageSend L e"
        "GetMessageFromEvent L e w = Some a" "tmsgs w a = Some t" "Round t = Some q" "From t = f"
        by (cases fq) (auto simp: sent_round_def split: if_splits Option.bind_splits)
      show ?thesis
      proof (cases "f \<in> seen ?s q")
        case True
        then have "Vars_Exists L (ctx w1) (replica_key f q)"
          using e1(5) by (simp add: vars_specD [OF lib] seen_def)
        then have "RoundReached L r e w = Some (int (card (seen ?s r)) = n_of ?s, w1)"
          using notyet fq tm by (simp add: unf)
        with True Some fq show ?thesis by (intro stop) auto
      next
        case False
        define w2 where "w2 = set_var L (replica_key f q) (VBool True) w1"
        define w3 where "w3 = ensure_counter L (round_key q) w2"
        let ?c = "int (card (seen ?s q))"
        let ?s4 = "?s1\<lparr>lvars := (lvars ?s1)(replica_key f q \<mapsto> VBool True, round_key q \<mapsto> VCounter (?c + 1))\<rparr>"
        have new: "\<not> Vars_Exists L (ctx w1) (replica_key f q)"
          using False e1(5) by (simp add: vars_specD [OF lib] seen_def)
        have c1: "lvars ?s1 (round_key q) = None \<and> ?c = 0 \<or> lvars ?s1 (round_key q) = Some (VCounter ?c)"
          using round_counters_okD(2) [OF e1(1), of q] e1(2) by auto
        have s3: "\<alpha> (ctx w3) = ?s1\<lparr>lvars := (lvars ?s1)(replica_key f q \<mapsto> VBool True, round_key q \<mapsto> VCounter ?c)\<rparr>"
        proof (cases "lvars ?s1 (round_key q) = None")
          case True
          then show ?thesis using c1
            by (auto simp: w3_def w2_def ensure_counter_def vars_specD [OF lib])
        next
          case False
          with c1 have *: "lvars ?s1 (round_key q) = Some (VCounter ?c)" by simp
          have "(lvars ?s1)(replica_key f q \<mapsto> VBool True) =
              (lvars ?s1)(replica_key f q \<mapsto> VBool True, round_key q \<mapsto> VCounter ?c)"
            using * by (intro ext) simp
          then show ?thesis using *
            by (simp add: w3_def w2_def ensure_counter_def vars_specD [OF lib])
        qed
        then have "lvars (\<alpha> (ctx w3)) (round_key q) = Some (VCounter ?c)" by simp
        then obtain c where c: "Counter_Incr L (ctx w3) (round_key q) = Some c" "\<alpha> c = ?s4"
          using s3 by (elim Counter_Incr_Some [OF lib]) simp
        have f: "round_counters_ok ?s4" "seen ?s4 p = (if p = q then insert f (seen ?s q) else seen ?s p)"
          "n_of ?s4 = n_of ?s" for p
          using flag_replica [OF e1(1), of f q] e1(2,3) False by simp_all
        have v4: "Counter_Value L c (round_key r) = Some (int (card (seen ?s4 r)))"
          using round_counters_okD(2) [OF f(1), of r] c(2) e1(4) by (auto simp: vars_specD [OF lib])
        have "RoundReached L r e w = Some (int (card (seen ?s4 r)) = n_of ?s, w3\<lparr>ctx := c\<rparr>)"
          using notyet fq tm new c v4
          by (simp add: unf w2_def [symmetric] w3_def [symmetric])
        with f c(2) Some fq(1) notyet show ?thesis by auto
      qed
    qed
  qed
qed

lemma RoundReached_step:
  assumes lib: "testlib_spec L \<alpha>" and "pool_ok L w" and ok: "round_counters_ok (\<alpha> (ctx w))"
  shows "\<exists>b w'. RoundReached L r e w = Some (b, w') \<and> round_counters_ok (\<alpha> (ctx w')) \<and>
    n_of (\<alpha> (ctx w')) = n_of (\<alpha> (ctx w)) \<and>
    (b \<longleftrightarrow> int (card (seen (\<alpha> (ctx w')) r)) = n_of (\<alpha> (ctx w))) \<and>
    (\<forall>q. seen (\<alpha> (ctx w')) q =
      (case sent_round L e w of
         Some (f, q') \<Rightarrow>
           if q = q' \<and> int (card (seen (\<alpha> (ctx w)) r)) \<noteq> n_of (\<alpha> (ctx w))
           then insert f (seen (\<alpha> (ctx w)) q) else seen (\<alpha> (ctx w)) q
       | None \<Rightarrow> seen (\<alpha> (ctx w)) q))"
proof (rule RoundReached_event [OF lib ok])
  assume "IsMessageSend L e" and "sent_round L e w = None"
  then show "GetMessageFromEvent L e w = None"
    using assms(2) well_typed_HeightRound
    by (fastforce simp: sent_round_def pool_ok_def Round_def split: Option.bind_splits)
qed

text \<open>Whatever the message: when the condition returns, the counters agree with the flags.\<close>

lemma RoundReached_counters:
  assumes lib: "testlib_spec L \<alpha>" and ok: "round_counters_ok (\<alpha> (ctx w))"
    and run: "RoundReached L r e w = Some (b, w')"
  shows "round_counters_ok (\<alpha> (ctx w'))"
proof (cases "IsMessageSend L e \<and> sent_round L e w = None \<and> GetMessageFromEvent L e w \<noteq> None")
  case False
  from RoundReached_event [OF lib ok, of e r] False run show ?thesis by auto
next
  case True
  let ?w1 = "ensure_counter L (round_key r) w"
  note e1 = ensure_counter_round [OF lib ok, of r]
  obtain a where a: "GetMessageFromEvent L e ?w1 = Some a" "tmsgs ?w1 a = None \<or> (\<exists>t. tmsgs ?w1 a = Some t \<and> Round t = None)"
    using True e1(6,7) by (auto simp: sent_round_def GetMessageFromEvent_eq context_specD [OF lib] split: Option.bind_splits)
  with run True have "w' = ?w1"
    by (auto simp: RoundReached_def Let_def Option.bind_eq_Some_conv split: if_split_asm)
  with e1(1) show ?thesis by simp
qed

text \<open>
  C1: the condition \<open>RoundReached(r)\<close>. It returns on every event; it keeps each round's counter
  equal to the number of replicas flagged for the round; it flags at most the sender of this
  event for the round of its message, and does so unless the count for \<open>r\<close> is complete already;
  and it holds exactly when as many replicas as the variable \<open>n\<close> says are flagged for \<open>r\<close>.
\<close>

theorem round_reached_counts:
  assumes lib: "testlib_spec L \<alpha>" and "pool_ok L w" and ok: "round_counters_ok (\<alpha> (ctx w))"
  shows "\<exists>b w'. RoundReached L r e w = Some (b, w') \<and> round_counters_ok (\<alpha> (ctx w')) \<and>
    n_of (\<alpha> (ctx w')) = n_of (\<alpha> (ctx w)) \<and>
    (b \<longleftrightarrow> int (card (seen (\<alpha> (ctx w')) r)) = n_of (\<alpha> (ctx w))) \<and>
    (\<forall>q. seen (\<alpha> (ctx w')) q =
      (case sent_round L e w of
         Some (f, q') \<Rightarrow>
           if q = q' \<and> int (card (seen (\<alpha> (ctx w)) r)) \<noteq> n_of (\<alpha> (ctx w))
           then insert f (seen (\<alpha> (ctx w)) q) else seen (\<alpha> (ctx w)) q
       | None \<Rightarrow> seen (\<alpha> (ctx w)) q))"
  by (rule RoundReached_step [OF assms])

section \<open>What the setup establishes\<close>

text \<open>
  The three parts a byzantine test case works with: one replica under observation, \<open>f\<close> faulty
  ones and the rest, the first two in the order in which they were asked for.
\<close>

definition byzantine_parts :: "'k tendermint \<Rightarrow> replica list \<Rightarrow> int \<Rightarrow> int \<Rightarrow> string \<Rightarrow> string \<Rightarrow>
    string \<Rightarrow> partition option \<Rightarrow> bool" where
  "byzantine_parts T rs a b l1 l2 l3 p \<longleftrightarrow>
     (if 4 \<le> length rs \<and> length rs mod 3 = 1
      then \<exists>P. p = Some P \<and> part_is T P l1 (take (nat a) rs) \<and>
        part_is T P l2 (take (nat b) (drop (nat a) rs)) \<and> part_is T P l3 (drop (nat a + nat b) rs)
      else p = None)"

lemma create_partition_byzantine:
  fixes rs :: "replica list"
  assumes lib: "testlib_spec L \<alpha>"
    and store: "rs = lreplicas (\<alpha> (ctx w))" "store_ok T rs (lcap (\<alpha> (ctx w)))"
    and f: "f = (lcap (\<alpha> (ctx w)) - 1) sdiv 3" "(a, b) = (1, f) \<or> (a, b) = (f, 1)"
    and labels: "distinct [l1, l2, l3]"
  shows "\<exists>p. create_partition T L [a, b, 2 * f] [l1, l2, l3] w = Some p \<and>
    byzantine_parts T rs a b l1 l2 l3 p"
proof -
  let ?cap = "lcap (\<alpha> (ctx w))" and ?g = "NewGenericPartitioner (lcap (\<alpha> (ctx w))) rs"
  have cp: "create_partition T L [a, b, 2 * f] [l1, l2, l3] w =
      map_option (\<lambda>res. case res of Inl _ \<Rightarrow> None | Inr p \<Rightarrow> Some p)
        (CreatePartition T ?g [a, b, 2 * f] [l1, l2, l3])"
    by (simp add: create_partition_def context_specD [OF lib] store(1) map_conv_bind_option comp_def)
  have cap: "?cap = int (length rs)"
    using store(2) by (simp add: store_ok_def)
  have good: "4 \<le> length rs \<and> length rs mod 3 = 1 \<longleftrightarrow> 0 < f \<and> 1 + f + 2 * f = ?cap"
  proof -
    have "4 \<le> length rs \<and> length rs mod 3 = 1 \<longleftrightarrow> 4 \<le> ?cap \<and> ?cap mod 3 = 1"
      unfolding cap by presburger
    then show ?thesis
      using byzantine_sizes [of ?cap] cap f(1) by simp
  qed
  show ?thesis
  proof (cases "4 \<le> length rs \<and> length rs mod 3 = 1")
    case True
    with good f(2) have "0 < a" "0 < b" "0 < 2 * f" "a + b + 2 * f = ?cap"
      by auto
    from three_parts [OF store(2) this labels] cp True show ?thesis
      by (auto simp: byzantine_parts_def)
  next
    case False
    with good f(2) have "(\<exists>sz \<in> set [a, b, 2 * f]. sz \<le> 0) \<or> sum_list [a, b, 2 * f] \<noteq> all_Cap ?g"
      by (auto simp: NewGenericPartitioner_def)
    then obtain e where "CreatePartition T ?g [a, b, 2 * f] [l1, l2, l3] = Some (Inl e)"
      using CreatePartition_error [of "[a, b, 2 * f]" "[l1, l2, l3]" ?g T] by auto
    with cp False show ?thesis by (auto simp: byzantine_parts_def)
  qed
qed

lemma Setup_options: "Setup T L options w = Option.bind (Setup T L [] w) (foldo (\<lambda>o1. o1) options)"
  by (simp add: Setup_def foldo_append)

lemma Setup_result:
  assumes "testlib_spec L \<alpha>" and "store_ok T (lreplicas (\<alpha> (ctx w))) (lcap (\<alpha> (ctx w)))"
  shows "\<exists>w' p. Setup T L [] w = Some w' \<and> w' = w\<lparr>ctx := ctx w'\<rparr> \<and>
    \<alpha> (ctx w') = (\<alpha> (ctx w))\<lparr>lvars := (lvars (\<alpha> (ctx w)))
      (''n'' \<mapsto> VInt (lcap (\<alpha> (ctx w))), ''faults'' \<mapsto> VInt ((lcap (\<alpha> (ctx w)) - 1) sdiv 3),
       ''partition'' \<mapsto> VPartition p)\<rparr> \<and>
    byzantine_parts T (lreplicas (\<alpha> (ctx w))) 1 ((lcap (\<alpha> (ctx w)) - 1) sdiv 3)
      ''h'' ''faulty'' ''rest'' p"
proof -
  let ?f = "(lcap (\<alpha> (ctx w)) - 1) sdiv 3"
  define w1 where "w1 = set_var L ''faults'' (VInt ?f) (set_var L ''n'' (VInt (lcap (\<alpha> (ctx w)))) w)"
  have s1: "\<alpha> (ctx w1) = (\<alpha> (ctx w))\<lparr>lvars := (lvars (\<alpha> (ctx w)))
      (''n'' \<mapsto> VInt (lcap (\<alpha> (ctx w))), ''faults'' \<mapsto> VInt ?f)\<rparr>"
    by (simp add: w1_def vars_specD [OF assms(1)])
  have "\<exists>p. create_partition T L [1, ?f, 2 * ?f] [''h'', ''faulty'', ''rest''] w1 = Some p \<and>
      byzantine_parts T (lreplicas (\<alpha> (ctx w1))) 1 ?f ''h'' ''faulty'' ''rest'' p"
    by (rule create_partition_byzantine [OF assms(1) refl]) (use assms(2) s1 in auto)
  then obtain p where p: "create_partition T L [1, ?f, 2 * ?f] [''h'', ''faulty'', ''rest''] w1 = Some p"
    "byzantine_parts T (lreplicas (\<alpha> (ctx w))) 1 ?f ''h'' ''faulty'' ''rest'' p"
    using s1 by auto
  have "Setup T L [] w = Some (set_var L ''partition'' (VPartition p) w1)"
    using p(1) s1
    by (simp add: Setup_def DefaultOptions_def addFN_def common_partition_def Let_def w1_def
        context_specD [OF assms(1)] vars_specD [OF assms(1)])
  then show ?thesis
    using p(2) s1 by (auto simp: vars_specD [OF assms(1)] w1_def set_var_def)
qed

text \<open>
  C40: the common setup, on a store whose replicas can be added. It returns without panic and
  writes three variables only: the number of replicas, the number of faults, and the partition.
  With 3 f + 1 replicas, f at least 1, the partition has one replica in \<open>h\<close>, the next f in
  \<open>faulty\<close> and the others in \<open>rest\<close>; with any other number it is the nil pointer, because the
  error of the partitioner is dropped.
\<close>

theorem common_setup:
  assumes "testlib_spec L \<alpha>" and "store_ok T (lreplicas (\<alpha> (ctx w))) (lcap (\<alpha> (ctx w)))"
  shows "\<exists>w' p. Setup T L [] w = Some w' \<and> w' = w\<lparr>ctx := ctx w'\<rparr> \<and>
    \<alpha> (ctx w') = (\<alpha> (ctx w))\<lparr>lvars := (lvars (\<alpha> (ctx w)))
      (''n'' \<mapsto> VInt (lcap (\<alpha> (ctx w))), ''faults'' \<mapsto> VInt ((lcap (\<alpha> (ctx w)) - 1) sdiv 3),
       ''partition'' \<mapsto> VPartition p)\<rparr> \<and>
    byzantine_parts T (lreplicas (\<alpha> (ctx w))) 1 ((lcap (\<alpha> (ctx w)) - 1) sdiv 3)
      ''h'' ''faulty'' ''rest'' p"
  by (rule Setup_result [OF assms])

section \<open>Votes of faulty replicas\<close>

lemma find_validator_Some:
  assumes "find_validator T rs a = Some (Some r)"
  shows "r \<in> set rs" and "address_of T r = Some a"
proof -
  have "r \<in> set rs \<and> address_of T r = Some a"
    using assms
    by (induction rs) (auto simp: address_of_def split: sum.splits if_splits Option.bind_splits)
  then show "r \<in> set rs" and "address_of T r = Some a" by simp_all
qed

lemma find_validator_None:
  assumes "find_validator T rs a = Some None" and "r \<in> set rs"
  shows "address_of T r \<noteq> Some a"
  using assms
  by (induction rs) (auto simp: address_of_def split: sum.splits if_splits Option.bind_splits)

lemma find_validator_total:
  assumes "\<forall>r \<in> set rs. usable T r"
  shows "\<exists>res. find_validator T rs a = Some res"
  using assms
proof (induction rs)
  case Nil
  then show ?case by simp
next
  case (Cons r rs)
  obtain pk where pk: "GetPrivKey T (Some r) = Some pk" using GetPrivKey_Some by blast
  with Cons.prems have "pk \<noteq> Inr None" by (simp add: usable_def)
  with pk have "\<exists>res. GetReplicaAddress T (Some r) = Some res"
    by (cases pk; cases "projr pk") (auto simp: GetReplicaAddress_def)
  with Cons show ?case by (auto split: sum.splits)
qed

lemma signer_address:
  assumes "signer T r k c" and "address_of T r = Some a"
  shows "key_address T k = a"
  using assms by (simp add: signer_def address_of_def GetReplicaAddress_def)

lemma vote_validator:
  assumes "GetVoteValidator t = Some (Some a)" and "inner_vote t = Some v"
  shows "a = pv_ValidatorAddress v"
  using assms by (auto simp: GetVoteValidator_def inner_vote_def split: if_splits Option.bind_splits)

text \<open>
  C11: the handler that turns votes into votes for nil. It returns on every message of the parser.
  A sent vote whose validator is one of the replicas is replaced by the vote for nil, signed with
  the key that belongs to the validator's address: the replica is found by the address in the vote
  and not by the sender, so relayed votes are signed correctly too. If signing or encoding reports
  an error, and on anything else, nothing is delivered and the next handler is asked.
\<close>

theorem change_vote_to_nil_signed_by_owner:
  assumes tm: "signing_spec T verify" "conversion_spec T valid" "codec_spec T" "json_spec J"
    and c: "carries L w e m a t" "from_parser t"
    and reps: "\<forall>r \<in> set (Replicas_Iter L (ctx w)). usable T r \<and> Info r ''chain_id'' \<noteq> Some InfoOther"
  shows "if IsMessageSend L e \<and> (MsgType t = Prevote \<or> MsgType t = Precommit) \<and>
      (\<exists>v. inner_vote t = Some v \<and>
        (\<exists>r \<in> set (Replicas_Iter L (ctx w)). address_of T r = Some (pv_ValidatorAddress v)))
    then \<exists>out w' r v. common_ChangeVoteToNil T J L e w = Some (out, w') \<and>
      r \<in> set (Replicas_Iter L (ctx w)) \<and> inner_vote t = Some v \<and>
      address_of T r = Some (pv_ValidatorAddress v) \<and> replaced T J L verify m a t r nil_block_id w out
    else common_ChangeVoteToNil T J L e w = Some (([], False), w)"
proof (cases "IsMessageSend L e \<and> (MsgType t = Prevote \<or> MsgType t = Precommit)")
  case False
  then show ?thesis
    using carriesD [OF c(1)] by (auto simp: common_ChangeVoteToNil_def)
next
  case True
  note cd = carriesD [OF c(1)]
  obtain v where v: "inner_vote t = Some v" using well_typed_vote [OF cd(5)] True by blast
  then have "GetVote (Data t) = Some (Vote_msg (Some v))" by (rule inner_vote_GetVote)
  then have val: "GetVoteValidator t = Some (Some (pv_ValidatorAddress v))"
    using True by (auto simp: GetVoteValidator_def)
  obtain res where res: "find_validator T (Replicas_Iter L (ctx w)) (pv_ValidatorAddress v) = Some res"
    using find_validator_total [of "Replicas_Iter L (ctx w)" T] reps by blast
  note unf = common_ChangeVoteToNil_def cd(1,2,4) val res
  show ?thesis
  proof (cases res)
    case None
    then have "\<not> (\<exists>r \<in> set (Replicas_Iter L (ctx w)). address_of T r = Some (pv_ValidatorAddress v))"
      using find_validator_None res by blast
    then show ?thesis using True v None by (auto simp: unf)
  next
    case (Some r)
    note r = find_validator_Some [OF res [unfolded Some]]
    with reps have "usable T r" "Info r ''chain_id'' \<noteq> Some InfoOther" by auto
    from send_forged [OF tm cd(4) c(2) this, where L = L and m = m and b = nil_block_id]
    have "\<exists>out w'. common_ChangeVoteToNil T J L e w = Some (out, w') \<and>
        replaced T J L verify m a t r nil_block_id w out"
      using True by (auto simp: unf Some ChangeVoteToNil_def)
    with True v r show ?thesis by auto
  qed
qed

text \<open>
  What the guards of the test cases ask: a vote whose validator is one of the replicas in a part.
\<close>

definition votes_of_part :: "'k tendermint \<Rightarrow> tmessage \<Rightarrow> replica list \<Rightarrow> bool" where
  "votes_of_part T t rs \<longleftrightarrow>
     (MsgType t = Prevote \<or> MsgType t = Precommit) \<and>
     (\<exists>v. inner_vote t = Some v \<and> (\<exists>r \<in> set rs. address_of T r = Some (pv_ValidatorAddress v)))"

text \<open>
  The condition \<open>IsVoteFromPart\<close> (and \<open>IsVoteFromFaulty\<close>) on a parsed message and a
  partition that has the part: it returns, changes nothing, and holds exactly on the votes whose
  validator is a replica of the part.
\<close>

lemma is_vote_from_part:
  assumes "testlib_spec L \<alpha>" and "GetMessageFromEvent L e w = Some a" and "tmsgs w a = Some t"
    and "well_typed t" and "lvars (\<alpha> (ctx w)) ''partition'' = Some (VPartition (Some P))"
    and "part_is T P l rs"
  shows "IsVoteFromPart T L l e w = Some (votes_of_part T t rs, w) \<and>
    (l = ''faulty'' \<longrightarrow> IsVoteFromFaulty T L e w = Some (votes_of_part T t rs, w))"
proof -
  from assms(6) obtain p where p: "Partition_GetPart (Some P) l = Some (Some p)"
    "\<And>x. Part_ContainsVal (Some p) x = Some (\<exists>r \<in> set rs. address_of T r = Some x)"
    by (auto simp: part_is_def)
  have "IsVoteFromPart T L l e w = Some (votes_of_part T t rs, w)"
  proof (cases "MsgType t = Prevote \<or> MsgType t = Precommit")
    case True
    then obtain v where v: "inner_vote t = Some v" using well_typed_vote [OF assms(4)] by blast
    then have gv: "GetVote (Data t) = Some (Vote_msg (Some v))" by (rule inner_vote_GetVote)
    then have "GetVoteValidator t = Some (Some (pv_ValidatorAddress v))"
      using True gv by (auto simp: GetVoteValidator_def)
    then show ?thesis
      using True v assms(2,3,5) p
      by (auto simp: IsVoteFromPart_def common_getPartition_def vars_specD [OF assms(1)] votes_of_part_def)
  next
    case False
    then show ?thesis
      using assms(2,3) by (simp add: IsVoteFromPart_def votes_of_part_def)
  qed
  then show ?thesis by (auto simp: IsVoteFromFaulty_def)
qed

end
