(* ===== verification/Testcases.thy ===== *)
theory Testcases
  imports Common
begin

text \<open>
  How a test case is put together, as data: its setup, the edges of its state machine, its
  cascade of handlers with their guards, and its assertion. In which order the scheduler
  evaluates them is the library's: the relation \<open>run\<close> lets an event be given to any condition of
  an edge out of the current state, any guard and any handler, in any order, and lets the
  scheduler act in between. What holds of every run holds of every schedule. The frame lemmas say
  which variables a piece of code may write.
\<close>

section \<open>Test cases\<close>

text \<open>
  \<open>handlers.If(c1.And(c2)...).Then(h)\<close> is \<open>IfThen [c1, c2, ...] h\<close>; \<open>InState\<close> names a state of
  the test case's machine. \<open>IsMessageSend\<close> as a condition is the library's.
\<close>

datatype ('e, 'c) guarded =
    Handler "('e, 'c) handler"
  | IfThen "('e, 'c) condition list" "('e, 'c) handler"
  | IfInState string "('e, 'c) handler"

fun guards :: "('e, 'c) guarded \<Rightarrow> ('e, 'c) condition list" where
  "guards (Handler h) = []"
| "guards (IfThen cs h) = cs"
| "guards (IfInState s h) = []"

fun handler_of :: "('e, 'c) guarded \<Rightarrow> ('e, 'c) handler" where
  "handler_of (Handler h) = h"
| "handler_of (IfThen cs h) = h"
| "handler_of (IfInState s h) = h"

definition cond_IsMessageSend :: "('e, 'c) testlib \<Rightarrow> ('e, 'c) condition" where
  "cond_IsMessageSend L e w = Some (IsMessageSend L e, w)"

text \<open>The library's labels for the initial, the successful and the failed state.\<close>

record labels =
  StartStateLabel :: string
  SuccessStateLabel :: string
  FailStateLabel :: string

text \<open>The timeout is in nanoseconds; the setup functions of the repository return no error.\<close>

record ('e, 'c) test_case =
  tc_name :: string
  tc_timeout :: int
  tc_setup :: "'c world \<Rightarrow> 'c world option"
  tc_edges :: "(string \<times> ('e, 'c) condition \<times> string) list"
  tc_handlers :: "('e, 'c) guarded list"
  tc_assert :: "string \<Rightarrow> 'c world \<Rightarrow> bool option"

definition Second :: int where
  "Second = 1000000000"

section \<open>Runs\<close>

text \<open>
  What the scheduler may do by itself: take in messages, which the parser allocates. It does not
  write the variables or the objects behind them.
\<close>

definition scheduler_step :: "('c \<Rightarrow> 'e lib_state) \<Rightarrow> 'c world \<Rightarrow> 'c world \<Rightarrow> bool" where
  "scheduler_step \<alpha> w w' \<longleftrightarrow>
     (\<exists>f g b. \<alpha> (ctx w') = (\<alpha> (ctx w))\<lparr>lmessage := f, lpool := g, lended := b\<rparr>) \<and>
     int_maps w' = int_maps w \<and> replica_counters w' = replica_counters w \<and>
     vote_maps w' = vote_maps w \<and> vote_counts w' = vote_counts w \<and>
     next_addr w \<le> next_addr w' \<and>
     (\<forall>a t. tmsgs w a = Some t \<longrightarrow> tmsgs w' a = Some t)"

inductive run :: "('c \<Rightarrow> 'e lib_state) \<Rightarrow> string \<Rightarrow> ('e, 'c) test_case \<Rightarrow> 'c world \<Rightarrow>
    string \<Rightarrow> 'c world \<Rightarrow> bool"
  for \<alpha> start tc w0 where
  run_start: "tc_setup tc w0 = Some w \<Longrightarrow> run \<alpha> start tc w0 start w"
| run_edge: "run \<alpha> start tc w0 s w \<Longrightarrow> (s, c, s') \<in> set (tc_edges tc) \<Longrightarrow> c e w = Some (b, w') \<Longrightarrow>
    run \<alpha> start tc w0 (if b then s' else s) w'"
| run_guard: "run \<alpha> start tc w0 s w \<Longrightarrow> g \<in> set (tc_handlers tc) \<Longrightarrow> c \<in> set (guards g) \<Longrightarrow>
    c e w = Some (b, w') \<Longrightarrow> run \<alpha> start tc w0 s w'"
| run_handler: "run \<alpha> start tc w0 s w \<Longrightarrow> g \<in> set (tc_handlers tc) \<Longrightarrow>
    handler_of g e w = Some (out, w') \<Longrightarrow> run \<alpha> start tc w0 s w'"
| run_scheduler: "run \<alpha> start tc w0 s w \<Longrightarrow> scheduler_step \<alpha> w w' \<Longrightarrow> run \<alpha> start tc w0 s w'"

text \<open>An invariant of runs: it holds after the setup and every step keeps it.\<close>

lemma run_invariant [consumes 1, case_names start edge guard handler scheduler]:
  assumes "run \<alpha> start tc w0 s w"
    and "\<And>w. tc_setup tc w0 = Some w \<Longrightarrow> I start w"
    and "\<And>s w c s' e b w'. I s w \<Longrightarrow> (s, c, s') \<in> set (tc_edges tc) \<Longrightarrow> c e w = Some (b, w') \<Longrightarrow>
      I (if b then s' else s) w'"
    and "\<And>s w g c e b w'. I s w \<Longrightarrow> g \<in> set (tc_handlers tc) \<Longrightarrow> c \<in> set (guards g) \<Longrightarrow>
      c e w = Some (b, w') \<Longrightarrow> I s w'"
    and "\<And>s w g e out w'. I s w \<Longrightarrow> g \<in> set (tc_handlers tc) \<Longrightarrow> handler_of g e w = Some (out, w') \<Longrightarrow>
      I s w'"
    and "\<And>s w w'. I s w \<Longrightarrow> scheduler_step \<alpha> w w' \<Longrightarrow> I s w'"
  shows "I s w"
  using assms(1) by (induction rule: run.induct) (blast intro: assms(2-))+

section \<open>Frames\<close>

definition writes_only :: "('c \<Rightarrow> 'e lib_state) \<Rightarrow> string set \<Rightarrow> 'c world \<Rightarrow> 'c world \<Rightarrow> bool" where
  "writes_only \<alpha> K w w' \<longleftrightarrow> (\<forall>k. k \<notin> K \<longrightarrow> lvars (\<alpha> (ctx w')) k = lvars (\<alpha> (ctx w)) k)"

lemma writes_onlyD: "writes_only \<alpha> K w w' \<Longrightarrow> k \<notin> K \<Longrightarrow> lvars (\<alpha> (ctx w')) k = lvars (\<alpha> (ctx w)) k"
  by (simp add: writes_only_def)

lemma writes_only_refl [simp, intro]: "writes_only \<alpha> K w w"
  by (simp add: writes_only_def)

lemma writes_only_trans [trans]:
  "writes_only \<alpha> K w1 w2 \<Longrightarrow> writes_only \<alpha> K w2 w3 \<Longrightarrow> writes_only \<alpha> K w1 w3"
  by (simp add: writes_only_def)

lemma writes_only_mono: "writes_only \<alpha> K w w' \<Longrightarrow> K \<subseteq> K' \<Longrightarrow> writes_only \<alpha> K' w w'"
  by (auto simp: writes_only_def)

lemma scheduler_step_writes: "scheduler_step \<alpha> w w' \<Longrightarrow> writes_only \<alpha> K w w'"
  by (auto simp: scheduler_step_def writes_only_def)

lemma set_var_writes:
  "testlib_spec L \<alpha> \<Longrightarrow> k \<in> K \<Longrightarrow> writes_only \<alpha> K w (set_var L k v w)"
  by (auto simp: writes_only_def vars_specD)

text \<open>
  What most handlers do: they may write parsed messages, the library's own state and the variables
  of a given set, but nothing of the maps and counters that variables refer to. \<open>quiet\<close> is the case
  with no variable.
\<close>

definition keeps :: "('c \<Rightarrow> 'e lib_state) \<Rightarrow> string set \<Rightarrow> 'c world \<Rightarrow> 'c world \<Rightarrow> bool" where
  "keeps \<alpha> K w w' \<longleftrightarrow>
     int_maps w' = int_maps w \<and> replica_counters w' = replica_counters w \<and>
     vote_maps w' = vote_maps w \<and> vote_counts w' = vote_counts w \<and> next_addr w' = next_addr w \<and>
     (\<forall>k. k \<notin> K \<longrightarrow> lvars (\<alpha> (ctx w')) k = lvars (\<alpha> (ctx w)) k) \<and>
     lcap (\<alpha> (ctx w')) = lcap (\<alpha> (ctx w)) \<and> lreplicas (\<alpha> (ctx w')) = lreplicas (\<alpha> (ctx w))"

abbreviation quiet :: "('c \<Rightarrow> 'e lib_state) \<Rightarrow> 'c world \<Rightarrow> 'c world \<Rightarrow> bool" where
  "quiet \<alpha> \<equiv> keeps \<alpha> {}"

lemma keeps_refl [simp, intro]: "keeps \<alpha> K w w"
  by (simp add: keeps_def)

lemma keeps_trans [trans]: "keeps \<alpha> K w1 w2 \<Longrightarrow> keeps \<alpha> K w2 w3 \<Longrightarrow> keeps \<alpha> K w1 w3"
  by (auto simp: keeps_def)

lemma keeps_mono: "keeps \<alpha> K w w' \<Longrightarrow> K \<subseteq> K' \<Longrightarrow> keeps \<alpha> K' w w'"
  by (auto simp: keeps_def)

lemma keeps_writes: "keeps \<alpha> K w w' \<Longrightarrow> writes_only \<alpha> K w w'"
  by (simp add: keeps_def writes_only_def)

lemma keepsD:
  assumes "keeps \<alpha> K w w'"
  shows "k \<notin> K \<Longrightarrow> lvars (\<alpha> (ctx w')) k = lvars (\<alpha> (ctx w)) k"
    and "lcap (\<alpha> (ctx w')) = lcap (\<alpha> (ctx w))"
    and "lreplicas (\<alpha> (ctx w')) = lreplicas (\<alpha> (ctx w))"
    and "int_maps w' = int_maps w" and "replica_counters w' = replica_counters w"
    and "vote_maps w' = vote_maps w" and "vote_counts w' = vote_counts w" and "next_addr w' = next_addr w"
  using assms by (auto simp: keeps_def)

lemma keeps_set_var: "testlib_spec L \<alpha> \<Longrightarrow> k \<in> K \<Longrightarrow> keeps \<alpha> K w (set_var L k v w)"
  by (auto simp: keeps_def vars_specD)

lemma keeps_tmsgs: "keeps \<alpha> K w (w\<lparr>tmsgs := h\<rparr>)"
  by (simp add: keeps_def)

lemma keeps_ctx:
  assumes "lvars (\<alpha> c) = lvars (\<alpha> (ctx w))" and "lcap (\<alpha> c) = lcap (\<alpha> (ctx w))"
    and "lreplicas (\<alpha> c) = lreplicas (\<alpha> (ctx w))"
  shows "keeps \<alpha> K w (w\<lparr>ctx := c\<rparr>)"
  using assms by (simp add: keeps_def)

lemma keeps_NewMessage:
  assumes "testlib_spec L \<alpha>" and "NewMessage L (ctx w) m bs = (m', c)"
  shows "keeps \<alpha> K w (w\<lparr>ctx := c\<rparr>)"
  using context_specD(6) [OF assms(1), of "ctx w" m bs] assms(2) by (auto intro!: keeps_ctx)

lemma keeps_library:
  assumes "testlib_spec L \<alpha>"
  shows "keeps \<alpha> K w (w\<lparr>ctx := Store_Add L (ctx w) s m\<rparr>)"
    and "keeps \<alpha> K w (w\<lparr>ctx := Store_Remove L (ctx w) s i\<rparr>)"
    and "keeps \<alpha> K w (w\<lparr>ctx := Abort L (ctx w)\<rparr>)"
    and "keeps \<alpha> K w (w\<lparr>ctx := EndTestCase L (ctx w)\<rparr>)"
  using stores_specD(7) [OF assms, of "ctx w" s m] stores_specD(8) [OF assms, of "ctx w" s i]
  by (auto intro!: keeps_ctx simp: context_specD [OF assms])

lemma keeps_end:
  assumes "testlib_spec L \<alpha>" and "keeps \<alpha> K w w1"
  shows "keeps \<alpha> K w (abort_test L w1)" and "keeps \<alpha> K w (end_test L w1)"
  using keeps_trans [OF assms(2) keeps_library(3) [OF assms(1)]]
    keeps_trans [OF assms(2) keeps_library(4) [OF assms(1)]]
  by (simp_all add: abort_test_def end_test_def)

lemma keeps_put_tmsg: "keeps \<alpha> K w (put_tmsg a t w)"
  unfolding put_tmsg_def by (rule keeps_tmsgs)

lemma keeps_ChangeVote: "ChangeVote T r a b w = Some (out, w') \<Longrightarrow> keeps \<alpha> K w w'"
  by (auto simp: ChangeVote_def put_vote_def Let_def intro: keeps_put_tmsg
      split: sum.splits if_splits Option.bind_splits)

lemma keeps_ChangeVoteToNil: "ChangeVoteToNil T r a w = Some (out, w') \<Longrightarrow> keeps \<alpha> K w w'"
  by (simp add: ChangeVoteToNil_def keeps_ChangeVote)

lemma keeps_ChangeVoteTime: "ChangeVoteTime T r a tm w = Some (out, w') \<Longrightarrow> keeps \<alpha> K w w'"
  by (auto simp: ChangeVoteTime_def put_vote_def Let_def intro: keeps_put_tmsg
      split: sum.splits if_splits Option.bind_splits)

lemma keeps_ChangeProposalBlockID:
  "ChangeProposalBlockID T r a w = Some (out, w') \<Longrightarrow> keeps \<alpha> K w w'"
  by (auto simp: ChangeProposalBlockID_def put_proposal_def Let_def intro: keeps_put_tmsg
      split: sum.splits if_splits Option.bind_splits)

lemma keeps_Marshal: "Marshal T J a w = Some (out, w') \<Longrightarrow> keeps \<alpha> K w w'"
  by (auto simp: Marshal_def Let_def intro: keeps_put_tmsg split: sum.splits Option.bind_splits)

lemmas keeps_forge [frames] = keeps_ChangeVoteToNil keeps_ChangeVote keeps_ChangeVoteTime
  keeps_ChangeProposalBlockID keeps_Marshal

text \<open>A filter that returns has found no message, or ran its body on the message and its round.\<close>

lemma message_filterE:
  assumes "(case message_of L e w of None \<Rightarrow> Some (out0, w)
      | Some (m, a) \<Rightarrow> Option.bind (tmsgs w a) (\<lambda>t. Option.bind (Round t) (B m t))) = Some (out, w')"
  obtains "w' = w" "out = out0"
    | m a t r where "message_of L e w = Some (m, a)" "tmsgs w a = Some t" "Round t = Some r"
        "B m t r = Some (out, w')"
  using assms by (auto simp: Option.bind_eq_Some_conv split: option.splits)

text \<open>Forging a message, encoding it and making a message of the scheduler of it.\<close>

lemma keeps_replace_message:
  assumes "testlib_spec L \<alpha>" and "keeps \<alpha> K w w1" and "Marshal T J a w1 = Some (out, w2)"
    and "NewMessage L (ctx w2) m bs = (m', c)"
  shows "keeps \<alpha> K w (w2\<lparr>ctx := c\<rparr>)"
  using keeps_trans [OF keeps_trans [OF assms(2) keeps_Marshal [OF assms(3)]]
      keeps_NewMessage [OF assms(1,4)]] .

lemma updateRoundCount_writes:
  assumes "testlib_spec L \<alpha>" and "updateRoundCount L key trk r f w = Some (m, w')" and "key \<in> K"
  shows "writes_only \<alpha> K w w'"
  using assms(2,3)
  by (auto simp: updateRoundCount_def Let_def writes_only_def vars_specD [OF assms(1)]
      split: Option.bind_splits option.splits var_value.splits)

text \<open>What the map behind a key depends on.\<close>

lemma round_count_keeps:
  assumes "keeps \<alpha> K w w' \<and> key \<notin> K \<or> scheduler_step \<alpha> w w'"
  shows "round_count \<alpha> key w' = round_count \<alpha> key w"
proof -
  have "lvars (\<alpha> (ctx w')) key = lvars (\<alpha> (ctx w)) key" "int_maps w' = int_maps w"
    using assms by (auto simp: keeps_def scheduler_step_def)
  then show ?thesis
    by (simp add: round_count_def split: option.split var_value.split)
qed

lemma scheduler_stepD:
  assumes "scheduler_step \<alpha> w w'"
  shows "lvars (\<alpha> (ctx w')) = lvars (\<alpha> (ctx w))" and "lcap (\<alpha> (ctx w')) = lcap (\<alpha> (ctx w))"
    and "lreplicas (\<alpha> (ctx w')) = lreplicas (\<alpha> (ctx w))"
    and "int_maps w' = int_maps w" and "replica_counters w' = replica_counters w"
    and "vote_maps w' = vote_maps w" and "vote_counts w' = vote_counts w"
  using assms by (auto simp: scheduler_step_def)

end
