(* ===== verification/Rskip.thy ===== *)
theory Rskip
  imports Testcases
begin

text \<open>
  The package \<open>testcases/rskip\<close>: the test case that delays and changes prevotes until every
  replica has skipped to a given round (\<open>one.go\<close>), and the one that keeps prevotes back so that
  nobody makes progress (\<open>blocking.go\<close>).
\<close>

section \<open>Conditions\<close>

definition heightReached :: "('e, 'c) testlib \<Rightarrow> int \<Rightarrow> ('e, 'c) condition" where
  "heightReached L height e w =
     (if \<not> IsMessageSend L e then Some (False, w)
      else case GetParsedMessage (GetMessage L (ctx w) e) of
        None \<Rightarrow> Some (False, w)
      | Some a \<Rightarrow> do {
          tMsg \<leftarrow> tmsgs w a;
          mHeight \<leftarrow> Height tMsg;
          Some (height \<le> mHeight, w) })"

text \<open>The sender is the one of the scheduler's message, not of the parsed one.\<close>

definition rskip_roundReached :: "('e, 'c) testlib \<Rightarrow> int \<Rightarrow> ('e, 'c) condition" where
  "rskip_roundReached L toRound e w =
     (if \<not> IsMessageSend L e then Some (False, w)
      else case GetMessage L (ctx w) e of
        None \<Rightarrow> Some (False, w)
      | Some message \<Rightarrow> (case GetParsedMessage (Some message) of
        None \<Rightarrow> Some (False, w)
      | Some a \<Rightarrow> do {
          tMsg \<leftarrow> tmsgs w a;
          round \<leftarrow> Round tMsg;
          (roundCount, w1) \<leftarrow> updateRoundCount L ''roundCount'' track_round round (msg_From message) w;
          let skipped = count_reached toRound roundCount;
          Some (if skipped = Replicas_Cap L (ctx w1)
                then (True, set_var L ''CurRound'' (VInt toRound) w1)
                else (False, w1)) }))"

section \<open>Setup\<close>

definition rskip_setupFunc :: "'k tendermint \<Rightarrow> ('e, 'c) testlib \<Rightarrow> 'c world \<Rightarrow> 'c world option" where
  "rskip_setupFunc T L w = do {
     let faults = (Replicas_Cap L (ctx w) - 1) sdiv 3;
     p \<leftarrow> create_partition T L [1, faults, 2 * faults] [''honestDelayed'', ''faulty'', ''rest''] w;
     let w1 = set_var L ''partition'' (VPartition p) w;
     (case NewMessageStore L (ctx w1) of (s, c) \<Rightarrow>
        Some (set_var L ''delayedMessages'' (VMessageStore s) (w1\<lparr>ctx := c\<rparr>))) }"

text \<open>The type assertions have no comma-ok.\<close>

definition rskip_getPartition :: "('e, 'c) testlib \<Rightarrow> 'c world \<Rightarrow> partition option option" where
  "rskip_getPartition L w =
     (case Vars_Get L (ctx w) ''partition'' of Some (VPartition p) \<Rightarrow> Some p | _ \<Rightarrow> None)"

definition getDelayedMStore :: "('e, 'c) testlib \<Rightarrow> 'c world \<Rightarrow> addr option" where
  "getDelayedMStore L w =
     (case Vars_Get L (ctx w) ''delayedMessages'' of Some (VMessageStore s) \<Rightarrow> Some s | _ \<Rightarrow> None)"

definition noDelayedMessagesCond :: "('e, 'c) testlib \<Rightarrow> ('e, 'c) condition" where
  "noDelayedMessagesCond L e w = do {
     s \<leftarrow> getDelayedMStore L w;
     Some (Store_Size L (ctx w) s = 0, w) }"

section \<open>Filters\<close>

definition rskip_changeVoteFilter :: "'k tendermint \<Rightarrow> json \<Rightarrow> ('e, 'c) testlib \<Rightarrow> int \<Rightarrow> int \<Rightarrow>
    ('e, 'c) handler" where
  "rskip_changeVoteFilter T J L height round e w =
     (if \<not> IsMessageSend L e then Some (([], True), w)
      else case GetMessage L (ctx w) e of
        None \<Rightarrow> Some (([], False), w)
      | Some message \<Rightarrow> (case GetParsedMessage (Some message) of
        None \<Rightarrow> Some (([], False), w)
      | Some a \<Rightarrow> do {
          tMsg \<leftarrow> tmsgs w a;
          (if MsgType tMsg \<noteq> Prevote then Some (([Some message], False), w)
           else do {
             (h, r) \<leftarrow> HeightRound tMsg;
             (if h \<noteq> height \<or> round \<le> r \<or> r < 0 then Some (([Some message], True), w)
              else do {
                ptn \<leftarrow> rskip_getPartition L w;
                rest \<leftarrow> Partition_GetPart ptn ''rest'';
                faulty \<leftarrow> Partition_GetPart ptn ''faulty'';
                inRest \<leftarrow> Part_Contains rest (msg_From message);
                (if inRest then Some (([Some message], True), w)
                 else do {
                   inFaulty \<leftarrow> Part_Contains faulty (msg_From message);
                   (if inFaulty then
                      (case Replicas_Get L (ctx w) (msg_From message) of
                         None \<Rightarrow> Some (([], False), w)
                       | Some replica \<Rightarrow> do {
                           ((newvote, err), w1) \<leftarrow> ChangeVoteToNil T (Some replica) a w;
                           (if err \<noteq> None then Some (([], False), w1)
                            else do {
                              a' \<leftarrow> newvote;
                              (data, w2) \<leftarrow> Marshal T J a' w1;
                              (case data of
                                 Inl _ \<Rightarrow> Some (([], False), w2)
                               | Inr bs \<Rightarrow>
                                   (case NewMessage L (ctx w2) message bs of (m', c) \<Rightarrow>
                                      Some (([Some m'], True), w2\<lparr>ctx := c\<rparr>))) }) })
                    else do {
                      delayedM \<leftarrow> getDelayedMStore L w;
                      Some (([], True), w\<lparr>ctx := Store_Add L (ctx w) delayedM message\<rparr>) }) }) }) }) }))"

text \<open>
  The loop of \<open>deliverDelayedFilter\<close>: the slice has the size the store had, an index beyond it
  panics, and entries that are not reached stay nil. \<open>Iter\<close> returns a slice, so removing while
  iterating does not change what is visited.
\<close>

fun deliver_loop :: "('e, 'c) testlib \<Rightarrow> addr \<Rightarrow> nat \<Rightarrow> message list \<Rightarrow> message option list \<Rightarrow>
    'c world \<Rightarrow> (message option list \<times> 'c world) option" where
  "deliver_loop L s i [] messages w = Some (messages, w)"
| "deliver_loop L s i (m # ms) messages w =
     (if length messages \<le> i then None
      else deliver_loop L s (Suc i) ms (messages[i := Some m])
             (w\<lparr>ctx := Store_Remove L (ctx w) s (msg_ID m)\<rparr>))"

definition deliverDelayedFilter :: "('e, 'c) testlib \<Rightarrow> ('e, 'c) handler" where
  "deliverDelayedFilter L e w =
     (if \<not> IsMessageSend L e then Some (([], True), w)
      else case MessagePool_Get L (ctx w) (MessageID L e) of
        None \<Rightarrow> Some (([], False), w)
      | Some message \<Rightarrow> do {
          delayedM \<leftarrow> getDelayedMStore L w;
          (if Store_Size L (ctx w) delayedM = 0 then Some (([Some message], True), w)
           else if Store_Size L (ctx w) delayedM < 0 then None
           else do {
             let messages = replicate (nat (Store_Size L (ctx w) delayedM)) None;
             (messages', w1) \<leftarrow> deliver_loop L delayedM 0 (Store_Iter L (ctx w) delayedM) messages w;
             Some ((messages' @ [Some message], True), w1) }) })"

section \<open>The test case of \<open>one.go\<close>\<close>

definition rskip_OneTestcase :: "'k tendermint \<Rightarrow> json \<Rightarrow> ('e, 'c) testlib \<Rightarrow> labels \<Rightarrow> int \<Rightarrow> int \<Rightarrow>
    ('e, 'c) test_case" where
  "rskip_OneTestcase T J L lb height round = \<lparr>
     tc_name = ''RoundSkipPrevote'',
     tc_timeout = 30 * Second,
     tc_setup = rskip_setupFunc T L,
     tc_edges =
       [(StartStateLabel lb, heightReached L height, ''delayAndChangeVotes''),
        (''delayAndChangeVotes'', rskip_roundReached L round, ''deliverDelayed''),
        (''deliverDelayed'', noDelayedMessagesCond L, SuccessStateLabel lb)],
     tc_handlers =
       [Handler (rskip_changeVoteFilter T J L height round),
        IfInState ''deliverDelayed'' (deliverDelayedFilter L)],
     tc_assert = (\<lambda>s w.
       Some (case Vars_GetInt L (ctx w) ''CurRound'' of Some curRound \<Rightarrow> curRound = round | None \<Rightarrow> False))\<rparr>"

section \<open>The test case of \<open>blocking.go\<close>\<close>

definition commit_or_round1 :: "('e, 'c) testlib \<Rightarrow> ('e, 'c) condition" where
  "commit_or_round1 L e w =
     (let committing = (case event_Type L e of
          GenericEventType ty _ \<Rightarrow> ty = ''Committing block'' | OtherEventType \<Rightarrow> False)
      in if IsMessageSend L e then
           (case GetMessageFromEvent L e w of
              None \<Rightarrow> Some (False, w)
            | Some a \<Rightarrow> do {
                t \<leftarrow> tmsgs w a;
                r \<leftarrow> Round t;
                Some (if 0 < r then True else committing, w) })
         else Some (committing, w))"

text \<open>
  The type \<open>counter\<close> is a map under a lock that each method holds; a missing entry counts as 0.
\<close>

definition counter_Count :: "(string, int) gomap \<Rightarrow> string \<Rightarrow> int" where
  "counter_Count counts r = (case map_of counts r of None \<Rightarrow> 0 | Some c \<Rightarrow> c)"

definition counter_Incr :: "string \<Rightarrow> (string, int) gomap \<Rightarrow> (string, int) gomap" where
  "counter_Incr r counts =
     (case map_of counts r of
        None \<Rightarrow> AList.update r 1 counts
      | Some c \<Rightarrow> AList.update r (c + 1) counts)"

definition newCounter :: "'c world \<Rightarrow> addr \<times> 'c world" where
  "newCounter w =
     (next_addr w,
      w\<lparr>replica_counters := (replica_counters w)(next_addr w \<mapsto> []), next_addr := Suc (next_addr w)\<rparr>)"

interpretation counter: quota counter_Count counter_Incr
  by unfold_locales (auto simp: counter_Count_def counter_Incr_def split: option.splits)

definition filter_less_than_n_minus_f :: "('e, 'c) testlib \<Rightarrow> ('e, 'c) handler" where
  "filter_less_than_n_minus_f L e w =
     (if \<not> IsMessageSend L e then Some (([], True), w)
      else case GetMessage L (ctx w) e of
        None \<Rightarrow> Some (([], False), w)
      | Some message \<Rightarrow> (case GetParsedMessage (Some message) of
        None \<Rightarrow> Some (([], False), w)
      | Some a \<Rightarrow> do {
          tMsg \<leftarrow> tmsgs w a;
          (if MsgType tMsg \<noteq> Prevote then Some (([Some message], False), w)
           else do {
             let w1 = (if \<not> Vars_Exists L (ctx w) ''msgCounter''
                       then (case newCounter w of (ctr, w0) \<Rightarrow>
                               set_var L ''msgCounter'' (VReplicaCounter ctr) w0)
                       else w);
             ctrI \<leftarrow> Vars_Get L (ctx w1) ''msgCounter'';
             ctr \<leftarrow> (case ctrI of VReplicaCounter ctr \<Rightarrow> Some ctr | _ \<Rightarrow> None);
             counts \<leftarrow> replica_counters w1 ctr;
             let n = Replicas_Cap L (ctx w1);
             let f = n sdiv 3;
             let count = counter_Count counts (msg_To message);
             (if count < f + 1 then do {
                delayedM \<leftarrow> getDelayedMStore L w1;
                let w2 = w1\<lparr>ctx := Store_Add L (ctx w1) delayedM message\<rparr>;
                Some (([], True), w2\<lparr>replica_counters :=
                  (replica_counters w2)(ctr \<mapsto> counter_Incr (msg_To message) counts)\<rparr>) }
              else Some (([Some message], True), w1)) }) }))"

definition rskip_BlockingTestcase :: "'k tendermint \<Rightarrow> ('e, 'c) testlib \<Rightarrow> labels \<Rightarrow> ('e, 'c) test_case" where
  "rskip_BlockingTestcase T L lb = \<lparr>
     tc_name = ''BlockingTestCase'',
     tc_timeout = 30 * Second,
     tc_setup = rskip_setupFunc T L,
     tc_edges = [(StartStateLabel lb, commit_or_round1 L, FailStateLabel lb)],
     tc_handlers = [Handler (filter_less_than_n_minus_f L), Handler (deliverDelayedFilter L)],
     tc_assert = (\<lambda>s w.
       Some (case Vars_GetBool L (ctx w) ''cmr1'' of Some cmr1 \<Rightarrow> \<not> cmr1 | None \<Rightarrow> True))\<rparr>"

section \<open>Every replica has reached a round\<close>

lemma rskip_roundReached_step:
  assumes lib: "testlib_spec L \<alpha>" and "IsMessageSend L e" and c: "carries L w e m a t"
    and "Round t = Some r" and ok: "round_count_ok \<alpha> ''roundCount'' w"
  shows "\<exists>w'. rskip_roundReached L toRound e w =
      Some (count_reached toRound (track_round (msg_From m) r (round_count \<alpha> ''roundCount'' w)) =
        lcap (\<alpha> (ctx w)), w') \<and>
    round_count \<alpha> ''roundCount'' w' = track_round (msg_From m) r (round_count \<alpha> ''roundCount'' w) \<and>
    round_count_ok \<alpha> ''roundCount'' w' \<and> tmsgs w' = tmsgs w \<and>
    lmessage (\<alpha> (ctx w')) = lmessage (\<alpha> (ctx w)) \<and> lcap (\<alpha> (ctx w')) = lcap (\<alpha> (ctx w))"
proof -
  obtain x w1 where u: "updateRoundCount L ''roundCount'' track_round r (msg_From m) w =
      Some (track_round (msg_From m) r (round_count \<alpha> ''roundCount'' w), w1)"
    "round_count \<alpha> ''roundCount'' w1 = track_round (msg_From m) r (round_count \<alpha> ''roundCount'' w)"
    "round_count_ok \<alpha> ''roundCount'' w1"
    "\<alpha> (ctx w1) = (\<alpha> (ctx w))\<lparr>lvars := (lvars (\<alpha> (ctx w)))(''roundCount'' \<mapsto> VIntMap x)\<rparr>"
    "tmsgs w1 = tmsgs w"
    by (rule update_track_round [OF lib ok])
  then show ?thesis
    using assms(2,4) carriesD [OF c]
    by (auto simp: rskip_roundReached_def Let_def context_specD [OF lib] vars_specD [OF lib]
        round_count_def round_count_ok_def)
qed

lemma rskip_roundReached_CurRound:
  assumes lib: "testlib_spec L \<alpha>" and "rskip_roundReached L toRound e w = Some (b, w')"
  shows "lvars (\<alpha> (ctx w')) ''CurRound'' =
    (if b then Some (VInt toRound) else lvars (\<alpha> (ctx w)) ''CurRound'')"
    and "writes_only \<alpha> {''roundCount'', ''CurRound''} w w'"
proof -
  have "writes_only \<alpha> {''roundCount''} w w1"
    if "updateRoundCount L ''roundCount'' track_round r f w = Some (m, w1)" for r f m w1
    using updateRoundCount_writes [OF lib that] by simp
  then show "lvars (\<alpha> (ctx w')) ''CurRound'' =
      (if b then Some (VInt toRound) else lvars (\<alpha> (ctx w)) ''CurRound'')"
    and "writes_only \<alpha> {''roundCount'', ''CurRound''} w w'"
    using assms(2)
    by (fastforce simp: rskip_roundReached_def Let_def writes_only_def vars_specD [OF lib]
        split: if_splits option.splits Option.bind_splits prod.splits)+
qed

text \<open>
  C9: the condition \<open>roundReached\<close> of the round-skip test, over any sequence of sends. It
  returns on each; the answer to the i-th is positive exactly when the replicas that have by then
  sent a message of a round at least \<open>toRound\<close> are as many as there are replicas; and the
  variable \<open>CurRound\<close> is written when and only when the answer is positive.
\<close>

theorem rskip_round_reached:
  assumes "testlib_spec L \<alpha>" and "lvars (\<alpha> (ctx w)) ''roundCount'' = None"
    and "\<forall>e \<in> set es. IsMessageSend L e \<and> (\<exists>a t. carries L w e (msg e) a t \<and> Round t = Some (rnd e))"
  shows "\<exists>bs w'. answers (rskip_roundReached L toRound) es w = Some (bs, w') \<and>
    length bs = length es \<and>
    (\<forall>i < length es. bs ! i \<longleftrightarrow>
      int (card (replicas_at toRound (map (\<lambda>e. (msg_From (msg e), rnd e)) (take (Suc i) es)))) =
      lcap (\<alpha> (ctx w))) \<and>
    lvars (\<alpha> (ctx w')) ''CurRound'' =
      (if True \<in> set bs then Some (VInt toRound) else lvars (\<alpha> (ctx w)) ''CurRound'')"
proof -
  let ?I = "\<lambda>w1. round_count_ok \<alpha> ''roundCount'' w1 \<and> tmsgs w1 = tmsgs w \<and>
    lmessage (\<alpha> (ctx w1)) = lmessage (\<alpha> (ctx w)) \<and> lcap (\<alpha> (ctx w1)) = lcap (\<alpha> (ctx w))"
  have step: "\<exists>w2. rskip_roundReached L toRound e w1 =
      Some (count_reached toRound (track_round f r (round_count \<alpha> ''roundCount'' w1)) =
        lcap (\<alpha> (ctx w)), w2) \<and>
      round_count \<alpha> ''roundCount'' w2 = track_round f r (round_count \<alpha> ''roundCount'' w1) \<and> ?I w2"
    if e: "e \<in> set es" and I: "?I w1" and fr: "(msg_From (msg e), rnd e) = (f, r)" for e f r w1
  proof -
    from e assms(3) obtain a t where c: "IsMessageSend L e" "carries L w e (msg e) a t"
      "Round t = Some (rnd e)" by blast
    with I have c': "carries L w1 e (msg e) a t"
      using carries_keep [OF assms(1), of w1 w] by simp
    show ?thesis
      using rskip_roundReached_step [OF assms(1) c(1) c' c(3) conjunct1 [OF I], of toRound] I fr
      by auto
  qed
  have "\<exists>bs w'. answers (rskip_roundReached L toRound) es w = Some (bs, w') \<and> ?I w' \<and>
      length bs = length es \<and> (\<forall>i < length es. bs ! i \<longleftrightarrow>
        int (card (replicas_at toRound ([] @ map (\<lambda>e. (msg_From (msg e), rnd e)) (take (Suc i) es)))) =
        lcap (\<alpha> (ctx w)))"
    by (rule answers_track_rounds [where E = "set es" and rc = "round_count \<alpha> ''roundCount''"])
      (rule step, assumption+, use round_count_ok_new [of \<alpha> w "''roundCount''", OF assms(2)] in simp_all)
  then obtain bs w' where run: "answers (rskip_roundReached L toRound) es w = Some (bs, w')"
    "length bs = length es" "\<forall>i < length es. bs ! i \<longleftrightarrow>
      int (card (replicas_at toRound ([] @ map (\<lambda>e. (msg_From (msg e), rnd e)) (take (Suc i) es)))) =
      lcap (\<alpha> (ctx w))"
    by (elim exE conjE) (rule that)
  have "lvars (\<alpha> (ctx w')) ''CurRound'' =
      (if True \<in> set bs then Some (VInt toRound) else lvars (\<alpha> (ctx w)) ''CurRound'')"
    using run(1)
  proof (induction es arbitrary: w bs)
    case Nil
    then show ?case by simp
  next
    case (Cons e es)
    then obtain b w1 bs1 where s: "rskip_roundReached L toRound e w = Some (b, w1)"
      "answers (rskip_roundReached L toRound) es w1 = Some (bs1, w')" "bs = b # bs1"
      by (auto split: Option.bind_splits)
    with Cons.IH [OF s(2)] rskip_roundReached_CurRound(1) [OF assms(1) s(1)] show ?case by auto
  qed
  with run show ?thesis by auto
qed

section \<open>Delaying and changing votes\<close>

text \<open>
  C3: the filter of the round-skip test on every branch, once the setup has run. A message that
  is not a prevote is passed on and left to the next handler. A prevote of another height, of a
  round that need not be skipped, or sent by one of the rest, is delivered. A prevote of a faulty
  sender is replaced by its vote for nil, signed by the sender; when the sender is unknown, or
  signing or encoding reports an error, nothing is delivered and the next handler is asked. Any
  other prevote is delivered to nobody and kept in the store.
\<close>

theorem delay_and_change_votes:
  assumes lib: "testlib_spec L \<alpha>" and tm: "signing_spec T verify" "conversion_spec T valid"
      "codec_spec T" "json_spec J"
    and send: "IsMessageSend L e" "carries L w e m a t" "from_parser t" "HeightRound t = Some (h, r)"
    and vars: "lvars (\<alpha> (ctx w)) ''partition'' = Some (VPartition (Some P))"
      "part_is T P ''rest'' rest" "part_is T P ''faulty'' faulty"
      "lvars (\<alpha> (ctx w)) ''delayedMessages'' = Some (VMessageStore s)"
      "lstores (\<alpha> (ctx w)) s = Some ds"
    and reps: "\<forall>rep \<in> set (lreplicas (\<alpha> (ctx w))). usable T rep \<and> Info rep ''chain_id'' \<noteq> Some InfoOther"
  shows "(MsgType t \<noteq> Prevote \<longrightarrow>
      rskip_changeVoteFilter T J L height round e w = Some (([Some m], False), w)) \<and>
    (MsgType t = Prevote \<longrightarrow> h \<noteq> height \<or> round \<le> r \<or> r < 0 \<or> msg_From m \<in> ID ` set rest \<longrightarrow>
      rskip_changeVoteFilter T J L height round e w = Some (([Some m], True), w)) \<and>
    (MsgType t = Prevote \<longrightarrow> h = height \<and> r < round \<and> 0 \<le> r \<and> msg_From m \<notin> ID ` set rest \<longrightarrow>
      (if msg_From m \<in> ID ` set faulty then
         (case find (\<lambda>rep. ID rep = msg_From m) (lreplicas (\<alpha> (ctx w))) of
            None \<Rightarrow> rskip_changeVoteFilter T J L height round e w = Some (([], False), w)
          | Some rep \<Rightarrow> \<exists>out w'. rskip_changeVoteFilter T J L height round e w = Some (out, w') \<and>
              replaced T J L verify m a t rep nil_block_id w out)
       else \<exists>ds' w'. rskip_changeVoteFilter T J L height round e w = Some (([], True), w') \<and>
         store_added m ds ds' \<and>
         \<alpha> (ctx w') = (\<alpha> (ctx w))\<lparr>lstores := (lstores (\<alpha> (ctx w)))(s \<mapsto> ds')\<rparr>))"
proof -
  note c = carriesD [OF send(2)]
  obtain pr pf where parts: "Partition_GetPart (Some P) ''rest'' = Some (Some pr)"
    "\<And>i. Part_Contains (Some pr) i = Some (i \<in> ID ` set rest)"
    "Partition_GetPart (Some P) ''faulty'' = Some (Some pf)"
    "\<And>i. Part_Contains (Some pf) i = Some (i \<in> ID ` set faulty)"
    using vars(2,3) by (auto simp: part_is_def)
  note unf = rskip_changeVoteFilter_def send(1,4) c(1,2,4) rskip_getPartition_def getDelayedMStore_def
    vars_specD(1) [OF lib] vars(1,4) parts context_specD(5) [OF lib]
  let ?run = "rskip_changeVoteFilter T J L height round e w"
  let ?rep = "find (\<lambda>rep. ID rep = msg_From m) (lreplicas (\<alpha> (ctx w)))"
  show ?thesis
  proof (intro conjI impI)
    show "?run = Some (([Some m], False), w)" if "MsgType t \<noteq> Prevote"
      using that by (simp add: unf)
    show "?run = Some (([Some m], True), w)" if "MsgType t = Prevote"
      "h \<noteq> height \<or> round \<le> r \<or> r < 0 \<or> msg_From m \<in> ID ` set rest"
      using that by (auto simp: unf)
    assume prevote: "MsgType t = Prevote"
      and skip: "h = height \<and> r < round \<and> 0 \<le> r \<and> msg_From m \<notin> ID ` set rest"
    have store: "\<exists>ds'. store_added m ds ds' \<and>
        \<alpha> (Store_Add L (ctx w) s m) = (\<alpha> (ctx w))\<lparr>lstores := (lstores (\<alpha> (ctx w)))(s \<mapsto> ds')\<rparr>"
      by (rule stores_specD(5) [OF lib vars(5)])
    have forged: "\<exists>out w'. ?run = Some (out, w') \<and> replaced T J L verify m a t rep nil_block_id w out"
      if "msg_From m \<in> ID ` set faulty" "?rep = Some rep" for rep
    proof -
      have "rep \<in> set (lreplicas (\<alpha> (ctx w)))" using that(2) by (auto simp: find_Some_iff)
      with reps have "usable T rep" "Info rep ''chain_id'' \<noteq> Some InfoOther" by auto
      from send_forged [OF tm c(4) send(3) this, where L = L and m = m and b = nil_block_id] show ?thesis
        using that prevote skip by (auto simp: unf ChangeVoteToNil_def)
    qed
    show "if msg_From m \<in> ID ` set faulty then
         (case ?rep of
            None \<Rightarrow> ?run = Some (([], False), w)
          | Some rep \<Rightarrow> \<exists>out w'. ?run = Some (out, w') \<and> replaced T J L verify m a t rep nil_block_id w out)
       else \<exists>ds' w'. ?run = Some (([], True), w') \<and> store_added m ds ds' \<and>
         \<alpha> (ctx w') = (\<alpha> (ctx w))\<lparr>lstores := (lstores (\<alpha> (ctx w)))(s \<mapsto> ds')\<rparr>"
    proof (cases "msg_From m \<in> ID ` set faulty")
      case False
      with store prevote skip show ?thesis by (simp add: unf)
    next
      case True
      with prevote skip forged show ?thesis by (cases ?rep) (simp_all add: unf)
    qed
  qed
qed

section \<open>Delivering what was delayed\<close>

lemma deliver_loop_spec:
  assumes lib: "testlib_spec L \<alpha>" and "lstores (\<alpha> (ctx w)) s = Some st"
    and "length messages = i + length ms"
  shows "\<exists>w' st'. deliver_loop L s i ms messages w = Some (take i messages @ map Some ms, w') \<and>
    \<alpha> (ctx w') = (\<alpha> (ctx w))\<lparr>lstores := (lstores (\<alpha> (ctx w)))(s \<mapsto> st')\<rparr> \<and>
    (st' = st \<or> distinct (map msg_ID st')) \<and>
    set st' = {x \<in> set st. msg_ID x \<notin> msg_ID ` set ms} \<and> tmsgs w' = tmsgs w"
  using assms(2,3)
proof (induction ms arbitrary: i messages w st)
  case Nil
  have "(lstores (\<alpha> (ctx w)))(s \<mapsto> st) = lstores (\<alpha> (ctx w))"
    using Nil by (intro ext) simp
  with Nil show ?case by (intro exI [of _ w] exI [of _ st]) (simp del: fun_upd_apply)
next
  case (Cons m ms)
  let ?w1 = "w\<lparr>ctx := Store_Remove L (ctx w) s (msg_ID m)\<rparr>"
  obtain st1 where st1: "store_removed (msg_ID m) st st1"
    "\<alpha> (ctx ?w1) = (\<alpha> (ctx w))\<lparr>lstores := (lstores (\<alpha> (ctx w)))(s \<mapsto> st1)\<rparr>"
    using stores_specD(6) [OF lib Cons.prems(1), of "msg_ID m"] by auto
  have "\<exists>w' st'. deliver_loop L s (Suc i) ms (messages[i := Some m]) ?w1 =
        Some (take (Suc i) (messages[i := Some m]) @ map Some ms, w') \<and>
      \<alpha> (ctx w') = (\<alpha> (ctx ?w1))\<lparr>lstores := (lstores (\<alpha> (ctx ?w1)))(s \<mapsto> st')\<rparr> \<and>
      (st' = st1 \<or> distinct (map msg_ID st')) \<and>
      set st' = {x \<in> set st1. msg_ID x \<notin> msg_ID ` set ms} \<and> tmsgs w' = tmsgs ?w1"
    by (rule Cons.IH) (use st1(2) Cons.prems(2) in auto)
  then obtain w' st' where rest: "deliver_loop L s (Suc i) ms (messages[i := Some m]) ?w1 =
      Some (take (Suc i) (messages[i := Some m]) @ map Some ms, w')"
    "\<alpha> (ctx w') = (\<alpha> (ctx ?w1))\<lparr>lstores := (lstores (\<alpha> (ctx ?w1)))(s \<mapsto> st')\<rparr>"
    "st' = st1 \<or> distinct (map msg_ID st')"
    "set st' = {x \<in> set st1. msg_ID x \<notin> msg_ID ` set ms}" "tmsgs w' = tmsgs w"
    by auto
  have "take (Suc i) (messages[i := Some m]) = take i messages @ [Some m]"
    using Cons.prems(2) by (simp add: take_Suc_conv_app_nth)
  moreover have "set st' = {x \<in> set st. msg_ID x \<notin> msg_ID ` set (m # ms)}"
    using rest(4) st1(1) by (auto simp: store_removed_def)
  moreover have "distinct (map msg_ID st')"
    using rest(3) st1(1) by (auto simp: store_removed_def)
  ultimately show ?case
    using rest(1,2,5) st1(2) Cons.prems(2)
    by (intro exI [of _ w'] exI [of _ st']) (simp del: fun_upd_apply)
qed

lemma delivered_all:
  assumes "testlib_spec L \<alpha>" and "IsMessageSend L e"
    and "lpool (\<alpha> (ctx w)) (MessageID L e) = Some m"
    and "lvars (\<alpha> (ctx w)) ''delayedMessages'' = Some (VMessageStore s)"
    and "lstores (\<alpha> (ctx w)) s = Some ds"
  shows "\<exists>w'. deliverDelayedFilter L e w = Some ((map Some ds @ [Some m], True), w') \<and>
    \<alpha> (ctx w') = (\<alpha> (ctx w))\<lparr>lstores := (lstores (\<alpha> (ctx w)))(s \<mapsto> [])\<rparr> \<and>
    noDelayedMessagesCond L e' w' = Some (True, w')"
proof -
  note store = stores_specD(3,4) [OF assms(1,5)]
  have get: "getDelayedMStore L w = Some s"
    using assms(4) by (simp add: getDelayedMStore_def vars_specD [OF assms(1)])
  obtain w' where w': "deliverDelayedFilter L e w = Some ((map Some ds @ [Some m], True), w')"
    "\<alpha> (ctx w') = (\<alpha> (ctx w))\<lparr>lstores := (lstores (\<alpha> (ctx w)))(s \<mapsto> [])\<rparr>"
  proof (cases "ds = []")
    case True
    have "(lstores (\<alpha> (ctx w)))(s \<mapsto> []) = lstores (\<alpha> (ctx w))"
      using assms(5) True by (intro ext) simp
    with True show ?thesis
      using assms(2,3) store get
      by (intro that [of w])
        (simp_all add: deliverDelayedFilter_def context_specD [OF assms(1)] del: fun_upd_apply)
  next
    case False
    have "\<exists>w' st'. deliver_loop L s 0 ds (replicate (length ds) None) w =
          Some (take 0 (replicate (length ds) None) @ map Some ds, w') \<and>
        \<alpha> (ctx w') = (\<alpha> (ctx w))\<lparr>lstores := (lstores (\<alpha> (ctx w)))(s \<mapsto> st')\<rparr> \<and>
        (st' = ds \<or> distinct (map msg_ID st')) \<and>
        set st' = {x \<in> set ds. msg_ID x \<notin> msg_ID ` set ds} \<and> tmsgs w' = tmsgs w"
      by (rule deliver_loop_spec [OF assms(1,5)]) simp
    then obtain w' st' where loop: "deliver_loop L s 0 ds (replicate (length ds) None) w =
        Some (take 0 (replicate (length ds) None) @ map Some ds, w')"
      "\<alpha> (ctx w') = (\<alpha> (ctx w))\<lparr>lstores := (lstores (\<alpha> (ctx w)))(s \<mapsto> st')\<rparr>"
      "set st' = {x \<in> set ds. msg_ID x \<notin> msg_ID ` set ds}"
      by (elim exE conjE) (rule that)
    have "set st' = {}" unfolding loop(3) by blast
    then have "st' = []" by simp
    with False loop(1,2) show ?thesis
      using assms(2,3) store get
      by (intro that [of w'])
        (simp_all add: deliverDelayedFilter_def context_specD [OF assms(1)] Let_def del: fun_upd_apply)
  qed
  have "getDelayedMStore L w' = Some s" "lstores (\<alpha> (ctx w')) s = Some []"
    using w'(2) assms(4) by (simp_all add: getDelayedMStore_def vars_specD [OF assms(1)])
  then have "noDelayedMessagesCond L e' w' = Some (True, w')"
    using stores_specD(3) [OF assms(1)] by (simp add: noDelayedMessagesCond_def)
  with w' show ?thesis by auto
qed

text \<open>
  C10: delivering the delayed messages, on a send whose message the pool has. All messages of the
  store are delivered, each once and in the order the store lists them, followed by the message
  of the event; the store is empty afterwards, and nothing else has changed.
\<close>

theorem deliver_delayed:
  assumes "testlib_spec L \<alpha>" and "IsMessageSend L e"
    and "lpool (\<alpha> (ctx w)) (MessageID L e) = Some m"
    and "lvars (\<alpha> (ctx w)) ''delayedMessages'' = Some (VMessageStore s)"
    and "lstores (\<alpha> (ctx w)) s = Some ds"
  shows "\<exists>w'. deliverDelayedFilter L e w = Some ((map Some ds @ [Some m], True), w') \<and>
    \<alpha> (ctx w') = (\<alpha> (ctx w))\<lparr>lstores := (lstores (\<alpha> (ctx w)))(s \<mapsto> [])\<rparr> \<and>
    noDelayedMessagesCond L e' w' = Some (True, w')"
  by (rule delivered_all [OF assms])

section \<open>Runs of the round-skip test\<close>

lemma heightReached_same: "heightReached L height e w = Some (b, w') \<Longrightarrow> w' = w"
  by (auto simp: heightReached_def split: if_splits option.splits Option.bind_splits)

lemma noDelayedMessagesCond_same: "noDelayedMessagesCond L e w = Some (b, w') \<Longrightarrow> w' = w"
  by (auto simp: noDelayedMessagesCond_def split: Option.bind_splits)

lemma rskip_changeVoteFilter_quiet:
  assumes "testlib_spec L \<alpha>" and "rskip_changeVoteFilter T J L height round e w = Some (out, w')"
  shows "quiet \<alpha> w w'"
  using assms(2)
  by (auto simp: rskip_changeVoteFilter_def keeps_library [OF assms(1)]
      intro: frames keeps_trans [OF keeps_ChangeVoteToNil keeps_Marshal]
        keeps_replace_message [OF assms(1) keeps_ChangeVoteToNil]
      split: if_splits option.splits Option.bind_splits sum.splits prod.splits)

lemma deliver_loop_quiet:
  assumes "testlib_spec L \<alpha>"
  shows "deliver_loop L s i ms messages w = Some (out, w') \<Longrightarrow> quiet \<alpha> w w'"
  by (induction ms arbitrary: i messages w)
    (auto split: if_splits intro: keeps_trans [OF keeps_library(2) [OF assms]])

lemma deliverDelayedFilter_quiet:
  assumes "testlib_spec L \<alpha>" and "deliverDelayedFilter L e w = Some (out, w')"
  shows "quiet \<alpha> w w'"
  using assms(2)
  by (auto simp: deliverDelayedFilter_def Let_def intro: deliver_loop_quiet [OF assms(1)]
      split: if_splits option.splits Option.bind_splits prod.splits)

lemma rskip_roundReached_True:
  assumes "testlib_spec L \<alpha>" and "rskip_roundReached L toRound e w = Some (True, w')"
  shows "lvars (\<alpha> (ctx w')) ''CurRound'' = Some (VInt toRound)"
    and "count_reached toRound (round_count \<alpha> ''roundCount'' w') = lcap (\<alpha> (ctx w'))"
  using assms(2)
  by (auto simp: rskip_roundReached_def updateRoundCount_def round_count_def Let_def
      vars_specD [OF assms(1)] context_specD [OF assms(1)]
      split: if_splits option.splits var_value.splits Option.bind_splits prod.splits)

lemma rskip_skipped:
  assumes "testlib_spec L \<alpha>"
    and "distinct [StartStateLabel lb, SuccessStateLabel lb, ''delayAndChangeVotes'', ''deliverDelayed'']"
    and "run \<alpha> (StartStateLabel lb) (rskip_OneTestcase T J L lb height round) w0 s w"
    and "s = ''deliverDelayed'' \<or> s = SuccessStateLabel lb"
  shows "tc_assert (rskip_OneTestcase T J L lb height round) s w = Some True \<and>
    count_reached round (round_count \<alpha> ''roundCount'' w) = lcap (\<alpha> (ctx w))"
proof -
  let ?ok = "\<lambda>w. lvars (\<alpha> (ctx w)) ''CurRound'' = Some (VInt round) \<and>
    count_reached round (round_count \<alpha> ''roundCount'' w) = lcap (\<alpha> (ctx w))"
  have keep: "?ok w' = ?ok w" if "quiet \<alpha> w w' \<or> scheduler_step \<alpha> w w'" for w w'
    using that round_count_keeps [of \<alpha> "{}" w w' "''roundCount''"]
    by (auto simp: keeps_def scheduler_stepD)
  from assms(3) have "s = ''deliverDelayed'' \<or> s = SuccessStateLabel lb \<longrightarrow> ?ok w"
  proof (induction rule: run.induct)
    case (run_start w)
    then show ?case using assms(2) by auto
  next
    case (run_edge s w c s' e b w')
    then consider "c = heightReached L height" "s = StartStateLabel lb" "s' = ''delayAndChangeVotes''"
      | "c = rskip_roundReached L round" "s = ''delayAndChangeVotes''" "s' = ''deliverDelayed''"
      | "c = noDelayedMessagesCond L" "s = ''deliverDelayed''" "s' = SuccessStateLabel lb"
      by (auto simp: rskip_OneTestcase_def)
    then show ?case
    proof cases
      case 1
      then show ?thesis using assms(2) by (cases b) auto
    next
      case 2
      with run_edge.hyps assms(2) rskip_roundReached_True [OF assms(1), of round e w w']
      show ?thesis by (cases b) auto
    next
      case 3
      with run_edge have "w' = w" by (auto dest: noDelayedMessagesCond_same)
      with 3 run_edge.IH show ?thesis by simp
    qed
  next
    case (run_guard s w g c e b w')
    then show ?case by (auto simp: rskip_OneTestcase_def)
  next
    case (run_handler s w g e out w')
    then consider "rskip_changeVoteFilter T J L height round e w = Some (out, w')"
      | "deliverDelayedFilter L e w = Some (out, w')"
      by (auto simp: rskip_OneTestcase_def)
    then have "quiet \<alpha> w w'"
      by cases (rule rskip_changeVoteFilter_quiet [OF assms(1)] deliverDelayedFilter_quiet [OF assms(1)],
        assumption)+
    then show ?case using keep run_handler.IH by blast
  next
    case (run_scheduler s w w')
    then show ?case using keep by blast
  qed
  with assms(4) show ?thesis
    by (simp add: rskip_OneTestcase_def vars_specD [OF assms(1)])
qed

text \<open>
  C2: whatever the schedule, when the round-skip test is in the state \<open>deliverDelayed\<close> or has
  succeeded, every replica has been seen at the round asked for, and the assertion holds.
\<close>

theorem rskip_one_safe:
  assumes "testlib_spec L \<alpha>"
    and "distinct [StartStateLabel lb, SuccessStateLabel lb, ''delayAndChangeVotes'', ''deliverDelayed'']"
    and "run \<alpha> (StartStateLabel lb) (rskip_OneTestcase T J L lb height round) w0 s w"
    and "s = ''deliverDelayed'' \<or> s = SuccessStateLabel lb"
  shows "tc_assert (rskip_OneTestcase T J L lb height round) s w = Some True \<and>
    count_reached round (round_count \<alpha> ''roundCount'' w) = lcap (\<alpha> (ctx w))"
  by (rule rskip_skipped [OF assms])

section \<open>Keeping prevotes back\<close>

text \<open>The counts of the blocking test: empty before the first prevote.\<close>

definition msg_counts :: "('c \<Rightarrow> 'e lib_state) \<Rightarrow> 'c world \<Rightarrow> (string, int) gomap" where
  "msg_counts \<alpha> w =
     (case lvars (\<alpha> (ctx w)) ''msgCounter'' of
        Some (VReplicaCounter a) \<Rightarrow> (case replica_counters w a of Some m \<Rightarrow> m | None \<Rightarrow> [])
      | _ \<Rightarrow> [])"

definition msg_counts_ok :: "('c \<Rightarrow> 'e lib_state) \<Rightarrow> 'c world \<Rightarrow> bool" where
  "msg_counts_ok \<alpha> w \<longleftrightarrow>
     lvars (\<alpha> (ctx w)) ''msgCounter'' = None \<or>
     (\<exists>a m. lvars (\<alpha> (ctx w)) ''msgCounter'' = Some (VReplicaCounter a) \<and> replica_counters w a = Some m)"

text \<open>The handler on one prevote is the gate in front of its recipient.\<close>

lemma blocking_filter_step:
  assumes lib: "testlib_spec L \<alpha>" and "IsMessageSend L e" and c: "carries L w e m a t"
    and "MsgType t = Prevote" and ok: "msg_counts_ok \<alpha> w"
    and s: "lvars (\<alpha> (ctx w)) ''delayedMessages'' = Some (VMessageStore s)"
      "lstores (\<alpha> (ctx w)) s = Some ds"
  defines "g \<equiv> gate counter_Count counter_Incr (\<lambda>_. lcap (\<alpha> (ctx w)) sdiv 3 + 1) (msg_To m) (msg_counts \<alpha> w)"
  shows "\<exists>w' ds'. filter_less_than_n_minus_f L e w = Some ((if fst g then [] else [Some m], True), w') \<and>
    msg_counts \<alpha> w' = snd g \<and> msg_counts_ok \<alpha> w' \<and> tmsgs w' = tmsgs w \<and>
    lmessage (\<alpha> (ctx w')) = lmessage (\<alpha> (ctx w)) \<and> lcap (\<alpha> (ctx w')) = lcap (\<alpha> (ctx w)) \<and>
    lvars (\<alpha> (ctx w')) ''delayedMessages'' = Some (VMessageStore s) \<and>
    lstores (\<alpha> (ctx w')) s = Some ds' \<and> (if fst g then store_added m ds ds' else ds' = ds)"
proof -
  define w1 where "w1 = (if \<not> Vars_Exists L (ctx w) ''msgCounter''
      then (case newCounter w of (ctr, w0) \<Rightarrow> set_var L ''msgCounter'' (VReplicaCounter ctr) w0) else w)"
  obtain x where x: "lvars (\<alpha> (ctx w1)) ''msgCounter'' = Some (VReplicaCounter x)"
    "replica_counters w1 x = Some (msg_counts \<alpha> w)"
    using ok by (auto simp: w1_def newCounter_def msg_counts_def msg_counts_ok_def vars_specD [OF lib])
  have same: "tmsgs w1 = tmsgs w" "lmessage (\<alpha> (ctx w1)) = lmessage (\<alpha> (ctx w))"
    "lcap (\<alpha> (ctx w1)) = lcap (\<alpha> (ctx w))" "lstores (\<alpha> (ctx w1)) = lstores (\<alpha> (ctx w))"
    "lvars (\<alpha> (ctx w1)) ''delayedMessages'' = lvars (\<alpha> (ctx w)) ''delayedMessages''"
    by (simp_all add: w1_def newCounter_def vars_specD [OF lib])
  note unf = filter_less_than_n_minus_f_def assms(2,4) carriesD(1,2,4) [OF c] w1_def [symmetric]
    vars_specD(1) [OF lib] x context_specD(3) [OF lib] same s(1) getDelayedMStore_def
  show ?thesis
  proof (cases "counter_Count (msg_counts \<alpha> w) (msg_To m) < lcap (\<alpha> (ctx w)) sdiv 3 + 1")
    case True
    then have g: "g = (True, counter_Incr (msg_To m) (msg_counts \<alpha> w))"
      by (simp add: g_def gate_def)
    obtain ds' where ds': "store_added m ds ds'"
      "\<alpha> (Store_Add L (ctx w1) s m) = (\<alpha> (ctx w1))\<lparr>lstores := (lstores (\<alpha> (ctx w1)))(s \<mapsto> ds')\<rparr>"
      using stores_specD(5) [OF lib, of "ctx w1" s ds m] s(2) same(4) by auto
    let ?w2 = "w1\<lparr>ctx := Store_Add L (ctx w1) s m\<rparr>"
    let ?w' = "?w2\<lparr>replica_counters :=
      (replica_counters ?w2)(x \<mapsto> counter_Incr (msg_To m) (msg_counts \<alpha> w))\<rparr>"
    have "filter_less_than_n_minus_f L e w = Some (([], True), ?w')"
      using True by (simp add: unf Let_def)
    then show ?thesis
      using ds' same s x g by (intro exI [of _ ?w'] exI [of _ ds']) (simp add: msg_counts_def msg_counts_ok_def)
  next
    case False
    then have g: "g = (False, msg_counts \<alpha> w)"
      by (simp add: g_def gate_def)
    have "filter_less_than_n_minus_f L e w = Some (([Some m], True), w1)"
      using False by (simp add: unf Let_def)
    then show ?thesis
      using same s x g by (intro exI [of _ w1] exI [of _ ds]) (simp add: msg_counts_def msg_counts_ok_def)
  qed
qed

lemma blocking_filter_run:
  assumes lib: "testlib_spec L \<alpha>"
    and "\<forall>e \<in> set es. IsMessageSend L e \<and> (\<exists>a t. carries L w e (msg e) a t \<and> MsgType t = Prevote)"
    and "msg_counts_ok \<alpha> w" and "lvars (\<alpha> (ctx w)) ''delayedMessages'' = Some (VMessageStore s)"
    and "lstores (\<alpha> (ctx w)) s = Some ds"
    and "gate_run counter_Count counter_Incr (\<lambda>_. lcap (\<alpha> (ctx w)) sdiv 3 + 1)
      (map (\<lambda>e. msg_To (msg e)) es) (msg_counts \<alpha> w) = (bs, counts)"
  shows "\<exists>w' ds'. outputs (filter_less_than_n_minus_f L) es w =
      Some (map (\<lambda>(b, e). (if b then [] else [Some (msg e)], True)) (zip bs es), w') \<and>
    lstores (\<alpha> (ctx w')) s = Some ds' \<and>
    (distinct (map (\<lambda>e. msg_ID (msg e)) es) \<longrightarrow> (\<forall>m \<in> set ds. msg_ID m \<notin> (\<lambda>e. msg_ID (msg e)) ` set es) \<longrightarrow>
      set ds' = set ds \<union> {msg e | e. (True, e) \<in> set (zip bs es)})"
  using assms(2-)
proof (induction es arbitrary: w ds bs)
  case Nil
  then show ?case by simp
next
  case (Cons e es)
  let ?lim = "\<lambda>_. lcap (\<alpha> (ctx w)) sdiv 3 + 1"
  let ?g = "gate counter_Count counter_Incr ?lim (msg_To (msg e)) (msg_counts \<alpha> w)"
  from Cons.prems(1) obtain a t where e: "IsMessageSend L e" "carries L w e (msg e) a t"
    "MsgType t = Prevote" by auto
  obtain w1 ds1 where w1:
    "filter_less_than_n_minus_f L e w = Some ((if fst ?g then [] else [Some (msg e)], True), w1)"
    "msg_counts \<alpha> w1 = snd ?g" "msg_counts_ok \<alpha> w1" "tmsgs w1 = tmsgs w"
    "lmessage (\<alpha> (ctx w1)) = lmessage (\<alpha> (ctx w))" "lcap (\<alpha> (ctx w1)) = lcap (\<alpha> (ctx w))"
    "lvars (\<alpha> (ctx w1)) ''delayedMessages'' = Some (VMessageStore s)"
    "lstores (\<alpha> (ctx w1)) s = Some ds1"
    "if fst ?g then store_added (msg e) ds ds1 else ds1 = ds"
    using blocking_filter_step [OF lib e Cons.prems(2-4)] by (elim exE conjE) (rule that)
  obtain b s1 bs1 where run: "?g = (b, s1)" "bs = b # bs1"
    "gate_run counter_Count counter_Incr ?lim (map (\<lambda>e. msg_To (msg e)) es) s1 = (bs1, counts)"
    using Cons.prems(5) by (auto split: prod.splits)
  have "\<exists>w' ds'. outputs (filter_less_than_n_minus_f L) es w1 =
      Some (map (\<lambda>(b, e). (if b then [] else [Some (msg e)], True)) (zip bs1 es), w') \<and>
    lstores (\<alpha> (ctx w')) s = Some ds' \<and>
    (distinct (map (\<lambda>e. msg_ID (msg e)) es) \<longrightarrow> (\<forall>m \<in> set ds1. msg_ID m \<notin> (\<lambda>e. msg_ID (msg e)) ` set es) \<longrightarrow>
      set ds' = set ds1 \<union> {msg e | e. (True, e) \<in> set (zip bs1 es)})"
  proof (rule Cons.IH [OF _ w1(3,7,8)])
    show "\<forall>e \<in> set es. IsMessageSend L e \<and> (\<exists>a t. carries L w1 e (msg e) a t \<and> MsgType t = Prevote)"
      using Cons.prems(1) carries_keep [OF lib w1(5,4)] by simp
    show "gate_run counter_Count counter_Incr (\<lambda>_. lcap (\<alpha> (ctx w1)) sdiv 3 + 1)
        (map (\<lambda>e. msg_To (msg e)) es) (msg_counts \<alpha> w1) = (bs1, counts)"
      using run(1,3) w1(2,6) by simp
  qed
  then obtain w' ds' where rest: "outputs (filter_less_than_n_minus_f L) es w1 =
      Some (map (\<lambda>(b, e). (if b then [] else [Some (msg e)], True)) (zip bs1 es), w')"
    "lstores (\<alpha> (ctx w')) s = Some ds'"
    "distinct (map (\<lambda>e. msg_ID (msg e)) es) \<longrightarrow> (\<forall>m \<in> set ds1. msg_ID m \<notin> (\<lambda>e. msg_ID (msg e)) ` set es) \<longrightarrow>
      set ds' = set ds1 \<union> {msg e | e. (True, e) \<in> set (zip bs1 es)}"
    by (elim exE conjE) (rule that)
  have out: "outputs (filter_less_than_n_minus_f L) (e # es) w =
      Some (map (\<lambda>(b, e). (if b then [] else [Some (msg e)], True)) (zip bs (e # es)), w')"
    using w1(1) rest(1) run(1,2) by simp
  have "set ds' = set ds \<union> {msg e' | e'. (True, e') \<in> set (zip bs (e # es))}"
    if d: "distinct (map (\<lambda>e. msg_ID (msg e)) (e # es))"
      "\<forall>m \<in> set ds. msg_ID m \<notin> (\<lambda>e. msg_ID (msg e)) ` set (e # es)"
  proof -
    have ds1: "set ds1 = set ds \<union> (if b then {msg e} else {})"
      using w1(9) run(1) d(2) by (auto simp: store_added_def)
    then have "set ds' = set ds1 \<union> {msg e | e. (True, e) \<in> set (zip bs1 es)}"
      using d rest(3) by (auto split: if_splits)
    with ds1 run(2) show ?thesis by auto
  qed
  with out rest(2) show ?case by blast
qed

text \<open>
  C4: the blocking test, on any sequence of prevotes sent. The filter returns on each; a prevote
  is kept back exactly when fewer than f + 1 prevotes were sent to the same recipient before it,
  f being a third of the replicas, and delivered otherwise; those kept back are in the store.
\<close>

theorem blocking_quota:
  assumes "testlib_spec L \<alpha>"
    and "\<forall>e \<in> set es. IsMessageSend L e \<and> (\<exists>a t. carries L w e (msg e) a t \<and> MsgType t = Prevote)"
    and "lvars (\<alpha> (ctx w)) ''msgCounter'' = None"
    and "lvars (\<alpha> (ctx w)) ''delayedMessages'' = Some (VMessageStore s)"
    and "lstores (\<alpha> (ctx w)) s = Some []"
    and "distinct (map (\<lambda>e. msg_ID (msg e)) es)" and "0 \<le> lcap (\<alpha> (ctx w))"
  shows "\<exists>outs w' ds. outputs (filter_less_than_n_minus_f L) es w = Some (outs, w') \<and>
    length outs = length es \<and>
    (\<forall>i < length es. outs ! i =
      (if int (count_list (map (\<lambda>e. msg_To (msg e)) (take i es)) (msg_To (msg (es ! i)))) <
          lcap (\<alpha> (ctx w)) div 3 + 1
       then ([], True) else ([Some (msg (es ! i))], True))) \<and>
    lstores (\<alpha> (ctx w')) s = Some ds \<and>
    set ds = {msg (es ! i) | i. i < length es \<and> outs ! i = ([], True)}"
proof -
  let ?lim = "\<lambda>_ :: string. lcap (\<alpha> (ctx w)) sdiv 3 + 1" and ?to = "\<lambda>e. msg_To (msg e)"
  obtain bs counts where g: "gate_run counter_Count counter_Incr ?lim (map ?to es) (msg_counts \<alpha> w) = (bs, counts)"
    by fastforce
  have "msg_counts_ok \<alpha> w" "msg_counts \<alpha> w = []"
    using assms(3) by (simp_all add: msg_counts_ok_def msg_counts_def)
  note new = this
  note bs = counter.gate_answers [OF g]
  have ans: "bs ! i \<longleftrightarrow> int (count_list (map ?to (take i es)) (?to (es ! i))) < lcap (\<alpha> (ctx w)) div 3 + 1"
    if "i < length es" for i
    using bs that new(2) assms(7) by (simp add: counter_Count_def sdiv_nonneg take_map)
  obtain w' ds' where run: "outputs (filter_less_than_n_minus_f L) es w =
      Some (map (\<lambda>(b, e). (if b then [] else [Some (msg e)], True)) (zip bs es), w')"
    "lstores (\<alpha> (ctx w')) s = Some ds'"
    "set ds' = set [] \<union> {msg e | e. (True, e) \<in> set (zip bs es)}"
  proof -
    from blocking_filter_run [OF assms(1,2) new(1) assms(4,5) g] obtain w' ds' where
      "outputs (filter_less_than_n_minus_f L) es w =
        Some (map (\<lambda>(b, e). (if b then [] else [Some (msg e)], True)) (zip bs es), w')"
      "lstores (\<alpha> (ctx w')) s = Some ds'"
      "distinct (map (\<lambda>e. msg_ID (msg e)) es) \<longrightarrow>
        (\<forall>m \<in> set ([] :: message list). msg_ID m \<notin> (\<lambda>e. msg_ID (msg e)) ` set es) \<longrightarrow>
        set ds' = set [] \<union> {msg e | e. (True, e) \<in> set (zip bs es)}"
      by (elim exE conjE) (rule that)
    with assms(6) show ?thesis by (intro that) simp_all
  qed
  let ?outs = "map (\<lambda>(b, e). (if b then [] else [Some (msg e)], True)) (zip bs es)"
  have len: "length bs = length es" using bs by simp
  then have outs: "?outs ! i = (if bs ! i then ([], True) else ([Some (msg (es ! i))], True))"
    if "i < length es" for i
    using that by simp
  have "{msg e | e. (True, e) \<in> set (zip bs es)} = {msg (es ! i) | i. i < length es \<and> ?outs ! i = ([], True)}"
  proof -
    have zip: "(True, e) \<in> set (zip bs es) \<longleftrightarrow> (\<exists>i < length es. bs ! i \<and> es ! i = e)" for e
      using len by (auto simp: set_zip)
    have "{msg e | e. (True, e) \<in> set (zip bs es)} = {msg (es ! i) | i. i < length es \<and> bs ! i}"
      unfolding zip by blast
    also have "\<dots> = {msg (es ! i) | i. i < length es \<and> ?outs ! i = ([], True)}"
      by (intro Collect_cong ex_cong1 conj_cong refl) (simp only: outs, simp)
    finally show ?thesis .
  qed
  note kept = this
  show ?thesis
  proof (intro exI conjI allI impI)
    show "outputs (filter_less_than_n_minus_f L) es w = Some (?outs, w')" by (rule run(1))
    show "length ?outs = length es" using len by simp
    show "lstores (\<alpha> (ctx w')) s = Some ds'" by (rule run(2))
    show "set ds' = {msg (es ! i) | i. i < length es \<and> ?outs ! i = ([], True)}"
      using run(3) kept by simp
    show "?outs ! i = (if int (count_list (map ?to (take i es)) (?to (es ! i))) < lcap (\<alpha> (ctx w)) div 3 + 1
        then ([], True) else ([Some (msg (es ! i))], True))" if "i < length es" for i
      unfolding outs [OF that] ans [OF that] ..
  qed
qed

end
