(* ===== verification/Samples.thy ===== *)
theory Samples
  imports Rskip
begin

text \<open>
  Concrete instances of the parameters of the model: a small tendermint module, an encoding of
  messages and a scheduler library. They show that the hypotheses on the parameters can hold
  together, and the witnesses of the properties run the model on them.
\<close>

section \<open>A tendermint module\<close>

text \<open>
  A key is a positive number and its text any string of that length; the address is one byte.
  A signature is the key followed by the bytes signed. The wire format knows the messages of a
  table only and refuses any other.
\<close>

definition sample_block_proto :: "block_id \<Rightarrow> pb_block_id" where
  "sample_block_proto b = \<lparr>pb_Hash = Hash b, pb_PartSetHeader = PartSetHeader b\<rparr>"

definition sample_block_from :: "pb_block_id \<Rightarrow> block_id" where
  "sample_block_from b = \<lparr>Hash = pb_Hash b, PartSetHeader = pb_PartSetHeader b\<rparr>"

definition sample_vote_proto :: "vote \<Rightarrow> pb_vote" where
  "sample_vote_proto v = \<lparr>pv_Type = vt_Type v, pv_Height = vt_Height v, pv_Round = vt_Round v,
     pv_BlockID = sample_block_proto (vt_BlockID v), pv_Timestamp = vt_Timestamp v,
     pv_ValidatorAddress = vt_ValidatorAddress v, pv_ValidatorIndex = vt_ValidatorIndex v,
     pv_Signature = vt_Signature v\<rparr>"

definition sample_proposal_proto :: "proposal \<Rightarrow> pb_proposal" where
  "sample_proposal_proto p = \<lparr>pp_Type = pr_Type p, pp_Height = pr_Height p, pp_Round = pr_Round p,
     pp_PolRound = pr_POLRound p, pp_BlockID = sample_block_proto (pr_BlockID p),
     pp_Timestamp = pr_Timestamp p, pp_Signature = pr_Signature p\<rparr>"

definition sample_proposal_from :: "pb_proposal \<Rightarrow> proposal" where
  "sample_proposal_from p = \<lparr>pr_Type = pp_Type p, pr_Height = pp_Height p, pr_Round = pp_Round p,
     pr_POLRound = pp_PolRound p, pr_BlockID = sample_block_from (pp_BlockID p),
     pr_Timestamp = pp_Timestamp p, pr_Signature = pp_Signature p\<rparr>"

definition sample_vote :: pb_vote where
  "sample_vote = \<lparr>pv_Type = PrevoteType, pv_Height = 1, pv_Round = 0,
     pv_BlockID = \<lparr>pb_Hash = [7], pb_PartSetHeader = \<lparr>psh_Total = 1, psh_Hash = [8]\<rparr>\<rparr>,
     pv_Timestamp = 5, pv_ValidatorAddress = [2], pv_ValidatorIndex = 1, pv_Signature = [9]\<rparr>"

definition sample_proposal :: pb_proposal where
  "sample_proposal = \<lparr>pp_Type = ProposalType, pp_Height = 1, pp_Round = 0, pp_PolRound = 0,
     pp_BlockID = \<lparr>pb_Hash = [7], pb_PartSetHeader = \<lparr>psh_Total = 1, psh_Hash = [8]\<rparr>\<rparr>,
     pp_Timestamp = 5, pp_Signature = [9]\<rparr>"

definition vote_message :: "pb_vote \<Rightarrow> pb_message" where
  "vote_message v = Message (Some (Message_Vote (Some (Vote_msg (Some v)))))"

definition proposal_message :: "pb_proposal \<Rightarrow> pb_message" where
  "proposal_message p = Message (Some (Message_Proposal (Some p)))"

text \<open>The sample vote for another block, signed with the key 2.\<close>

definition sample_nil_vote :: pb_vote where
  "sample_nil_vote = sample_vote\<lparr>pv_BlockID := sample_block_proto nil_block_id, pv_Signature := [2, 1, 0]\<rparr>"

text \<open>The vote as a precommit, 24 hours later and signed with the key 2.\<close>

definition sample_later_vote :: pb_vote where
  "sample_later_vote = sample_vote
     \<lparr>pv_Type := PrecommitType, pv_Timestamp := 86400000000005, pv_Signature := [2, 1, 0]\<rparr>"

text \<open>The vote for a new block, signed with the key 2.\<close>

definition sample_new_block :: block_id where
  "sample_new_block = \<lparr>Hash = [6], PartSetHeader = \<lparr>psh_Total = 1, psh_Hash = [8]\<rparr>\<rparr>"

definition sample_new_vote :: pb_vote where
  "sample_new_vote = sample_vote\<lparr>pv_BlockID := sample_block_proto sample_new_block, pv_Signature := [2, 1, 0]\<rparr>"

definition sample_codec :: "(pb_message \<times> bytes) list" where
  "sample_codec = [(vote_message sample_vote, [1]), (vote_message sample_nil_vote, [2]),
     (proposal_message sample_proposal, [3]), (vote_message sample_later_vote, [4]),
     (vote_message sample_new_vote, [5])]"

lemma sample_votes_differ: "sample_vote \<noteq> sample_nil_vote" "sample_vote \<noteq> sample_later_vote"
  "sample_nil_vote \<noteq> sample_later_vote" "sample_vote \<noteq> sample_new_vote" "sample_nil_vote \<noteq> sample_new_vote"
  "sample_later_vote \<noteq> sample_new_vote"
proof -
  have "pv_Timestamp v \<noteq> pv_Timestamp sample_later_vote" if "v \<in> {sample_vote, sample_nil_vote, sample_new_vote}" for v
    using that by (auto simp: sample_vote_def sample_nil_vote_def sample_later_vote_def sample_new_vote_def)
  moreover have "pv_Signature sample_vote \<noteq> pv_Signature v" if "v \<in> {sample_nil_vote, sample_new_vote}" for v
    using that by (auto simp: sample_vote_def sample_nil_vote_def sample_new_vote_def)
  moreover have "pb_Hash (pv_BlockID sample_nil_vote) \<noteq> pb_Hash (pv_BlockID sample_new_vote)"
    by (simp add: sample_nil_vote_def sample_new_vote_def sample_block_proto_def nil_block_id_def sample_new_block_def)
  ultimately show "sample_vote \<noteq> sample_nil_vote" "sample_vote \<noteq> sample_later_vote"
    "sample_nil_vote \<noteq> sample_later_vote" "sample_vote \<noteq> sample_new_vote" "sample_nil_vote \<noteq> sample_new_vote"
    "sample_later_vote \<noteq> sample_new_vote"
    by (metis insert_iff)+
qed

definition sample_T :: "nat tendermint" where
  "sample_T = \<lparr>
     decode_key = (\<lambda>s. if s = [] then Inl (library_error ''sample'') else Inr (Some (length s))),
     key_address = (\<lambda>k. [of_nat k]),
     key_Sign = (\<lambda>k m. Inr (of_nat k # m)),
     VoteSignBytes = (\<lambda>c v. [ucast (pv_Height v), ucast (pv_Round v)]),
     ProposalSignBytes = (\<lambda>c p. [ucast (pp_Height p), ucast (pp_Round p)]),
     vote_ToProto = sample_vote_proto,
     proposal_ToProto = sample_proposal_proto,
     ProposalFromProto = (\<lambda>p. Inr (sample_proposal_from p)),
     block_id_ToProto = sample_block_proto,
     BlockIDFromProto = (\<lambda>b. Inr (sample_block_from b)),
     hash_String = map (\<lambda>b. char_of (unat b)),
     proto_Marshal = (\<lambda>m. case Option.bind m (map_of sample_codec) of
        Some bs \<Rightarrow> Inr bs | None \<Rightarrow> Inl (library_error ''sample'')),
     proto_Unmarshal = (\<lambda>bs. case map_of (map (\<lambda>(m, bs). (bs, m)) sample_codec) bs of
        Some m \<Rightarrow> Inr m | None \<Rightarrow> Inl (library_error ''sample''))\<rparr>"

definition sample_verify :: "nat \<Rightarrow> bytes \<Rightarrow> bytes \<Rightarrow> bool" where
  "sample_verify k m s \<longleftrightarrow> s = of_nat k # m"

lemma sample_signing: "signing_spec sample_T sample_verify"
  by (simp add: signing_spec_def sample_T_def sample_verify_def)

lemma sample_T_fields:
  "key_address sample_T k = [of_nat k]"
  "key_Sign sample_T k m = Inr (of_nat k # m)"
  "ProposalFromProto sample_T p = Inr (sample_proposal_from p)"
  "BlockIDFromProto sample_T b = Inr (sample_block_from b)"
  "vote_ToProto sample_T = sample_vote_proto"
  "proposal_ToProto sample_T = sample_proposal_proto"
  "block_id_ToProto sample_T = sample_block_proto"
  "VoteSignBytes sample_T c v = [ucast (pv_Height v), ucast (pv_Round v)]"
  "hash_String sample_T h = map (\<lambda>b. char_of (unat b)) h"
  by (simp_all add: sample_T_def)

lemma char_of_byte_inject: "char_of (unat (a :: byte)) = char_of (unat b) \<Longrightarrow> a = b"
proof -
  assume "char_of (unat a) = char_of (unat b)"
  then have "of_char (char_of (unat a)) = (of_char (char_of (unat b)) :: nat)" by simp
  moreover have "unat a < 256" "unat b < 256" using unsigned_less [of a] unsigned_less [of b] by auto
  ultimately have "unat a = unat b" by simp
  then show "a = b" by (simp add: word_unat_eq_iff)
qed

lemma sample_conversion: "conversion_spec sample_T (\<lambda>_. True)"
proof -
  have "inj (map (\<lambda>b :: byte. char_of (unat b)))"
    by (rule injI) (auto dest: map_injective intro: injI char_of_byte_inject)
  then show ?thesis
    by (simp add: conversion_spec_def sample_T_def sample_vote_proto_def sample_proposal_proto_def
        sample_proposal_from_def sample_block_proto_def sample_block_from_def)
qed

lemma sample_codec_spec: "codec_spec sample_T"
  unfolding codec_spec_def sample_T_def
  by (auto simp: sample_codec_def vote_message_def proposal_message_def sample_votes_differ
      sample_votes_differ [symmetric] split: if_splits option.splits)

section \<open>An encoding of messages\<close>

text \<open>A byte list is encoded with a 1 before each byte and a 0 at the end.\<close>

definition encode_bytes :: "bytes \<Rightarrow> bytes" where
  "encode_bytes bs = concat (map (\<lambda>b. [1, b]) bs) @ [0]"

fun decode_bytes :: "bytes \<Rightarrow> bytes \<times> bytes" where
  "decode_bytes (x # b # rest) =
     (if x = 1 then (case decode_bytes rest of (bs, r) \<Rightarrow> (b # bs, r)) else ([], b # rest))"
| "decode_bytes [x] = ([], [])"
| "decode_bytes [] = ([], [])"

lemma decode_encode: "decode_bytes (encode_bytes bs @ rest) = (bs, rest)"
proof (induction bs)
  case Nil
  then show ?case by (cases rest) (simp_all add: encode_bytes_def)
qed (simp add: encode_bytes_def)

lemma decode_encode_end [simp]: "decode_bytes (encode_bytes bs) = (bs, [])"
  using decode_encode [of bs "[]"] by simp

definition string_bytes :: "string \<Rightarrow> bytes" where
  "string_bytes s = map (\<lambda>c. of_nat (of_char c)) s"

definition bytes_string :: "bytes \<Rightarrow> string" where
  "bytes_string bs = map (\<lambda>b. char_of (unat b)) bs"

lemma bytes_string_bytes [simp]: "bytes_string (string_bytes s) = s"
proof -
  have "char_of (unat (of_nat (of_char c) :: byte)) = c" for c
  proof -
    have "unat (of_nat (of_char c) :: byte) = of_char c mod 256"
      by (simp add: unat_of_nat)
    then show ?thesis by simp
  qed
  then show ?thesis by (induction s) (simp_all add: string_bytes_def bytes_string_def)
qed

definition sample_J :: json where
  "sample_J = \<lparr>
     json_Marshal = (\<lambda>w. Inr (encode_bytes (replicate (unat (w_chan_id w)) 0) @
       encode_bytes (w_msg w) @ encode_bytes (string_bytes (w_from w)) @
       encode_bytes (string_bytes (w_to w)))),
     json_Unmarshal = (\<lambda>bs.
       case decode_bytes bs of (chan, r1) \<Rightarrow> case decode_bytes r1 of (m, r2) \<Rightarrow>
       case decode_bytes r2 of (f, r3) \<Rightarrow> case decode_bytes r3 of (t, r4) \<Rightarrow>
         (\<lparr>w_chan_id = of_nat (length chan), w_msg = m, w_from = bytes_string f, w_to = bytes_string t\<rparr>,
          None))\<rparr>"

lemma sample_json: "json_spec sample_J"
  by (simp add: json_spec_def sample_J_def decode_encode)

section \<open>A scheduler library\<close>

record sample_event =
  ev_send :: bool
  ev_receive :: bool
  ev_message :: string
  ev_kind :: event_type

record sample_context =
  sc_vars :: "(string \<times> var_value) list"
  sc_messages :: "(string \<times> message) list"
  sc_pool :: "(string \<times> message) list"
  sc_replicas :: "replica list"
  sc_stores :: "message list list"
  sc_aborted :: bool
  sc_ended :: bool
  sc_next :: nat

text \<open>A store lists the last message added under each id.\<close>

fun store_list :: "message list \<Rightarrow> message list" where
  "store_list [] = []"
| "store_list (m # ms) = m # filter (\<lambda>x. msg_ID x \<noteq> msg_ID m) (store_list ms)"

lemma store_list_filter:
  "store_list (filter (\<lambda>x. msg_ID x \<noteq> i) ms) = filter (\<lambda>x. msg_ID x \<noteq> i) (store_list ms)"
proof (induction ms)
  case (Cons m ms)
  then show ?case by (auto simp: filter_filter conj_commute intro: filter_cong)
qed simp

lemma store_list_distinct: "distinct (map msg_ID (store_list ms))"
  by (induction ms) (auto simp: distinct_map inj_on_def)

definition stores_of :: "message list list \<Rightarrow> addr \<Rightarrow> message list option" where
  "stores_of sts a = (if a < length sts then Some (store_list (sts ! a)) else None)"

lemma stores_of_new [simp]: "stores_of (sts @ [[]]) = (stores_of sts)(length sts \<mapsto> [])"
  by (auto simp: stores_of_def nth_append)

lemma stores_of_update [simp]:
  "s < length sts \<Longrightarrow> stores_of (sts[s := ms]) = (stores_of sts)(s \<mapsto> store_list ms)"
  by (auto simp: stores_of_def nth_list_update)

lemma stores_of_Some: "stores_of sts s = Some ms \<longleftrightarrow> s < length sts \<and> ms = store_list (sts ! s)"
  by (auto simp: stores_of_def)

definition observe_sample :: "sample_context \<Rightarrow> sample_event lib_state" where
  "observe_sample c = \<lparr>
     lvars = map_of (sc_vars c),
     lmessage = (\<lambda>e. map_of (sc_messages c) (ev_message e)),
     lpool = map_of (sc_pool c),
     lreplicas = sc_replicas c,
     lcap = int (length (sc_replicas c)),
     lstores = stores_of (sc_stores c),
     laborted = sc_aborted c,
     lended = sc_ended c\<rparr>"

definition sample_L :: "(sample_event, sample_context) testlib" where
  "sample_L = \<lparr>
     IsMessageSend = ev_send,
     IsMessageReceive = ev_receive,
     MessageID = ev_message,
     event_Type = ev_kind,
     GetMessage = (\<lambda>c e. map_of (sc_messages c) (ev_message e)),
     MessagePool_Get = (\<lambda>c i. map_of (sc_pool c) i),
     NewMessage = (\<lambda>c m d.
       let m' = m\<lparr>msg_ID := ''new'' @ fmt_d (int (sc_next c)), ParsedMessage := None\<rparr>
       in (m', c\<lparr>sc_pool := (msg_ID m', m') # sc_pool c, sc_next := Suc (sc_next c)\<rparr>)),
     Vars_Get = (\<lambda>c k. map_of (sc_vars c) k),
     Vars_Set = (\<lambda>c k v. c\<lparr>sc_vars := (k, v) # sc_vars c\<rparr>),
     Vars_Exists = (\<lambda>c k. map_of (sc_vars c) k \<noteq> None),
     Vars_GetInt = (\<lambda>c k. case map_of (sc_vars c) k of Some (VInt i) \<Rightarrow> Some i | _ \<Rightarrow> None),
     Vars_GetString = (\<lambda>c k. case map_of (sc_vars c) k of Some (VString s) \<Rightarrow> Some s | _ \<Rightarrow> None),
     Vars_GetBool = (\<lambda>c k. case map_of (sc_vars c) k of Some (VBool b) \<Rightarrow> Some b | _ \<Rightarrow> None),
     Vars_SetCounter = (\<lambda>c k. c\<lparr>sc_vars := (k, VCounter 0) # sc_vars c\<rparr>),
     Counter_Value = (\<lambda>c k. case map_of (sc_vars c) k of Some (VCounter i) \<Rightarrow> Some i | _ \<Rightarrow> None),
     Counter_Incr = (\<lambda>c k. case map_of (sc_vars c) k of
       Some (VCounter i) \<Rightarrow> Some (c\<lparr>sc_vars := (k, VCounter (i + 1)) # sc_vars c\<rparr>) | _ \<Rightarrow> None),
     Replicas_Cap = (\<lambda>c. int (length (sc_replicas c))),
     Replicas_Iter = sc_replicas,
     Replicas_Get = (\<lambda>c i. find (\<lambda>r. ID r = i) (sc_replicas c)),
     NewMessageStore = (\<lambda>c. (length (sc_stores c), c\<lparr>sc_stores := sc_stores c @ [[]]\<rparr>)),
     Store_Add = (\<lambda>c s m. c\<lparr>sc_stores := (sc_stores c)[s := m # sc_stores c ! s]\<rparr>),
     Store_Remove = (\<lambda>c s i. c\<lparr>sc_stores :=
       (sc_stores c)[s := filter (\<lambda>x. msg_ID x \<noteq> i) (sc_stores c ! s)]\<rparr>),
     Store_Size = (\<lambda>c s. int (length (store_list (sc_stores c ! s)))),
     Store_Iter = (\<lambda>c s. store_list (sc_stores c ! s)),
     Abort = (\<lambda>c. c\<lparr>sc_aborted := True\<rparr>),
     EndTestCase = (\<lambda>c. c\<lparr>sc_ended := True\<rparr>)\<rparr>"

lemma sample_vars: "vars_spec sample_L observe_sample"
  by (simp add: vars_spec_def sample_L_def observe_sample_def fun_eq_iff
      split: option.split var_value.split)

lemma sample_context_spec: "context_spec sample_L observe_sample"
  by (simp add: context_spec_def sample_L_def observe_sample_def Let_def)

lemma sample_stores: "stores_spec sample_L observe_sample"
proof -
  have add: "store_added m (store_list ms) (store_list (m # ms))" for m ms
    using store_list_distinct [of "m # ms"] by (auto simp: store_added_def)
  have remove: "store_removed i (store_list ms) (store_list (filter (\<lambda>x. msg_ID x \<noteq> i) ms))" for i ms
    using store_list_distinct [of "filter (\<lambda>x. msg_ID x \<noteq> i) ms"]
    by (auto simp: store_removed_def store_list_filter)
  show ?thesis
    unfolding stores_spec_def
  proof (intro conjI allI impI)
    fix c s ms m i
    assume s: "lstores (observe_sample c) s = Some ms"
    then show "Store_Size sample_L c s = int (length ms)" "Store_Iter sample_L c s = ms"
      by (simp_all add: observe_sample_def sample_L_def stores_of_Some)
    show "\<exists>ms'. store_added m ms ms' \<and> observe_sample (Store_Add sample_L c s m) =
        (observe_sample c)\<lparr>lstores := (lstores (observe_sample c))(s \<mapsto> ms')\<rparr>"
      using s add [of m "sc_stores c ! s"] by (intro exI [of _ "store_list (m # sc_stores c ! s)"])
        (simp add: observe_sample_def sample_L_def stores_of_Some del: store_list.simps)
    show "\<exists>ms'. store_removed i ms ms' \<and> observe_sample (Store_Remove sample_L c s i) =
        (observe_sample c)\<lparr>lstores := (lstores (observe_sample c))(s \<mapsto> ms')\<rparr>"
      using s remove [of i "sc_stores c ! s"]
      by (intro exI [of _ "store_list (filter (\<lambda>x. msg_ID x \<noteq> i) (sc_stores c ! s))"])
        (simp add: observe_sample_def sample_L_def stores_of_Some)
  qed (simp_all add: observe_sample_def sample_L_def stores_of_Some, simp add: stores_of_def)
qed

lemma sample_library: "testlib_spec sample_L observe_sample"
  by (simp add: testlib_spec_def sample_vars sample_context_spec sample_stores)

section \<open>Replicas, messages and worlds\<close>

definition sample_replica :: "string \<Rightarrow> string \<Rightarrow> replica" where
  "sample_replica i k = \<lparr>ID = i,
     Info = [''privkey'' \<mapsto> InfoString k, ''chain_id'' \<mapsto> InfoString ''chain'']\<rparr>"

definition sample_replicas :: "replica list" where
  "sample_replicas = [sample_replica ''r1'' ''k'', sample_replica ''r2'' ''kk'',
     sample_replica ''r3'' ''kkk'', sample_replica ''r4'' ''kkkk'']"

lemma sample_key: "k \<noteq> [] \<Longrightarrow> GetPrivKey sample_T (Some (sample_replica i k)) = Some (Inr (Some (length k)))"
  by (simp add: GetPrivKey_def sample_replica_def sample_T_def)

lemma sample_chain: "GetChainID (Some (sample_replica i k)) = Some (Inr ''chain'')"
  by (simp add: GetChainID_def sample_replica_def)

lemma sample_signer: "k \<noteq> [] \<Longrightarrow> signer sample_T (sample_replica i k) (length k) ''chain''"
  by (simp add: signer_def sample_key sample_chain)

lemma sample_ID [simp]: "ID (sample_replica i k) = i"
  by (simp add: sample_replica_def)

lemma sample_GetReplicaAddress:
  "k \<noteq> [] \<Longrightarrow> GetReplicaAddress sample_T (Some (sample_replica i k)) = Some (Inr [of_nat (length k)])"
  by (simp add: GetReplicaAddress_def sample_key sample_T_fields)

lemma sample_address: "k \<noteq> [] \<Longrightarrow> address_of sample_T (sample_replica i k) = Some [of_nat (length k)]"
  by (simp add: address_of_def sample_GetReplicaAddress)

lemma sample_usable: "k \<noteq> [] \<Longrightarrow> usable sample_T (sample_replica i k)"
  by (simp add: usable_def sample_key)

lemma sample_store: "store_ok sample_T sample_replicas 4"
  by (simp add: store_ok_def sample_replicas_def sample_usable)

definition sample_tmsg :: tmessage where
  "sample_tmsg = \<lparr>ChannelID = 0x22, MsgB = [], From = ''r2'', To = ''r3'', MsgType = Prevote,
     Data = Some (vote_message sample_vote)\<rparr>"

definition sample_proposal_tmsg :: tmessage where
  "sample_proposal_tmsg = \<lparr>ChannelID = 0x20, MsgB = [], From = ''r1'', To = ''r3'',
     MsgType = Proposal, Data = Some (proposal_message sample_proposal)\<rparr>"

lemma sample_tmsg_parsed: "from_parser sample_tmsg" "well_typed sample_tmsg"
  "inner_vote sample_tmsg = Some sample_vote" "HeightRound sample_tmsg = Some (1, 0)"
  "Round sample_tmsg = Some 0"
  by (simp_all add: from_parser_def well_typed_def sample_tmsg_def vote_message_def sum_type_def
      sample_vote_def ascii_def inner_vote_def HeightRound_def vote_pair_def Round_def)

lemma sample_proposal_parsed: "from_parser sample_proposal_tmsg" "well_typed sample_proposal_tmsg"
  by (simp_all add: from_parser_def well_typed_def sample_proposal_tmsg_def proposal_message_def
      sum_type_def ascii_def)

definition sample_message :: message where
  "sample_message = \<lparr>msg_ID = ''m1'', msg_From = ''r2'', msg_To = ''r3'',
     ParsedMessage = Some (ParsedTMessage 0)\<rparr>"

definition sample_proposal_message :: message where
  "sample_proposal_message = \<lparr>msg_ID = ''m2'', msg_From = ''r1'', msg_To = ''r3'',
     ParsedMessage = Some (ParsedTMessage 1)\<rparr>"

definition sample_again :: message where
  "sample_again = sample_message\<lparr>msg_ID := ''m3''\<rparr>"

definition sample_send :: sample_event where
  "sample_send = \<lparr>ev_send = True, ev_receive = False, ev_message = ''m1'', ev_kind = OtherEventType\<rparr>"

definition sample_receive :: sample_event where
  "sample_receive = \<lparr>ev_send = False, ev_receive = True, ev_message = ''m1'', ev_kind = OtherEventType\<rparr>"

definition sample_send_proposal :: sample_event where
  "sample_send_proposal = \<lparr>ev_send = True, ev_receive = False, ev_message = ''m2'', ev_kind = OtherEventType\<rparr>"

definition sample_send_again :: sample_event where
  "sample_send_again = sample_send\<lparr>ev_message := ''m3''\<rparr>"

definition sample_heap :: heap where
  "sample_heap = \<lparr>tmsgs = [0 \<mapsto> sample_tmsg, 1 \<mapsto> sample_proposal_tmsg], next_addr = 2\<rparr>"

definition world_of :: "replica list \<Rightarrow> (string \<times> var_value) list \<Rightarrow> sample_context world" where
  "world_of rs vars = \<lparr>tmsgs = [0 \<mapsto> sample_tmsg, 1 \<mapsto> sample_proposal_tmsg], next_addr = 2,
     int_maps = Map.empty, replica_counters = Map.empty, vote_maps = Map.empty,
     vote_counts = Map.empty,
     ctx = \<lparr>sc_vars = vars,
       sc_messages = [(''m1'', sample_message), (''m2'', sample_proposal_message), (''m3'', sample_again)],
       sc_pool = [(''m1'', sample_message), (''m2'', sample_proposal_message), (''m3'', sample_again)],
       sc_replicas = rs, sc_stores = [[]], sc_aborted = False, sc_ended = False, sc_next = 0\<rparr>\<rparr>"

abbreviation sample_world :: "(string \<times> var_value) list \<Rightarrow> sample_context world" where
  "sample_world \<equiv> world_of sample_replicas"

lemma world_of_simps [simp]:
  "lvars (observe_sample (ctx (world_of rs vars))) = map_of vars"
  "lreplicas (observe_sample (ctx (world_of rs vars))) = rs"
  "lcap (observe_sample (ctx (world_of rs vars))) = int (length rs)"
  "lstores (observe_sample (ctx (world_of rs vars))) 0 = Some []"
  "lpool (observe_sample (ctx (world_of rs vars))) (MessageID sample_L sample_send) = Some sample_message"
  "tmsgs (world_of rs vars) 0 = Some sample_tmsg"
  "tmsgs (world_of rs vars) 1 = Some sample_proposal_tmsg"
  "IsMessageSend sample_L sample_send" "IsMessageSend sample_L sample_send_proposal"
  "IsMessageSend sample_L sample_send_again" "IsMessageReceive sample_L sample_receive"
  by (simp_all add: world_of_def observe_sample_def stores_of_def sample_L_def
      sample_send_def sample_receive_def sample_send_proposal_def sample_send_again_def)

lemma length_sample_replicas [simp]: "length sample_replicas = 4"
  by (simp add: sample_replicas_def)

lemma sample_carries:
  "carries sample_L (world_of rs vars) sample_send sample_message 0 sample_tmsg"
  "carries sample_L (world_of rs vars) sample_receive sample_message 0 sample_tmsg"
  "carries sample_L (world_of rs vars) sample_send_proposal sample_proposal_message 1 sample_proposal_tmsg"
  "carries sample_L (world_of rs vars) sample_send_again sample_again 0 sample_tmsg"
  by (simp_all add: carries_def world_of_def sample_L_def sample_send_def sample_receive_def
      sample_send_proposal_def sample_send_again_def sample_message_def sample_proposal_message_def
      sample_again_def GetParsedMessage_def sample_tmsg_parsed sample_proposal_parsed)

lemma sample_parts:
  fixes l1 l2 l3 :: string
  assumes "distinct [l1, l2, l3]"
  shows "\<exists>P. CreatePartition sample_T (NewGenericPartitioner 4 sample_replicas) [1, 1, 2] [l1, l2, l3] =
      Some (Inr P) \<and> part_is sample_T P l1 (take 1 sample_replicas) \<and>
    part_is sample_T P l2 (take 1 (drop 1 sample_replicas)) \<and>
    part_is sample_T P l3 (drop 2 sample_replicas)"
  using three_parts [OF sample_store, of 1 1 2 l1 l2 l3] assms by (auto simp: numeral_2_eq_2)

text \<open>The same worlds with another message behind the first event.\<close>

definition world_at :: "tmessage \<Rightarrow> replica list \<Rightarrow> (string \<times> var_value) list \<Rightarrow> sample_context world" where
  "world_at t rs vars = (world_of rs vars)\<lparr>tmsgs := [0 \<mapsto> t, 1 \<mapsto> sample_proposal_tmsg]\<rparr>"

lemma world_at_simps [simp]:
  "ctx (world_at t rs vars) = ctx (world_of rs vars)" "tmsgs (world_at t rs vars) 0 = Some t"
  by (simp_all add: world_at_def)

lemma world_at_carries:
  assumes "well_typed t"
  shows "carries sample_L (world_at t rs vars) sample_send sample_message 0 t"
    and "carries sample_L (world_at t rs vars) sample_receive sample_message 0 t"
  using assms sample_carries(1,2) [of rs vars] by (simp_all add: carries_def)

text \<open>The sample vote as a prevote or precommit of any round.\<close>

definition sample_vote_in :: "message_type \<Rightarrow> 32 word \<Rightarrow> tmessage" where
  "sample_vote_in ty r = sample_tmsg\<lparr>MsgType := ty, Data := Some (vote_message (sample_vote
     \<lparr>pv_Type := (if ty = Precommit then PrecommitType else PrevoteType), pv_Round := r\<rparr>))\<rparr>"

lemma sample_vote_in_fields [simp]:
  "From (sample_vote_in ty r) = ''r2''" "To (sample_vote_in ty r) = ''r3''"
  "MsgType (sample_vote_in ty r) = ty"
  by (simp_all add: sample_vote_in_def sample_tmsg_def)

lemma sample_vote_in_parsed:
  assumes "ty = Prevote \<or> ty = Precommit"
  shows "well_typed (sample_vote_in ty r)" and "from_parser (sample_vote_in ty r)"
    and "HeightRound (sample_vote_in ty r) = Some (1, sint r)" and "Round (sample_vote_in ty r) = Some (sint r)"
    and "GetVoteBlockIDS sample_T (sample_vote_in ty r) = Some (Some [char_of (7 :: nat)])"
    and "\<exists>v. inner_vote (sample_vote_in ty r) = Some v \<and> pv_ValidatorAddress v = [2]"
  using assms
  by (auto simp: from_parser_def well_typed_def sample_vote_in_def sample_tmsg_def vote_message_def
      sum_type_def sample_vote_def ascii_def inner_vote_def HeightRound_def vote_pair_def Round_def
      GetVoteBlockIDS_def GetVoteBlockID_def sample_T_fields sample_block_from_def)

definition sample_r2 :: replica where
  "sample_r2 = sample_replica ''r2'' ''kk''"

lemma sample_r2_signer: "signer sample_T sample_r2 2 ''chain''"
  using sample_signer [of "''kk''" "''r2''"] by (simp add: sample_r2_def numeral_2_eq_2)

text \<open>Forging and encoding the sample vote, in any world.\<close>

lemma sample_forge_vote:
  assumes "tmsgs w 0 = Some sample_tmsg" and "b = nil_block_id \<or> b = sample_new_block"
  shows "\<exists>bs w'. forge_vote sample_T sample_J sample_r2 0 b w = Some (Some bs, w')"
proof -
  let ?v = "sample_vote\<lparr>pv_BlockID := sample_block_proto b, pv_Signature := [2, 1, 0]\<rparr>"
  have "MsgType sample_tmsg = Prevote" by (simp add: sample_tmsg_def)
  then have change: "ChangeVote sample_T (Some sample_r2) 0 (Some b) w = Some ((Some 0, None), put_vote 0 sample_tmsg ?v w)"
    using sample_r2_signer assms(1)
    by (simp add: ChangeVote_def signer_def sample_tmsg_parsed Let_def
        sample_T_fields sample_vote_proto_def sample_vote_def)
  have "?v = sample_nil_vote \<or> ?v = sample_new_vote"
    using assms(2) by (auto simp: sample_nil_vote_def sample_new_vote_def)
  then have "\<exists>bs. proto_Marshal sample_T (Some (vote_message ?v)) = Inr bs"
    using sample_votes_differ
    by (auto simp: sample_T_def sample_codec_def vote_message_def proposal_message_def)
  then have "\<exists>bs w'. Marshal sample_T sample_J 0 (put_vote 0 sample_tmsg ?v w) = Some (Inr bs, w')"
    by (auto simp: Marshal_def Let_def vote_message_def sample_J_def)
  with change show ?thesis by (auto simp: forge_vote_def)
qed

lemma sample_replaced:
  assumes "replaced sample_T sample_J L verify m 0 sample_tmsg sample_r2 b w out"
    and "tmsgs w 0 = Some sample_tmsg" and "b = nil_block_id \<or> b = sample_new_block"
  shows "\<exists>bs c. out = ([Some (fst (NewMessage L c m bs))], True) \<and>
    vote_bytes sample_T sample_J verify sample_r2 sample_tmsg b bs"
  using assms(1) sample_forge_vote [OF assms(2,3)] unfolding replaced_def by (elim exE conjE) auto

lemma sample_replicas_usable:
  "\<forall>r \<in> set sample_replicas. usable sample_T r \<and> Info r ''chain_id'' \<noteq> Some InfoOther"
  by (simp add: sample_replicas_def sample_usable) (simp add: sample_replica_def)

text \<open>Dating the precommit a day later, and encoding it.\<close>

lemma sample_later:
  assumes "tmsgs w 0 = Some (sample_vote_in Precommit 0)"
  shows "ChangeVoteTime sample_T (Some sample_r2) 0 86400000000005 w =
      Some ((Some 0, None), put_vote 0 (sample_vote_in Precommit 0) sample_later_vote w)"
    and "\<exists>bs w2. Marshal sample_T sample_J 0 (put_vote 0 (sample_vote_in Precommit 0) sample_later_vote w) =
      Some (Inr bs, w2)"
proof -
  have v: "inner_vote (sample_vote_in Precommit 0) = Some (sample_vote\<lparr>pv_Type := PrecommitType, pv_Round := 0\<rparr>)"
    by (simp add: sample_vote_in_def inner_vote_def vote_message_def)
  show "ChangeVoteTime sample_T (Some sample_r2) 0 86400000000005 w =
      Some ((Some 0, None), put_vote 0 (sample_vote_in Precommit 0) sample_later_vote w)"
    using sample_r2_signer assms v
    by (simp add: ChangeVoteTime_def signer_def Let_def sample_T_fields sample_vote_proto_def
        sample_block_proto_def sample_block_from_def sample_vote_def sample_later_vote_def)
  have "proto_Marshal sample_T (Some (vote_message sample_later_vote)) = Inr [4]"
    using sample_votes_differ
    by (simp add: sample_T_def sample_codec_def vote_message_def proposal_message_def)
  then show "\<exists>bs w2. Marshal sample_T sample_J 0 (put_vote 0 (sample_vote_in Precommit 0) sample_later_vote w) =
      Some (Inr bs, w2)"
    by (simp add: Marshal_def Let_def vote_message_def sample_J_def)
qed

lemma sample_partition_vars:
  "\<exists>P. part_is sample_T P ''honestDelayed'' [sample_replica ''r1'' ''k''] \<and>
    part_is sample_T P ''faulty'' [sample_replica ''r2'' ''kk''] \<and>
    part_is sample_T P ''rest'' [sample_replica ''r3'' ''kkk'', sample_replica ''r4'' ''kkkk'']"
  using sample_parts [of "''honestDelayed''" "''faulty''" "''rest''"]
  by (auto simp: sample_replicas_def numeral_2_eq_2)

definition sample_labels :: labels where
  "sample_labels = \<lparr>StartStateLabel = ''start'', SuccessStateLabel = ''success'', FailStateLabel = ''fail''\<rparr>"

end
