(* ===== verification/Witnesses.thy ===== *)
theory Witnesses
  imports Samples
begin

text \<open>
  The properties applied to the sample instances: their hypotheses hold there, and what they
  state can be read off a concrete run.
\<close>

section \<open>Replica sets and partitions\<close>

definition sample_partitioner :: generic_partitioner where
  "sample_partitioner = NewGenericPartitioner 4 sample_replicas"

lemma sample_request: "partition_request sample_T sample_partitioner [1, 1, 2] [''h'', ''faulty'', ''rest'']"
  by (simp add: partition_request_def sample_partitioner_def NewGenericPartitioner_def
      sample_replicas_def sample_usable)

lemma sample_full: "int (length (all_Iter sample_partitioner)) = all_Cap sample_partitioner"
  by (simp add: sample_partitioner_def NewGenericPartitioner_def sample_replicas_def)

theorem create_partition_runs_witness:
  "\<exists>P p. CreatePartition sample_T sample_partitioner [1, 1, 2] [''h'', ''faulty'', ''rest''] = Some (Inr P) \<and>
    Partition_GetPart (Some P) ''rest'' = Some (Some p) \<and> Part_Size (Some p) = Some 2 \<and>
    Part_Contains (Some p) ''r3'' = Some True \<and> Part_Contains (Some p) ''r1'' = Some False"
proof -
  let ?rs = "deal (map nat [1, 1, 2]) (all_Iter sample_partitioner)" and ?ls = "[''h'', ''faulty'', ''rest'']"
  obtain P where P: "CreatePartition sample_T sample_partitioner [1, 1, 2] ?ls = Some (Inr P)"
    "\<forall>i < length ?ls. \<exists>p. Partition_GetPart (Some P) (?ls ! i) = Some (Some p) \<and>
       Part_Size (Some p) = Some ([1, 1, 2] ! i) \<and>
       (\<forall>r. Part_Contains (Some p) r = Some (r \<in> ID ` set (?rs ! i))) \<and>
       (\<forall>a. Part_ContainsVal (Some p) a = Some (\<exists>r \<in> set (?rs ! i). address_of sample_T r = Some a))"
    using create_partition_runs [OF sample_request sample_full] by (elim exE conjE) (rule that)
  have rest: "?rs ! 2 = [sample_replica ''r3'' ''kkk'', sample_replica ''r4'' ''kkkk'']"
    by (simp add: sample_partitioner_def NewGenericPartitioner_def sample_replicas_def numeral_2_eq_2)
  have "2 < length ?ls" by simp
  from P(2) [rule_format, OF this] obtain p where
    "Partition_GetPart (Some P) ''rest'' = Some (Some p)" "Part_Size (Some p) = Some 2"
    "\<forall>r. Part_Contains (Some p) r = Some (r \<in> ID ` set (?rs ! 2))"
    by (elim exE conjE) (rule that, simp_all)
  with P(1) rest show ?thesis by simp
qed

theorem create_partition_exactly_one_part_witness:
  "\<exists>P. CreatePartition sample_T sample_partitioner [1, 1, 2] [''h'', ''faulty'', ''rest''] = Some (Inr P) \<and>
    (\<exists>!l. \<exists>p. Partition_GetPart (Some P) l = Some (Some p) \<and> Part_Contains (Some p) ''r2'' = Some True)"
proof -
  obtain P where P: "CreatePartition sample_T sample_partitioner [1, 1, 2] [''h'', ''faulty'', ''rest''] = Some (Inr P)"
    using partition_runs [OF sample_request sample_full] by blast
  have "sample_replica ''r2'' ''kk'' \<in> set (all_Iter sample_partitioner)"
    by (simp add: sample_partitioner_def NewGenericPartitioner_def sample_replicas_def)
  from create_partition_exactly_one_part [OF sample_request sample_full P this] P show ?thesis
    by simp
qed

theorem create_partition_failures_witness:
  "(\<exists>e. CreatePartition sample_T sample_partitioner [1, 1, 1] [''h'', ''faulty'', ''rest''] = Some (Inl e)) \<and>
   CreatePartition sample_T (NewGenericPartitioner 3 sample_replicas) [1, 2] [''a'', ''b''] = None"
  using create_partition_failures [of sample_partitioner sample_T "[1, 1, 1]" "[''h'', ''faulty'', ''rest'']"]
    create_partition_failures [of "NewGenericPartitioner 3 sample_replicas" sample_T "[1, 2]" "[''a'', ''b'']"]
  by (auto simp: sample_partitioner_def NewGenericPartitioner_def sample_replicas_def sample_usable)

section \<open>Messages\<close>

definition sample_wire :: wire where
  "sample_wire = \<lparr>w_chan_id = 0x22, w_msg = [1], w_from = ''r2'', w_to = ''r3''\<rparr>"

text \<open>The sample vote as it arrives, and what the parser makes of it.\<close>

lemma sample_parse:
  "\<exists>bs. json_Marshal sample_J sample_wire = Inr bs \<and>
    Parse sample_T sample_J bs = Some (sample_tmsg\<lparr>MsgB := [1]\<rparr>, None)"
proof -
  obtain bs where bs: "json_Marshal sample_J sample_wire = Inr bs"
    by (simp add: sample_J_def)
  then have "json_Unmarshal sample_J bs = (sample_wire, None)"
    using sample_json by (auto simp: json_spec_def sample_wire_def ascii_def)
  moreover have "proto_Unmarshal sample_T [1] = Inr (vote_message sample_vote)"
    by (simp add: sample_T_def sample_codec_def)
  ultimately have "Parse sample_T sample_J bs = Some (sample_tmsg\<lparr>MsgB := [1]\<rparr>, None)"
    by (simp add: Parse_def sample_wire_def sample_tmsg_def vote_message_def sum_type_def sample_vote_def)
  with bs show ?thesis by blast
qed

theorem parsed_message_safe_witness:
  "\<exists>bs t. Parse sample_T sample_J bs = Some (t, None) \<and> well_typed t \<and>
    (\<exists>h r. HeightRound t = Some (h, r) \<and> int64_range h \<and> int32_range r) \<and>
    (\<exists>v. inner_vote t = Some v \<and> pv_Type v = PrevoteType)"
proof -
  obtain bs where bs: "Parse sample_T sample_J bs = Some (sample_tmsg\<lparr>MsgB := [1]\<rparr>, None)"
    using sample_parse by blast
  from parsed_message_safe [OF sample_codec_spec bs] bs show ?thesis
    by (intro exI [of _ bs] exI [of _ "sample_tmsg\<lparr>MsgB := [1]\<rparr>"]) (simp add: sample_tmsg_def)
qed

lemma sample_marshal:
  "\<exists>bs h'. Marshal sample_T sample_J 0 sample_heap = Some (Inr bs, h')"
  by (simp add: Marshal_def sample_heap_def sample_tmsg_def sample_T_def sample_codec_def sample_J_def Let_def)

theorem marshal_parse_roundtrip_witness:
  "\<exists>bs h' t'. Marshal sample_T sample_J 0 sample_heap = Some (Inr bs, h') \<and>
    Parse sample_T sample_J bs = Some (t', None) \<and> tmsgs h' 0 = Some t' \<and>
    MsgType t' = Prevote \<and> From t' = ''r2'' \<and> Data t' = Some (vote_message sample_vote)"
proof -
  obtain bs h' where m: "Marshal sample_T sample_J 0 sample_heap = Some (Inr bs, h')"
    using sample_marshal by blast
  have t: "tmsgs sample_heap 0 = Some sample_tmsg" "Data sample_tmsg = Some (vote_message sample_vote)"
    "0x20 \<le> ChannelID sample_tmsg" "ChannelID sample_tmsg \<le> 0x23"
    "ascii (From sample_tmsg)" "ascii (To sample_tmsg)"
    by (simp_all add: sample_heap_def sample_tmsg_def ascii_def)
  from marshal_parse_roundtrip [OF sample_codec_spec sample_json t(1) sample_tmsg_parsed(2) t(2-6) m]
  obtain t' where t': "Parse sample_T sample_J bs = Some (t', None)" "tmsgs h' 0 = Some t'"
    "t' = sample_tmsg\<lparr>MsgB := MsgB t'\<rparr>" by blast
  have "MsgType t' = Prevote \<and> From t' = ''r2'' \<and> Data t' = Some (vote_message sample_vote)"
    by (subst (1 2 3) t'(3)) (simp add: sample_tmsg_def)
  with m t'(1,2) show ?thesis by blast
qed

lemma sample_signs: "\<forall>m. \<exists>sig. key_Sign sample_T k m = Inr sig"
  by (simp add: sample_T_def)

lemma sample_change:
  "\<exists>h'. ChangeVote sample_T (Some sample_r2) 0 (Some b) sample_heap = Some ((Some 0, None), h')"
  using sample_r2_signer
  by (simp add: ChangeVote_def signer_def sample_heap_def sample_tmsg_parsed Let_def
      sample_T_fields) (simp add: sample_tmsg_def)

theorem change_vote_result_witness:
  "\<exists>h' v'. ChangeVote sample_T (Some sample_r2) 0 (Some nil_block_id) sample_heap = Some ((Some 0, None), h') \<and>
    forged_vote sample_T sample_verify 2 ''chain'' sample_vote nil_block_id 5 v' \<and>
    h' = put_vote 0 sample_tmsg v' sample_heap"
proof -
  obtain h' where h': "ChangeVote sample_T (Some sample_r2) 0 (Some nil_block_id) sample_heap = Some ((Some 0, None), h')"
    using sample_change by blast
  have "tmsgs sample_heap 0 = Some sample_tmsg" "pv_Timestamp sample_vote = 5"
    by (simp_all add: sample_heap_def sample_vote_def)
  with change_vote_result [OF sample_signing sample_conversion h'] h' sample_r2_signer show ?thesis
    by (auto simp: sample_tmsg_parsed signer_def)
qed


theorem change_vote_to_nil_reads_nil_witness:
  "\<exists>h' t'. ChangeVoteToNil sample_T (Some sample_r2) 0 sample_heap = Some ((Some 0, None), h') \<and>
    tmsgs h' 0 = Some t' \<and> well_typed t' \<and> GetVoteBlockIDS sample_T t' = Some (Some '''') \<and>
    HeightRound t' = Some (1, 0)"
proof -
  obtain h' where h': "ChangeVoteToNil sample_T (Some sample_r2) 0 sample_heap = Some ((Some 0, None), h')"
    unfolding ChangeVoteToNil_def using sample_change by blast
  have t: "tmsgs sample_heap 0 = Some sample_tmsg" by (simp add: sample_heap_def)
  from change_vote_to_nil_reads_nil [OF sample_signing sample_conversion h' t sample_tmsg_parsed(2)] h'
  show ?thesis by (auto simp: sample_tmsg_parsed)
qed

theorem change_proposal_result_witness:
  "\<exists>h' p'. ChangeProposalBlockID sample_T (Some sample_r2) 1 sample_heap = Some ((Some 1, None), h') \<and>
    pp_BlockID p' = block_id_ToProto sample_T nil_block_id \<and> pp_Height p' = 1 \<and>
    sample_verify 2 (ProposalSignBytes sample_T ''chain'' p') (pp_Signature p') \<and>
    h' = put_proposal 1 sample_proposal_tmsg p' sample_heap"
proof -
  obtain h' where h': "ChangeProposalBlockID sample_T (Some sample_r2) 1 sample_heap = Some ((Some 1, None), h')"
    using sample_r2_signer
    by (simp add: ChangeProposalBlockID_def signer_def sample_heap_def Let_def
        sample_T_fields sample_proposal_tmsg_def proposal_message_def)
  then have run: "(if True then ChangeProposalBlockID else ChangeProposalLockedValue) sample_T
      (Some sample_r2) 1 sample_heap = Some ((Some 1, None), h')" by simp
  have t: "tmsgs sample_heap 1 = Some sample_proposal_tmsg"
    "GetProposal (Data sample_proposal_tmsg) = Some sample_proposal"
    by (simp_all add: sample_heap_def sample_proposal_tmsg_def proposal_message_def)
  from change_proposal_result [OF sample_signing sample_conversion run] h' sample_r2_signer t show ?thesis
    by (auto simp: signer_def forged_proposal_def sample_proposal_def)
qed

section \<open>The common package\<close>

lemma sample_pool: "pool_ok sample_L (sample_world vars)"
  by (auto simp: pool_ok_def GetMessageFromEvent_eq GetParsedMessage_def world_of_def sample_L_def
      sample_message_def sample_proposal_message_def sample_again_def sample_tmsg_parsed
      sample_proposal_parsed split: if_splits option.splits parsed_message.splits)

theorem round_reached_counts_witness:
  "\<exists>w'. RoundReached sample_L 0 sample_send (sample_world [(''n'', VInt 1)]) = Some (True, w') \<and>
    seen (observe_sample (ctx w')) 0 = {''r2''}"
proof -
  let ?w = "sample_world [(''n'', VInt 1)]"
  have seen0: "seen (observe_sample (ctx ?w)) q = {}" for q
    by (simp add: seen_def)
  have ok: "round_counters_ok (observe_sample (ctx ?w))"
    by (rule round_counters_okI) (simp_all add: seen0)
  have obs: "sent_round sample_L sample_send ?w = Some (''r2'', 0)"
    using carriesD [OF sample_carries(1) [of sample_replicas "[(''n'', VInt 1)]"]]
    by (simp add: sent_round_def sample_tmsg_parsed) (simp add: sample_tmsg_def)
  have n: "n_of (observe_sample (ctx ?w)) = 1" by (simp add: n_of_def)
  from round_reached_counts [OF sample_library sample_pool ok, of 0 sample_send] obtain b w' where
    "RoundReached sample_L 0 sample_send ?w = Some (b, w')"
    "b \<longleftrightarrow> int (card (seen (observe_sample (ctx w')) 0)) = 1"
    "seen (observe_sample (ctx w')) 0 = {''r2''}"
    using obs n seen0 by auto
  then show ?thesis by auto
qed

theorem common_setup_witness:
  "\<exists>w' P. Setup sample_T sample_L [] (sample_world []) = Some w' \<and>
    lvars (observe_sample (ctx w')) ''faults'' = Some (VInt 1) \<and>
    lvars (observe_sample (ctx w')) ''partition'' = Some (VPartition (Some P)) \<and>
    part_is sample_T P ''faulty'' [sample_replica ''r2'' ''kk'']"
proof -
  have "store_ok sample_T (lreplicas (observe_sample (ctx (sample_world []))))
      (lcap (observe_sample (ctx (sample_world []))))"
    by (simp add: sample_store)
  from common_setup [OF sample_library this] obtain w' p where
    w': "Setup sample_T sample_L [] (sample_world []) = Some w'"
    "observe_sample (ctx w') = (observe_sample (ctx (sample_world [])))\<lparr>lvars :=
      (map_of [])(''n'' \<mapsto> VInt 4, ''faults'' \<mapsto> VInt ((4 - 1) sdiv 3),
       ''partition'' \<mapsto> VPartition p)\<rparr>"
    and p: "byzantine_parts sample_T sample_replicas 1 ((4 - 1) sdiv 3) ''h'' ''faulty'' ''rest'' p"
    unfolding world_of_simps length_sample_replicas of_nat_numeral by (elim exE conjE) (rule that)
  have f: "(4 - 1 :: int) sdiv 3 = 1" by (simp add: sdiv_nonneg)
  from p have "\<exists>P. p = Some P \<and> part_is sample_T P ''faulty'' [sample_replica ''r2'' ''kk'']"
    unfolding f by (auto simp: byzantine_parts_def sample_replicas_def)
  with w' f show ?thesis by auto
qed

theorem change_vote_to_nil_signed_by_owner_witness:
  "\<exists>ms w' bs c. common_ChangeVoteToNil sample_T sample_J sample_L sample_send (sample_world []) =
      Some ((ms, True), w') \<and>
    ms = [Some (fst (NewMessage sample_L c sample_message bs))] \<and>
    vote_bytes sample_T sample_J sample_verify sample_r2 sample_tmsg nil_block_id bs"
proof -
  let ?w = "sample_world []"
  have reps: "Replicas_Iter sample_L (ctx ?w) = sample_replicas" by (simp add: context_specD [OF sample_library])
  have owner: "address_of sample_T r = Some (pv_ValidatorAddress sample_vote) \<longleftrightarrow> r = sample_r2"
    if "r \<in> set sample_replicas" for r
    using that by (auto simp: sample_replicas_def sample_address sample_vote_def sample_r2_def)
  have "sample_r2 \<in> set sample_replicas" by (simp add: sample_replicas_def sample_r2_def)
  moreover have "IsMessageSend sample_L sample_send" "MsgType sample_tmsg = Prevote"
    by (simp_all add: sample_tmsg_def)
  ultimately obtain out w' where "common_ChangeVoteToNil sample_T sample_J sample_L sample_send ?w = Some (out, w')"
    "replaced sample_T sample_J sample_L sample_verify sample_message 0 sample_tmsg sample_r2 nil_block_id ?w out"
    using change_vote_to_nil_signed_by_owner [OF sample_signing sample_conversion sample_codec_spec
      sample_json sample_carries(1) sample_tmsg_parsed(1), of sample_replicas "[]"] owner
    unfolding reps sample_tmsg_parsed(3) using sample_replicas_usable by (auto split: if_splits)
  with sample_replaced show ?thesis by fastforce
qed

section \<open>The round-skip tests\<close>

definition first_two :: "replica list" where
  "first_two = [sample_replica ''r1'' ''k'', sample_replica ''r2'' ''kk'']"

lemma sample_rounds: "Round sample_tmsg = Some 0" "Round sample_proposal_tmsg = Some 0"
  by (rule sample_tmsg_parsed)
    (simp add: Round_def HeightRound_def sample_proposal_tmsg_def proposal_message_def sample_proposal_def)

lemma sample_froms [simp]:
  "msg_From sample_message = ''r2''" "msg_From sample_proposal_message = ''r1''"
  "msg_To sample_message = ''r3''" "msg_To sample_again = ''r3''" "msg_From sample_again = ''r2''"
  "msg_ID sample_message = ''m1''" "msg_ID sample_again = ''m3''"
  by (simp_all add: sample_message_def sample_proposal_message_def sample_again_def)

theorem rskip_round_reached_witness:
  "\<exists>w'. answers (rskip_roundReached sample_L 0) [sample_send, sample_send_proposal] (world_of first_two []) =
      Some ([False, True], w') \<and>
    lvars (observe_sample (ctx w')) ''CurRound'' = Some (VInt 0)"
proof -
  let ?w = "world_of first_two []" and ?es = "[sample_send, sample_send_proposal]"
  define msg where "msg = (\<lambda>e. if e = sample_send then sample_message else sample_proposal_message)"
  have ne: "sample_send \<noteq> sample_send_proposal"
    by (simp add: sample_send_def sample_send_proposal_def)
  have none: "lvars (observe_sample (ctx ?w)) ''roundCount'' = None" by simp
  have "\<forall>e \<in> set ?es. IsMessageSend sample_L e \<and>
      (\<exists>a t. carries sample_L ?w e (msg e) a t \<and> Round t = Some ((\<lambda>_. 0) e))"
    using sample_carries(1,3) [of first_two "[]"] sample_rounds ne by (auto simp: msg_def)
  from rskip_round_reached [OF sample_library none this, of 0]
  obtain bs w' where run: "answers (rskip_roundReached sample_L 0) ?es ?w = Some (bs, w')"
    "length bs = length ?es"
    "\<forall>i < length ?es. bs ! i \<longleftrightarrow>
      int (card (replicas_at 0 (map (\<lambda>e. (msg_From (msg e), (\<lambda>_. 0) e)) (take (Suc i) ?es)))) =
      lcap (observe_sample (ctx ?w))"
    "lvars (observe_sample (ctx w')) ''CurRound'' = (if True \<in> set bs then Some (VInt 0)
      else lvars (observe_sample (ctx ?w)) ''CurRound'')"
    by (elim exE conjE) (rule that)
  have sets: "replicas_at 0 [(''r2'', 0)] = {''r2''}" "replicas_at 0 [(''r2'', 0), (''r1'', 0)] = {''r2'', ''r1''}"
    by (auto simp: replicas_at_def)
  have "\<not> bs ! 0" "bs ! 1"
    using run(3) [rule_format, of 0] run(3) [rule_format, of 1] ne sets
    by (simp_all add: msg_def first_two_def)
  with run(2) have "bs = [False, True]"
    by (cases bs; cases "tl bs") auto
  with run(1,4) show ?thesis by auto
qed

definition delay_vars :: "partition \<Rightarrow> (string \<times> var_value) list" where
  "delay_vars P = [(''partition'', VPartition (Some P)), (''delayedMessages'', VMessageStore 0)]"

theorem delay_and_change_votes_witness:
  "\<exists>P ms b w'. rskip_changeVoteFilter sample_T sample_J sample_L 1 1 sample_send (sample_world (delay_vars P)) =
      Some ((ms, b), w') \<and> part_is sample_T P ''faulty'' [sample_r2] \<and> b \<and>
    (\<exists>bs c. ms = [Some (fst (NewMessage sample_L c sample_message bs))] \<and>
       vote_bytes sample_T sample_J sample_verify sample_r2 sample_tmsg nil_block_id bs)"
proof -
  obtain P where P: "part_is sample_T P ''faulty'' [sample_r2]"
    "part_is sample_T P ''rest'' [sample_replica ''r3'' ''kkk'', sample_replica ''r4'' ''kkkk'']"
    using sample_partition_vars by (auto simp: sample_r2_def)
  let ?w = "sample_world (delay_vars P)"
  have vars: "lvars (observe_sample (ctx ?w)) ''partition'' = Some (VPartition (Some P))"
    "lvars (observe_sample (ctx ?w)) ''delayedMessages'' = Some (VMessageStore 0)"
    "lstores (observe_sample (ctx ?w)) 0 = Some []"
    by (simp_all add: delay_vars_def)
  have t: "MsgType sample_tmsg = Prevote" "ID sample_r2 = ''r2''" "IsMessageSend sample_L sample_send"
    by (simp_all add: sample_tmsg_def sample_r2_def)
  have "msg_From sample_message \<in> ID ` set [sample_r2]"
    "msg_From sample_message \<notin> ID ` set [sample_replica ''r3'' ''kkk'', sample_replica ''r4'' ''kkkk'']"
    "find (\<lambda>rep. ID rep = msg_From sample_message) sample_replicas = Some sample_r2"
    using t(2) by (simp_all add: sample_replicas_def sample_r2_def sample_message_def)
  with delay_and_change_votes [OF sample_library sample_signing sample_conversion sample_codec_spec
      sample_json t(3) sample_carries(1) sample_tmsg_parsed(1,4) vars(1) P(2,1) vars(2,3),
      of 1 1] t(1) sample_replicas_usable
  obtain out w' where "rskip_changeVoteFilter sample_T sample_J sample_L 1 1 sample_send ?w = Some (out, w')"
    "replaced sample_T sample_J sample_L sample_verify sample_message 0 sample_tmsg sample_r2 nil_block_id ?w out"
    by auto
  with sample_replaced [OF this(2)] P(1) show ?thesis by fastforce
qed

theorem deliver_delayed_witness:
  "\<exists>w'. deliverDelayedFilter sample_L sample_send
      ((sample_world [(''delayedMessages'', VMessageStore 0)])\<lparr>ctx :=
        Store_Add sample_L (ctx (sample_world [(''delayedMessages'', VMessageStore 0)])) 0 sample_again\<rparr>) =
      Some (([Some sample_again, Some sample_message], True), w') \<and>
    lstores (observe_sample (ctx w')) 0 = Some []"
proof -
  let ?w0 = "sample_world [(''delayedMessages'', VMessageStore 0)]"
  let ?w = "?w0\<lparr>ctx := Store_Add sample_L (ctx ?w0) 0 sample_again\<rparr>"
  have w: "IsMessageSend sample_L sample_send"
    "lpool (observe_sample (ctx ?w)) (MessageID sample_L sample_send) = Some sample_message"
    "lvars (observe_sample (ctx ?w)) ''delayedMessages'' = Some (VMessageStore 0)"
    "lstores (observe_sample (ctx ?w)) 0 = Some [sample_again]"
    by (simp_all add: world_of_def sample_L_def observe_sample_def stores_of_def sample_send_def)
  from deliver_delayed [OF sample_library w, of sample_send] show ?thesis by auto
qed

text \<open>One replica, one height and one round: the shortest run to the delivery.\<close>

lemma sample_run:
  assumes "distinct [StartStateLabel lb, SuccessStateLabel lb, ''delayAndChangeVotes'', ''deliverDelayed'']"
  shows "\<exists>w. run observe_sample (StartStateLabel lb) (rskip_OneTestcase sample_T sample_J sample_L lb 1 0)
    (world_of [sample_r2] []) ''deliverDelayed'' w"
proof -
  let ?tc = "rskip_OneTestcase sample_T sample_J sample_L lb 1 0" and ?w0 = "world_of [sample_r2] []"
  have "(0 :: int) sdiv 3 = 0" by (simp add: sdiv_nonneg)
  then obtain w1 where w1: "rskip_setupFunc sample_T sample_L ?w0 = Some w1" "tmsgs w1 = tmsgs ?w0"
    "lmessage (observe_sample (ctx w1)) = lmessage (observe_sample (ctx ?w0))"
    "lcap (observe_sample (ctx w1)) = 1" "lvars (observe_sample (ctx w1)) ''roundCount'' = None"
    by (simp add: rskip_setupFunc_def create_partition_def CreatePartition_def NewGenericPartitioner_def
        world_of_def sample_L_def observe_sample_def Let_def split: prod.split)
  note c = sample_carries(1) [of "[sample_r2]" "[]", unfolded carries_keep [OF sample_library w1(3,2), symmetric]]
  have send: "IsMessageSend sample_L sample_send" by simp
  have "run observe_sample (StartStateLabel lb) ?tc ?w0 (StartStateLabel lb) w1"
    by (rule run_start) (simp add: rskip_OneTestcase_def w1(1))
  moreover have "heightReached sample_L 1 sample_send w1 = Some (True, w1)"
    using carriesD [OF c] send by (simp add: heightReached_def Height_def sample_tmsg_parsed)
  ultimately have r1: "run observe_sample (StartStateLabel lb) ?tc ?w0 ''delayAndChangeVotes'' w1"
    using run_edge [of observe_sample "StartStateLabel lb" ?tc ?w0 "StartStateLabel lb" w1
        "heightReached sample_L 1" "''delayAndChangeVotes''" sample_send True w1]
    by (simp add: rskip_OneTestcase_def)
  have m: "count_reached 0 (track_round ''r2'' 0 []) = 1"
    by (simp add: count_reached_def track_round_def)
  have new: "round_count_ok observe_sample ''roundCount'' w1" "round_count observe_sample ''roundCount'' w1 = []"
    using round_count_ok_new [of observe_sample w1 "''roundCount''", OF w1(5)] by simp_all
  from rskip_roundReached_step [OF sample_library send c sample_rounds(1) new(1), of 0] w1(4) new(2) m
  obtain w2 where "rskip_roundReached sample_L 0 sample_send w1 = Some (True, w2)" by auto
  with r1 have "run observe_sample (StartStateLabel lb) ?tc ?w0 ''deliverDelayed'' w2"
    using run_edge [of observe_sample "StartStateLabel lb" ?tc ?w0 "''delayAndChangeVotes''" w1
        "rskip_roundReached sample_L 0" "''deliverDelayed''" sample_send True w2]
    by (simp add: rskip_OneTestcase_def)
  then show ?thesis by blast
qed

theorem rskip_one_safe_witness:
  "\<exists>w. run observe_sample ''start'' (rskip_OneTestcase sample_T sample_J sample_L sample_labels 1 0)
      (world_of [sample_r2] []) ''deliverDelayed'' w \<and>
    tc_assert (rskip_OneTestcase sample_T sample_J sample_L sample_labels 1 0) ''deliverDelayed'' w = Some True"
proof -
  have d: "distinct [StartStateLabel sample_labels, SuccessStateLabel sample_labels,
      ''delayAndChangeVotes'', ''deliverDelayed'']"
    by (simp add: sample_labels_def)
  obtain w where w: "run observe_sample (StartStateLabel sample_labels)
      (rskip_OneTestcase sample_T sample_J sample_L sample_labels 1 0) (world_of [sample_r2] []) ''deliverDelayed'' w"
    using sample_run [OF d] by blast
  from rskip_one_safe [OF sample_library d w] w show ?thesis
    by (auto simp: sample_labels_def)
qed

theorem blocking_quota_witness:
  "\<exists>w'. outputs (filter_less_than_n_minus_f sample_L) [sample_send, sample_send_again]
      (world_of [sample_r2] [(''delayedMessages'', VMessageStore 0)]) =
    Some ([([], True), ([Some sample_again], True)], w') \<and>
    lstores (observe_sample (ctx w')) 0 = Some [sample_message]"
proof -
  let ?vars = "[(''delayedMessages'', VMessageStore 0)]" and ?es = "[sample_send, sample_send_again]"
  let ?w = "world_of [sample_r2] ?vars"
  define msg where "msg = (\<lambda>e. if e = sample_send then sample_message else sample_again)"
  have ne: "sample_send \<noteq> sample_send_again" by (simp add: sample_send_def sample_send_again_def)
  have msg: "msg sample_send = sample_message" "msg sample_send_again = sample_again"
    using ne by (simp_all add: msg_def)
  have ty: "MsgType sample_tmsg = Prevote" by (simp add: sample_tmsg_def)
  have es: "\<forall>e \<in> set ?es. IsMessageSend sample_L e \<and> (\<exists>a t. carries sample_L ?w e (msg e) a t \<and> MsgType t = Prevote)"
    using sample_carries(1,4) [of "[sample_r2]" ?vars] ty msg by auto
  have vars: "lvars (observe_sample (ctx ?w)) ''msgCounter'' = None"
    "lvars (observe_sample (ctx ?w)) ''delayedMessages'' = Some (VMessageStore 0)"
    "lstores (observe_sample (ctx ?w)) 0 = Some []" "distinct (map (\<lambda>e. msg_ID (msg e)) ?es)"
    "0 \<le> lcap (observe_sample (ctx ?w))"
    using msg by simp_all
  obtain outs w' ds where run: "outputs (filter_less_than_n_minus_f sample_L) ?es ?w = Some (outs, w')"
    "length outs = length ?es"
    "\<forall>i < length ?es. outs ! i =
      (if int (count_list (map (\<lambda>e. msg_To (msg e)) (take i ?es)) (msg_To (msg (?es ! i)))) <
          lcap (observe_sample (ctx ?w)) div 3 + 1
       then ([], True) else ([Some (msg (?es ! i))], True))"
    "lstores (observe_sample (ctx w')) 0 = Some ds"
    "set ds = {msg (?es ! i) | i. i < length ?es \<and> outs ! i = ([], True)}"
    using blocking_quota [OF sample_library es vars] by (elim exE conjE) (rule that)
  have o: "outs ! 0 = ([], True)" "outs ! 1 = ([Some sample_again], True)"
    using run(3) [rule_format, of 0] run(3) [rule_format, of 1] msg by simp_all
  with run(2) have outs: "outs = [([], True), ([Some sample_again], True)]"
    by (cases outs; cases "tl outs") auto
  have "set ds = {sample_message}"
    using run(5) msg unfolding outs
    by (auto simp: less_Suc_eq numeral_2_eq_2) (rule exI [of _ 0], simp)
  moreover have "distinct (map msg_ID ds)"
    using run(4) store_list_distinct by (auto simp: observe_sample_def stores_of_Some)
  ultimately have "ds = [sample_message]"
    by (cases ds; cases "tl ds") (auto simp: subset_singleton_iff)
  with run(1,4) outs show ?thesis by blast
qed

end
