(* ===== verification/Returns.thy ===== *)
theory Returns
  imports Testcases
begin

text \<open>
  What the proofs that a test case does not panic share: the replicas it can run with, what comes
  from the network, the parts that a setup has made, and the library and forging calls that return.
\<close>

section \<open>Replicas\<close>

text \<open>The replicas the test runs with: their keys can be used and the chain id is a text or absent.\<close>

definition replicas_fit :: "'k tendermint \<Rightarrow> replica list \<Rightarrow> int \<Rightarrow> bool" where
  "replicas_fit T rs cap \<longleftrightarrow> store_ok T rs cap \<and> 4 \<le> length rs \<and> length rs mod 3 = 1 \<and>
     (\<forall>r \<in> set rs. Info r ''chain_id'' \<noteq> Some InfoOther)"

lemma find_by_ID:
  "r \<in> set rs \<Longrightarrow> distinct (map ID rs) \<Longrightarrow> find (\<lambda>x. ID x = ID r) rs = Some (r :: replica)"
  by (induction rs) auto

lemma IsVoteFrom_own:
  assumes "usable T h" and "inner_vote t = Some v"
  shows "IsVoteFrom T t (Some h) = Some (address_of T h = Some (pv_ValidatorAddress v))"
proof -
  obtain res where "GetPrivKey T (Some h) = Some res" using GetPrivKey_Some by blast
  then show ?thesis
    using assms
    by (cases res; cases "projr res")
      (auto simp: IsVoteFrom_def usable_def address_of_def GetReplicaAddress_def)
qed

section \<open>Messages\<close>

lemma proposal_block_total:
  assumes "well_typed t" and "MsgType t = Proposal"
  shows "\<exists>b. GetProposalBlockIDS T t = Some b"
  using well_typed_proposal [OF assms] assms(2)
  by (auto simp: GetProposalBlockIDS_def GetProposalBlockID_def)

lemma proposal_blocks:
  assumes "well_typed t" and "MsgType t = Proposal"
  shows "\<exists>b x. GetProposalBlockIDS T t = Some b \<and> GetProposalBlockID T t = Some x"
  using proposal_block_total [OF assms, of T]
  by (cases "GetProposalBlockID T t") (auto simp: GetProposalBlockIDS_def)

lemma vote_block_total:
  assumes "well_typed t" and "MsgType t = Prevote \<or> MsgType t = Precommit"
  shows "\<exists>b. GetVoteBlockIDS T t = Some b"
  using well_typed_vote [OF assms] assms(2) by (auto simp: GetVoteBlockIDS_def GetVoteBlockID_def)

lemma ex_bool: "\<exists>b. b" "\<exists>b. \<not> b"
  by blast+

lemma ChangeVote_result:
  assumes "ChangeVote T r a b w = Some ((res, None), w')"
  shows "res = Some a \<and> (\<exists>t. tmsgs w' a = Some t)"
  using assms
  by (auto simp: ChangeVote_def Let_def put_vote_def put_tmsg_def split: sum.splits if_splits Option.bind_splits)

lemma round_count_cong:
  assumes "lvars (\<alpha> (ctx w')) key = lvars (\<alpha> (ctx w)) key" and "int_maps w' = int_maps w"
  shows "round_count \<alpha> key w' = round_count \<alpha> key w" and "round_count_ok \<alpha> key w' = round_count_ok \<alpha> key w"
  using assms by (simp_all add: round_count_def round_count_ok_def split: option.split var_value.split)

section \<open>What comes from the network\<close>

text \<open>
  Every message an event or the pool refers to came from the parser, and from a registered replica.
\<close>

definition heard :: "('e, 'c) testlib \<Rightarrow> replica list \<Rightarrow> 'c world \<Rightarrow> bool" where
  "heard L rs w \<longleftrightarrow>
     (\<forall>m a. (\<exists>e. GetMessage L (ctx w) e = Some m) \<or> (\<exists>i. MessagePool_Get L (ctx w) i = Some m) \<longrightarrow>
        GetParsedMessage (Some m) = Some a \<longrightarrow>
        (\<exists>t. tmsgs w a = Some t \<and> well_typed t \<and> From t \<in> ID ` set rs))"

lemma heard_event:
  assumes "heard L rs w" and "GetMessageFromEvent L e w = Some a"
  obtains m t r where "carries L w e m a t" and "Round t = Some r" and "From t \<in> ID ` set rs"
proof -
  from assms(2) obtain m where m: "GetMessage L (ctx w) e = Some m" "GetParsedMessage (Some m) = Some a"
    by (auto simp: GetMessageFromEvent_def split: option.splits)
  with assms(1) obtain t where t: "tmsgs w a = Some t" "well_typed t" "From t \<in> ID ` set rs"
    unfolding heard_def by blast
  then obtain r where "Round t = Some r" using well_typed_HeightRound [of t] by (auto simp: Round_def)
  with m t show ?thesis by (intro that [of m t r]) (simp_all add: carries_def)
qed

lemma heard_message:
  assumes "heard L rs w" and "message_of L e w = Some (m, a)"
  obtains t r where "carries L w e m a t" and "Round t = Some r" and "From t \<in> ID ` set rs"
proof -
  have "GetMessage L (ctx w) e = Some m" "GetMessageFromEvent L e w = Some a"
    using assms(2) by (auto simp: message_of_def GetMessageFromEvent_def split: option.splits)
  with heard_event [OF assms(1) this(2)] that show ?thesis by (metis carriesD(1) option.inject)
qed

lemma pool_event:
  assumes "pool_ok L w" and "GetMessageFromEvent L e w = Some a"
  obtains m t r where "carries L w e m a t" and "Round t = Some r"
proof -
  from assms obtain t where t: "tmsgs w a = Some t" "well_typed t" unfolding pool_ok_def by blast
  obtain m where m: "GetMessage L (ctx w) e = Some m" "GetParsedMessage (Some m) = Some a"
    using assms(2) by (auto simp: GetMessageFromEvent_def split: option.splits)
  obtain r where "Round t = Some r" using well_typed_HeightRound [OF t(2)] by (auto simp: Round_def)
  with t m show ?thesis by (intro that [of m t r]) (simp_all add: carries_def)
qed

lemma pool_message:
  assumes "pool_ok L w" and "message_of L e w = Some (m, a)"
  obtains t r where "carries L w e m a t" and "Round t = Some r"
proof -
  have "GetMessage L (ctx w) e = Some m" "GetMessageFromEvent L e w = Some a"
    using assms(2) by (auto simp: message_of_def GetMessageFromEvent_def split: option.splits)
  with pool_event [OF assms(1) this(2)] that show ?thesis by (metis carriesD(1) option.inject)
qed

section \<open>The parts\<close>

abbreviation faults_of :: "replica list \<Rightarrow> int" where
  "faults_of rs \<equiv> (int (length rs) - 1) sdiv 3"

lemma faults_pos:
  assumes "4 \<le> length rs"
  shows "1 \<le> faults_of rs" and "nat (faults_of rs) < length rs"
proof -
  have "faults_of rs = (int (length rs) - 1) div 3" by (rule sdiv_nonneg) (use assms in linarith)
  with assms show "1 \<le> faults_of rs" "nat (faults_of rs) < length rs" by linarith+
qed

text \<open>
  The setups of the locked-value tests and of the test of a higher proposal deal the replicas out
  in the same three parts: f faulty ones, one under observation, and the rest.
\<close>

definition byz_setup :: "'k tendermint \<Rightarrow> ('c \<Rightarrow> 'e lib_state) \<Rightarrow> replica list \<Rightarrow> 'c world \<Rightarrow> bool" where
  "byz_setup T \<alpha> rs w \<longleftrightarrow>
     (\<exists>P. lvars (\<alpha> (ctx w)) ''partition'' = Some (VPartition (Some P)) \<and>
        part_is T P ''faulty'' (take (nat (faults_of rs)) rs) \<and>
        part_is T P ''honestDelayed'' [rs ! nat (faults_of rs)] \<and>
        part_is T P ''rest'' (drop (nat (faults_of rs) + 1) rs)) \<and>
     lvars (\<alpha> (ctx w)) ''faults'' = Some (VInt (faults_of rs)) \<and>
     lreplicas (\<alpha> (ctx w)) = rs \<and> lcap (\<alpha> (ctx w)) = int (length rs)"

lemma byz_partition:
  assumes lib: "testlib_spec L \<alpha>" and fit: "replicas_fit T rs (lcap (\<alpha> (ctx w)))" and rs: "rs = lreplicas (\<alpha> (ctx w))"
  shows "\<exists>P. create_partition T L [faults_of rs, 1, 2 * faults_of rs] [''faulty'', ''honestDelayed'', ''rest''] w =
      Some (Some P) \<and> part_is T P ''faulty'' (take (nat (faults_of rs)) rs) \<and>
    part_is T P ''honestDelayed'' [rs ! nat (faults_of rs)] \<and>
    part_is T P ''rest'' (drop (nat (faults_of rs) + 1) rs)"
proof -
  have store: "store_ok T rs (lcap (\<alpha> (ctx w)))" and len: "4 \<le> length rs" "length rs mod 3 = 1"
    using fit by (auto simp: replicas_fit_def)
  have cap: "lcap (\<alpha> (ctx w)) = int (length rs)" using store by (simp add: store_ok_def)
  have "take 1 (drop (nat (faults_of rs)) rs) = [rs ! nat (faults_of rs)]"
    using faults_pos(2) [OF len(1)] by (simp add: take_Suc hd_drop_conv_nth)
  with create_partition_byzantine [OF lib rs store, of "faults_of rs" "faults_of rs" 1 "''faulty''" "''honestDelayed''" "''rest''"]
    len cap show ?thesis
    by (auto simp: byzantine_parts_def)
qed

lemma byz_setup_cong:
  assumes "byz_setup T \<alpha> rs w" and "\<And>k. k \<in> {''partition'', ''faults''} \<Longrightarrow> lvars (\<alpha> (ctx w')) k = lvars (\<alpha> (ctx w)) k"
    and "lreplicas (\<alpha> (ctx w')) = lreplicas (\<alpha> (ctx w))" and "lcap (\<alpha> (ctx w')) = lcap (\<alpha> (ctx w))"
  shows "byz_setup T \<alpha> rs w'"
  using assms by (simp add: byz_setup_def)

lemma byz_setupE:
  assumes "testlib_spec L \<alpha>" and "byz_setup T \<alpha> rs w" and "replicas_fit T rs cap"
  obtains P pf ph pr where "Vars_Get L (ctx w) ''partition'' = Some (VPartition (Some P))"
    and "Partition_GetPart (Some P) ''faulty'' = Some (Some pf)"
    and "\<And>i. Part_Contains (Some pf) i = Some (i \<in> ID ` set (take (nat (faults_of rs)) rs))"
    and "part_is T P ''honestDelayed'' [rs ! nat (faults_of rs)]"
    and "Partition_GetPart (Some P) ''honestDelayed'' = Some (Some ph)"
    and "\<And>i. Part_Contains (Some ph) i = Some (i = ID (rs ! nat (faults_of rs)))"
    and "Partition_GetPart (Some P) ''rest'' = Some (Some pr)"
    and "\<And>i. Part_Contains (Some pr) i = Some (i \<in> ID ` set (drop (nat (faults_of rs) + 1) rs))"
    and "Vars_Get L (ctx w) ''faults'' = Some (VInt (faults_of rs))" and "rs ! nat (faults_of rs) \<in> set rs"
proof -
  from assms(2) obtain P where P: "lvars (\<alpha> (ctx w)) ''partition'' = Some (VPartition (Some P))"
    "part_is T P ''faulty'' (take (nat (faults_of rs)) rs)" "part_is T P ''honestDelayed'' [rs ! nat (faults_of rs)]"
    "part_is T P ''rest'' (drop (nat (faults_of rs) + 1) rs)"
    by (auto simp: byz_setup_def)
  obtain pf where pf: "Partition_GetPart (Some P) ''faulty'' = Some (Some pf)"
    "\<And>i. Part_Contains (Some pf) i = Some (i \<in> ID ` set (take (nat (faults_of rs)) rs))"
    using P(2) by (auto simp: part_is_def)
  obtain ph where ph: "Partition_GetPart (Some P) ''honestDelayed'' = Some (Some ph)"
    "\<And>i. Part_Contains (Some ph) i = Some (i = ID (rs ! nat (faults_of rs)))"
    using P(3) by (auto simp: part_is_def)
  obtain pr where pr: "Partition_GetPart (Some P) ''rest'' = Some (Some pr)"
    "\<And>i. Part_Contains (Some pr) i = Some (i \<in> ID ` set (drop (nat (faults_of rs) + 1) rs))"
    using P(4) by (auto simp: part_is_def)
  have "rs ! nat (faults_of rs) \<in> set rs"
    using faults_pos(2) [of rs] assms(3) by (simp add: replicas_fit_def)
  with P(1,3) pf ph pr assms(2) show ?thesis
    by (intro that) (simp_all add: vars_specD [OF assms(1)] byz_setup_def)
qed

text \<open>A registered replica is found by its id, and can be used.\<close>

lemma replica_found:
  assumes "testlib_spec L \<alpha>" and "lreplicas (\<alpha> (ctx w)) = rs" and "replicas_fit T rs cap" and "r \<in> set rs"
  shows "Replicas_Get L (ctx w) (ID r) = Some r"
    and "usable T r" and "Info r ''chain_id'' \<noteq> Some InfoOther"
  using assms find_by_ID [of r rs]
  by (auto simp: context_specD [OF assms(1)] replicas_fit_def store_ok_def)

text \<open>Forging a vote for a block and encoding it returns.\<close>

lemma forge_and_marshal:
  assumes "well_typed t" and "tmsgs w a = Some t" and "usable T r" and "Info r ''chain_id'' \<noteq> Some InfoOther"
  shows "\<exists>res err w1. ChangeVote T (Some r) a (Some b) w = Some ((res, err), w1) \<and>
    (err = None \<longrightarrow> res = Some a \<and> (\<exists>out w2. Marshal T J a w1 = Some (out, w2)))"
proof -
  from ChangeVote_returns [OF assms] obtain res err w1 where
    cv: "ChangeVote T (Some r) a (Some b) w = Some ((res, err), w1)" by fastforce
  with ChangeVote_result [of T "Some r" a "Some b" w res w1] Marshal_total show ?thesis by fastforce
qed

end
