(* ===== verification/LockedValue.thy ===== *)
theory LockedValue
  imports Returns
begin

text \<open>
  The package \<open>testcases/lockedvalue\<close>: three test cases about a replica that locks a value in
  round 0 (\<open>one.go\<close>, \<open>two.go\<close>, \<open>three.go\<close>) and what they share (\<open>common.go\<close>).
\<close>

section \<open>Shared conditions and utilities\<close>

text \<open>No comma-ok on the type assertion.\<close>

definition getReplicaPartition :: "('e, 'c) testlib \<Rightarrow> 'c world \<Rightarrow> partition option option" where
  "getReplicaPartition L w =
     (case Vars_Get L (ctx w) ''partition'' of Some (VPartition p) \<Rightarrow> Some p | _ \<Rightarrow> None)"

text \<open>This condition looks at every event with a message, sent or received.\<close>

definition lv_roundReached :: "('e, 'c) testlib \<Rightarrow> int \<Rightarrow> ('e, 'c) condition" where
  "lv_roundReached L toRound e w =
     (case GetMessageFromEvent L e w of
        None \<Rightarrow> Some (False, w)
      | Some a \<Rightarrow> do {
          tMsg \<leftarrow> tmsgs w a;
          round \<leftarrow> Round tMsg;
          (roundCount, w1) \<leftarrow> updateRoundCount L ''roundCount'' track_round round (From tMsg) w;
          Some (count_reached toRound roundCount = Replicas_Cap L (ctx w1), w1) })"

definition lv_valueLockedCond :: "'k tendermint \<Rightarrow> ('e, 'c) testlib \<Rightarrow> ('e, 'c) condition" where
  "lv_valueLockedCond T L e w =
     (if \<not> IsMessageReceive L e then Some (False, w)
      else case GetParsedMessage (GetMessage L (ctx w) e) of
        None \<Rightarrow> Some (False, w)
      | Some a \<Rightarrow> do {
          tMsg \<leftarrow> tmsgs w a;
          ptn \<leftarrow> getReplicaPartition L w;
          honestDelayed \<leftarrow> Partition_GetPart ptn ''honestDelayed'';
          toDelayed \<leftarrow> (if MsgType tMsg = Prevote then Part_Contains honestDelayed (To tMsg)
                        else Some False);
          (if \<not> toDelayed then Some (False, w)
           else do {
             fI \<leftarrow> Vars_Get L (ctx w) ''faults'';
             faults \<leftarrow> (case fI of VInt f \<Rightarrow> Some f | _ \<Rightarrow> None);
             voteBlockID \<leftarrow> GetVoteBlockIDS T tMsg;
             (if voteBlockID \<noteq> None \<and> Vars_GetString L (ctx w) ''oldProposal'' = voteBlockID then
                (let votes = (case Vars_GetInt L (ctx w) ''prevotesSent'' of Some v \<Rightarrow> v | None \<Rightarrow> 0) + 1;
                     w1 = set_var L ''prevotesSent'' (VInt votes) w
                 in Some (2 * faults \<le> votes, w1))
              else Some (False, w)) }) })"

definition isFaultyVote :: "('e, 'c) testlib \<Rightarrow> tmessage \<Rightarrow> 'c world \<Rightarrow> bool option" where
  "isFaultyVote L tMsg w = do {
     ptn \<leftarrow> getReplicaPartition L w;
     faulty \<leftarrow> Partition_GetPart ptn ''faulty'';
     (if MsgType tMsg = Prevote \<or> MsgType tMsg = Precommit then Part_Contains faulty (From tMsg)
      else Some False) }"

text \<open>
  The message object is at the address \<open>a\<close>. A replica that is not registered is the nil pointer,
  on which signing panics; any error gives the message back.
\<close>

definition changeFultyVote :: "'k tendermint \<Rightarrow> json \<Rightarrow> ('e, 'c) testlib \<Rightarrow> message \<Rightarrow> addr \<Rightarrow>
    tmessage \<Rightarrow> 'c world \<Rightarrow> (message \<times> 'c world) option" where
  "changeFultyVote T J L message a tMsg w = do {
     ptn \<leftarrow> getReplicaPartition L w;
     faulty \<leftarrow> Partition_GetPart ptn ''faulty'';
     isVote \<leftarrow> (if MsgType tMsg = Prevote \<or> MsgType tMsg = Precommit
                then Part_Contains faulty (From tMsg) else Some False);
     (if isVote then do {
        let replica = Replicas_Get L (ctx w) (From tMsg);
        ((newVote, err), w1) \<leftarrow> ChangeVoteToNil T replica a w;
        (if err \<noteq> None then Some (message, w1)
         else do {
           a' \<leftarrow> newVote;
           (newMsgB, w2) \<leftarrow> Marshal T J a' w1;
           Some (case newMsgB of
               Inl _ \<Rightarrow> (message, w2)
             | Inr bs \<Rightarrow> (case NewMessage L (ctx w2) message bs of (m', c) \<Rightarrow> (m', w2\<lparr>ctx := c\<rparr>))) }) }
      else Some (message, w)) }"

section \<open>The filters of \<open>one.go\<close>\<close>

definition lv_faultyReplicaFilter :: "'k tendermint \<Rightarrow> json \<Rightarrow> ('e, 'c) testlib \<Rightarrow> ('e, 'c) handler" where
  "lv_faultyReplicaFilter T J L e w =
     (case message_of L e w of
        None \<Rightarrow> Some (([], False), w)
      | Some (message, a) \<Rightarrow> do {
          tMsg \<leftarrow> tmsgs w a;
          faultyVote \<leftarrow> isFaultyVote L tMsg w;
          (if faultyVote then do {
             (m', w1) \<leftarrow> changeFultyVote T J L message a tMsg w;
             Some (([Some m'], True), w1) }
           else Some (([], False), w)) })"

text \<open>Appending to a list of strings kept in a variable, which is created empty.\<close>

definition append_string :: "('e, 'c) testlib \<Rightarrow> string \<Rightarrow> string \<Rightarrow> 'c world \<Rightarrow> 'c world option" where
  "append_string L key s w = do {
     let w1 = (case Vars_Get L (ctx w) key of None \<Rightarrow> set_var L key (VStrings []) w | Some _ \<Rightarrow> w);
     v \<leftarrow> Vars_Get L (ctx w1) key;
     xs \<leftarrow> (case v of VStrings xs \<Rightarrow> Some xs | _ \<Rightarrow> None);
     Some (set_var L key (VStrings (xs @ [s])) w1) }"

text \<open>The \<open>switch\<close> that \<open>Round0\<close> and \<open>round0\<close> share.\<close>

definition lv_record_round0 :: "'k tendermint \<Rightarrow> ('e, 'c) testlib \<Rightarrow> message \<Rightarrow> tmessage \<Rightarrow>
    'c world \<Rightarrow> ((message option list \<times> bool) \<times> 'c world) option" where
  "lv_record_round0 T L message tMsg w =
     (if MsgType tMsg = Proposal then do {
        blockID \<leftarrow> GetProposalBlockIDS T tMsg;
        Some (([Some message], True),
          (case blockID of Some b \<Rightarrow> set_var L ''oldProposal'' (VString b) w | None \<Rightarrow> w)) }
      else if MsgType tMsg = Prevote then do {
        ptn \<leftarrow> getReplicaPartition L w;
        honestDelayed \<leftarrow> Partition_GetPart ptn ''honestDelayed'';
        fromDelayed \<leftarrow> Part_Contains honestDelayed (From tMsg);
        (if fromDelayed then do {
           w1 \<leftarrow> append_string L ''delayedPrevotes'' (msg_ID message) w;
           Some (([], True), w1) }
         else Some (([Some message], True), w)) }
      else Some (([Some message], True), w))"

definition lv_Round0 :: "'k tendermint \<Rightarrow> ('e, 'c) testlib \<Rightarrow> ('e, 'c) handler" where
  "lv_Round0 T L e w =
     (case message_of L e w of
        None \<Rightarrow> Some (([], False), w)
      | Some (message, a) \<Rightarrow> do {
          tMsg \<leftarrow> tmsgs w a;
          round \<leftarrow> Round tMsg;
          (if round = -1 then Some (([Some message], True), w)
           else if round \<noteq> 0 then Some (([], False), w)
           else lv_record_round0 T L message tMsg w) })"

definition lv_round0Message :: "('e, 'c) testlib \<Rightarrow> ('e, 'c) condition" where
  "lv_round0Message L e w =
     (case GetMessageFromEvent L e w of
        None \<Rightarrow> Some (False, w)
      | Some a \<Rightarrow> do { tMsg \<leftarrow> tmsgs w a; round \<leftarrow> Round tMsg; Some (round = 0, w) })"

definition lv_round0 :: "'k tendermint \<Rightarrow> ('e, 'c) testlib \<Rightarrow> ('e, 'c) handler" where
  "lv_round0 T L e w =
     (case message_of L e w of
        None \<Rightarrow> Some (([], False), w)
      | Some (message, a) \<Rightarrow> do {
          tMsg \<leftarrow> tmsgs w a;
          lv_record_round0 T L message tMsg w })"

definition recordDelayedProposal :: "('e, 'c) testlib \<Rightarrow> string \<Rightarrow> 'c world \<Rightarrow> 'c world option" where
  "recordDelayedProposal L i w = append_string L ''delayedProposals'' i w"

text \<open>
  The test \<open>honestDelayed.Contains(tMsg.From) && util.IsVoteFrom(tMsg, replica)\<close>, evaluated from
  left to right.
\<close>

definition own_vote_of :: "'k tendermint \<Rightarrow> part option \<Rightarrow> replica option \<Rightarrow> tmessage \<Rightarrow> bool option" where
  "own_vote_of T part replica tMsg = do {
     fromPart \<leftarrow> Part_Contains part (From tMsg);
     (if fromPart then IsVoteFrom T tMsg replica else Some False) }"

definition lv_Round1 :: "'k tendermint \<Rightarrow> ('e, 'c) testlib \<Rightarrow> ('e, 'c) handler" where
  "lv_Round1 T L e w =
     (case message_of L e w of
        None \<Rightarrow> Some (([], False), w)
      | Some (message, a) \<Rightarrow> do {
          tMsg \<leftarrow> tmsgs w a;
          round \<leftarrow> Round tMsg;
          (if round = -1 then Some (([Some message], True), w)
           else if round \<noteq> 1 then Some (([], False), w)
           else do {
             ptn \<leftarrow> getReplicaPartition L w;
             honestDelayed \<leftarrow> Partition_GetPart ptn ''honestDelayed'';
             let replica = Replicas_Get L (ctx w) (From tMsg);
             (if MsgType tMsg = Proposal then do {
                w1 \<leftarrow> recordDelayedProposal L (msg_ID message) w;
                Some (([], True), w1) }
              else if MsgType tMsg = Prevote then do {
                own \<leftarrow> own_vote_of T honestDelayed replica tMsg;
                (if own then do {
                   voteBlockID \<leftarrow> GetVoteBlockIDS T tMsg;
                   Some (([Some message], True),
                     (case voteBlockID of
                        Some b \<Rightarrow> if b \<noteq> string_var L ''oldProposal'' w
                                  then abort_test L w else w
                      | None \<Rightarrow> w)) }
                 else Some (([Some message], True), w)) }
              else Some (([Some message], True), w)) }) })"

definition lv_Round2 :: "'k tendermint \<Rightarrow> ('e, 'c) testlib \<Rightarrow> ('e, 'c) handler" where
  "lv_Round2 T L e w =
     (case message_of L e w of
        None \<Rightarrow> Some (([], False), w)
      | Some (message, a) \<Rightarrow> do {
          tMsg \<leftarrow> tmsgs w a;
          round \<leftarrow> Round tMsg;
          (if round = -1 then Some (([Some message], True), w)
           else if round \<noteq> 2 then Some (([], False), w)
           else if MsgType tMsg = Proposal then do {
             blockID \<leftarrow> GetProposalBlockIDS T tMsg;
             (case blockID of
                None \<Rightarrow> Some (([Some message], True), w)
              | Some b \<Rightarrow>
                  (let w1 = set_var L ''newProposal'' (VString b) w
                   in case Vars_Get L (ctx w1) ''oldProposal'' of
                        None \<Rightarrow> Some (([Some message], True), w1)
                      | Some (VString oldProp) \<Rightarrow> Some (([Some message], True),
                          (if oldProp = b then abort_test L w1 else w1))
                      | Some _ \<Rightarrow> None)) }
           else if MsgType tMsg = Prevote then do {
             ptn \<leftarrow> getReplicaPartition L w;
             honestDelayed \<leftarrow> Partition_GetPart ptn ''honestDelayed'';
             own \<leftarrow> own_vote_of T honestDelayed (Replicas_Get L (ctx w) (From tMsg)) tMsg;
             (if own then do {
                let oldProp = string_var L ''oldProposal'' w;
                voteBlockID \<leftarrow> GetVoteBlockIDS T tMsg;
                let w1 = set_var L ''vote'' (VString (case voteBlockID of Some b \<Rightarrow> b | None \<Rightarrow> '''')) w;
                Some (([Some message], True),
                  (if voteBlockID = Some oldProp then abort_test L w1 else w1)) }
              else Some (([Some message], True), w)) }
           else Some (([Some message], True), w)) })"

section \<open>Setup and conditions of \<open>one.go\<close>\<close>

text \<open>The log line at the end prints the partition: it panics when the partition is nil.\<close>

definition lv_testCaseOneSetup :: "'k tendermint \<Rightarrow> ('e, 'c) testlib \<Rightarrow> 'c world \<Rightarrow> 'c world option" where
  "lv_testCaseOneSetup T L w = do {
     let faults = (Replicas_Cap L (ctx w) - 1) sdiv 3;
     p \<leftarrow> create_partition T L [faults, 1, 2 * faults] [''faulty'', ''honestDelayed'', ''rest''] w;
     let w1 = set_var L ''faults'' (VInt faults) (set_var L ''partition'' (VPartition p) w);
     _ \<leftarrow> Partition_String (\<lambda>x. x) (\<lambda>x. x) p;
     Some w1 }"

text \<open>The two commit conditions differ in the variable they compare with.\<close>

definition commit_matches :: "('e, 'c) testlib \<Rightarrow> string \<Rightarrow> 'e \<Rightarrow> 'c world \<Rightarrow> bool option" where
  "commit_matches L key e w =
     (case event_Type L e of
        OtherEventType \<Rightarrow> Some False
      | GenericEventType ty params \<Rightarrow>
          if ty \<noteq> ''Committing block'' then Some False
          else (case params ''block_id'' of
            None \<Rightarrow> Some False
          | Some blockID \<Rightarrow> (case Vars_Get L (ctx w) key of
              None \<Rightarrow> Some False
            | Some (VString proposal) \<Rightarrow> Some (blockID = proposal)
            | Some _ \<Rightarrow> None)))"

definition lv_commitNewCond :: "('e, 'c) testlib \<Rightarrow> ('e, 'c) condition" where
  "lv_commitNewCond L e w = do {
     b \<leftarrow> commit_matches L ''newProposal'' e w;
     Some (b, if b then end_test L w else w) }"

definition lv_commitOldCond :: "('e, 'c) testlib \<Rightarrow> ('e, 'c) condition" where
  "lv_commitOldCond L e w = do {
     b \<leftarrow> commit_matches L ''oldProposal'' e w;
     Some (b, w) }"

text \<open>The assertions compare the recorded vote with one of the proposals.\<close>

definition vote_matches :: "('e, 'c) testlib \<Rightarrow> string \<Rightarrow> 'c world \<Rightarrow> bool" where
  "vote_matches L key w =
     (case Vars_GetString L (ctx w) key of
        None \<Rightarrow> False
      | Some proposal \<Rightarrow> Vars_GetString L (ctx w) ''vote'' = Some proposal)"

definition lv_edges :: "'k tendermint \<Rightarrow> ('e, 'c) testlib \<Rightarrow> labels \<Rightarrow>
    (string \<times> ('e, 'c) condition \<times> string) list" where
  "lv_edges T L lb =
     [(StartStateLabel lb, lv_valueLockedCond T L, ''LockedValue''),
      (''LockedValue'', lv_roundReached L 1, ''Round1''),
      (''Round1'', lv_roundReached L 2, ''Round2''),
      (''Round2'', lv_commitNewCond L, SuccessStateLabel lb),
      (''Round2'', lv_commitOldCond L, FailStateLabel lb)]"

definition lv_One :: "'k tendermint \<Rightarrow> json \<Rightarrow> ('e, 'c) testlib \<Rightarrow> labels \<Rightarrow> ('e, 'c) test_case" where
  "lv_One T J L lb = \<lparr>
     tc_name = ''LockedValueOne'',
     tc_timeout = 50 * Second,
     tc_setup = lv_testCaseOneSetup T L,
     tc_edges = lv_edges T L lb,
     tc_handlers = [Handler (lv_faultyReplicaFilter T J L), Handler (lv_Round0 T L),
       Handler (lv_Round1 T L), Handler (lv_Round2 T L)],
     tc_assert = (\<lambda>s w. Some (vote_matches L ''newProposal'' w))\<rparr>"

section \<open>\<open>two.go\<close>\<close>

definition lv_two_Round2 :: "'k tendermint \<Rightarrow> ('e, 'c) testlib \<Rightarrow> ('e, 'c) handler" where
  "lv_two_Round2 T L e w =
     (case message_of L e w of
        None \<Rightarrow> Some (([], False), w)
      | Some (message, a) \<Rightarrow> do {
          tMsg \<leftarrow> tmsgs w a;
          round \<leftarrow> Round tMsg;
          (if round = -1 then Some (([Some message], True), w)
           else if round \<noteq> 2 then Some (([], False), w)
           else if MsgType tMsg = Proposal then do {
             blockID \<leftarrow> GetProposalBlockIDS T tMsg;
             Some (([Some message], True),
               (case blockID of Some b \<Rightarrow> set_var L ''newProposal'' (VString b) w | None \<Rightarrow> w)) }
           else if MsgType tMsg = Prevote then do {
             ptn \<leftarrow> getReplicaPartition L w;
             honestDelayed \<leftarrow> Partition_GetPart ptn ''honestDelayed'';
             own \<leftarrow> own_vote_of T honestDelayed (Replicas_Get L (ctx w) (From tMsg)) tMsg;
             (if own then do {
                let newProp = string_var L ''newProposal'' w;
                voteBlockID \<leftarrow> GetVoteBlockIDS T tMsg;
                let w1 = set_var L ''vote'' (VString (case voteBlockID of Some b \<Rightarrow> b | None \<Rightarrow> '''')) w;
                Some (([Some message], True),
                  (if voteBlockID = Some newProp then abort_test L w1 else w1)) }
              else Some (([Some message], True), w)) }
           else Some (([Some message], True), w)) })"

definition lv_Two :: "'k tendermint \<Rightarrow> json \<Rightarrow> ('e, 'c) testlib \<Rightarrow> labels \<Rightarrow> ('e, 'c) test_case" where
  "lv_Two T J L lb = \<lparr>
     tc_name = ''LockedValueOne'',
     tc_timeout = 50 * Second,
     tc_setup = lv_testCaseOneSetup T L,
     tc_edges = lv_edges T L lb,
     tc_handlers = [Handler (lv_faultyReplicaFilter T J L), Handler (lv_Round0 T L),
       Handler (lv_Round1 T L), Handler (lv_two_Round2 T L)],
     tc_assert = (\<lambda>s w. Some (vote_matches L ''oldProposal'' w))\<rparr>"

section \<open>\<open>three.go\<close>\<close>

definition lv_faultyVoteFilter :: "'k tendermint \<Rightarrow> json \<Rightarrow> ('e, 'c) testlib \<Rightarrow> ('e, 'c) handler" where
  "lv_faultyVoteFilter T J L e w =
     (case message_of L e w of
        None \<Rightarrow> Some (([], False), w)
      | Some (message, a) \<Rightarrow> do {
          tMsg \<leftarrow> tmsgs w a;
          (if MsgType tMsg \<noteq> Precommit \<and> MsgType tMsg \<noteq> Prevote then Some (([], False), w)
           else do {
             ptn \<leftarrow> getReplicaPartition L w;
             faulty \<leftarrow> Partition_GetPart ptn ''faulty'';
             let faultyReplica = Replicas_Get L (ctx w) (From tMsg);
             isFaulty \<leftarrow> Part_Contains faulty (From tMsg);
             (if \<not> isFaulty then Some (([], False), w)
              else do {
                ((newVote, err), w1) \<leftarrow> ChangeVoteToNil T faultyReplica a w;
                (if err \<noteq> None then Some (([], False), w1)
                 else do {
                   a' \<leftarrow> newVote;
                   (newMsgB, w2) \<leftarrow> Marshal T J a' w1;
                   (case newMsgB of
                      Inl _ \<Rightarrow> Some (([], False), w2)
                    | Inr bs \<Rightarrow>
                        (case NewMessage L (ctx w2) message bs of (m', c) \<Rightarrow>
                           Some (([Some m'], True), w2\<lparr>ctx := c\<rparr>))) }) }) }) })"

definition lv_three_round0 :: "'k tendermint \<Rightarrow> ('e, 'c) testlib \<Rightarrow> ('e, 'c) handler" where
  "lv_three_round0 T L e w =
     (case message_of L e w of
        None \<Rightarrow> Some (([], False), w)
      | Some (message, a) \<Rightarrow> do {
          tMsg \<leftarrow> tmsgs w a;
          round \<leftarrow> Round tMsg;
          (if round = -1 then Some (([Some message], True), w)
           else if round \<noteq> 0 then Some (([], False), w)
           else if MsgType tMsg = Proposal then do {
             blockID \<leftarrow> GetProposalBlockIDS T tMsg;
             Some (([Some message], True),
               (case blockID of Some b \<Rightarrow> set_var L ''oldProposal'' (VString b) w | None \<Rightarrow> w)) }
           else do {
             ptn \<leftarrow> getReplicaPartition L w;
             honestDelayed \<leftarrow> Partition_GetPart ptn ''honestDelayed'';
             fromDelayed \<leftarrow> Part_Contains honestDelayed (From tMsg);
             (if fromDelayed \<and> MsgType tMsg = Prevote then Some (([], True), w)
              else Some (([Some message], True), w)) }) })"

definition lv_higherRound :: "'k tendermint \<Rightarrow> ('e, 'c) testlib \<Rightarrow> ('e, 'c) handler" where
  "lv_higherRound T L e w =
     (case message_of L e w of
        None \<Rightarrow> Some (([], False), w)
      | Some (message, a) \<Rightarrow> do {
          tMsg \<leftarrow> tmsgs w a;
          round \<leftarrow> Round tMsg;
          (if round = -1 then Some (([Some message], True), w)
           else if round = 0 then Some (([], False), w)
           else if MsgType tMsg \<noteq> Proposal then Some (([Some message], True), w)
           else do {
             blockID \<leftarrow> GetProposalBlockID T tMsg;
             (case blockID of
                None \<Rightarrow> Some (([], False), w)
              | Some b \<Rightarrow>
                  (let blockIDS = hash_String T (Hash b)
                   in if blockIDS \<noteq> string_var L ''oldProposal'' w then
                        Some (([Some message], True),
                          set_var L ''newProposal'' (VString blockIDS)
                            (set_var L ''newPropBlockID'' (VBlockID (Some b)) w))
                      else Some (([], True), w))) }) })"

definition lv_diffProposal :: "'k tendermint \<Rightarrow> ('e, 'c) testlib \<Rightarrow> ('e, 'c) condition" where
  "lv_diffProposal T L e w =
     (case GetMessageFromEvent L e w of
        None \<Rightarrow> Some (False, w)
      | Some a \<Rightarrow> do {
          tMsg \<leftarrow> tmsgs w a;
          (if MsgType tMsg \<noteq> Proposal then Some (False, w)
           else do {
             blockIDS \<leftarrow> GetProposalBlockIDS T tMsg;
             (case blockIDS of
                None \<Rightarrow> Some (False, w)
              | Some s \<Rightarrow>
                  if s \<noteq> string_var L ''oldProposal'' w then do {
                    blockID \<leftarrow> GetProposalBlockID T tMsg;
                    let w1 = (case blockID of
                        Some b \<Rightarrow> set_var L ''newPropBlockID'' (VBlockID (Some b)) w | None \<Rightarrow> w);
                    Some (True, set_var L ''newProposal'' (VString s) w1) }
                  else Some (False, w)) }) })"

text \<open>\<open>nextRound\<close> updates an entry with one test; no state machine uses it.\<close>

definition track_next :: "string \<Rightarrow> int \<Rightarrow> (string, int) gomap \<Rightarrow> (string, int) gomap" where
  "track_next from round m =
     (if map_of m from = None \<or> (case map_of m from of None \<Rightarrow> 0 | Some q \<Rightarrow> q) < round
      then AList.update from round m else m)"

definition lv_nextRound :: "('e, 'c) testlib \<Rightarrow> ('e, 'c) condition" where
  "lv_nextRound L e w =
     (case GetMessageFromEvent L e w of
        None \<Rightarrow> Some (False, w)
      | Some a \<Rightarrow> do {
          tMsg \<leftarrow> tmsgs w a;
          round \<leftarrow> Round tMsg;
          (nextRoundCount, w1) \<leftarrow> updateRoundCount L ''nextRoundCount'' track_next round (From tMsg) w;
          let curRound = (case Vars_GetInt L (ctx w1) ''curRound'' of Some r \<Rightarrow> r | None \<Rightarrow> 0);
          let skipped = int (length (filter (\<lambda>(k, r). curRound < r) nextRoundCount));
          Some (skipped = Replicas_Cap L (ctx w1), w1) })"

text \<open>
  \<open>oldVote\<close> and \<open>newVote\<close> look at the precommits of the replica under observation and record the
  block voted for; they differ in what they compare with.
\<close>

definition observed_vote :: "'k tendermint \<Rightarrow> ('e, 'c) testlib \<Rightarrow> 'e \<Rightarrow> 'c world \<Rightarrow> string option option" where
  "observed_vote T L e w =
     (case GetMessageFromEvent L e w of
        None \<Rightarrow> Some None
      | Some a \<Rightarrow> do {
          tMsg \<leftarrow> tmsgs w a;
          (if MsgType tMsg \<noteq> Precommit then Some None
           else do {
             ptn \<leftarrow> getReplicaPartition L w;
             honestDelayed \<leftarrow> Partition_GetPart ptn ''honestDelayed'';
             own \<leftarrow> own_vote_of T honestDelayed (Replicas_Get L (ctx w) (From tMsg)) tMsg;
             (if \<not> own then Some None else GetVoteBlockIDS T tMsg) }) })"

definition lv_oldVote :: "'k tendermint \<Rightarrow> ('e, 'c) testlib \<Rightarrow> ('e, 'c) condition" where
  "lv_oldVote T L e w = do {
     blockID \<leftarrow> observed_vote T L e w;
     (case blockID of
        None \<Rightarrow> Some (False, w)
      | Some b \<Rightarrow>
          Some (b = string_var L ''oldProposal'' w, set_var L ''blockVote'' (VString b) w)) }"

definition lv_newVote :: "'k tendermint \<Rightarrow> ('e, 'c) testlib \<Rightarrow> ('e, 'c) condition" where
  "lv_newVote T L e w = do {
     blockID \<leftarrow> observed_vote T L e w;
     (case blockID of
        None \<Rightarrow> Some (False, w)
      | Some b \<Rightarrow>
          (let w1 = set_var L ''blockVote'' (VString b) w
           in if b = string_var L ''newProposal'' w
              then Some (True, end_test L w1) else Some (False, w1))) }"

definition lv_testCaseThreeSetup :: "'k tendermint \<Rightarrow> ('e, 'c) testlib \<Rightarrow> 'c world \<Rightarrow> 'c world option" where
  "lv_testCaseThreeSetup T L w = do {
     let faults = (Replicas_Cap L (ctx w) - 1) sdiv 3;
     p \<leftarrow> create_partition T L [faults, 1, 2 * faults] [''faulty'', ''honestDelayed'', ''rest''] w;
     let w1 = set_var L ''faults'' (VInt faults) (set_var L ''partition'' (VPartition p) w);
     _ \<leftarrow> Partition_String (\<lambda>x. x) (\<lambda>x. x) p;
     Some w1 }"

definition lv_Three :: "'k tendermint \<Rightarrow> json \<Rightarrow> ('e, 'c) testlib \<Rightarrow> labels \<Rightarrow> ('e, 'c) test_case" where
  "lv_Three T J L lb = \<lparr>
     tc_name = ''ChangeLockedValue'',
     tc_timeout = 70 * Second,
     tc_setup = lv_testCaseThreeSetup T L,
     tc_edges =
       [(StartStateLabel lb, lv_valueLockedCond T L, ''lockedValue''),
        (''lockedValue'', lv_roundReached L 1, ''round1''),
        (''round1'', lv_diffProposal T L, ''forceRelock''),
        (''forceRelock'', lv_oldVote T L, FailStateLabel lb),
        (''forceRelock'', lv_newVote T L, SuccessStateLabel lb)],
     tc_handlers = [Handler (lv_faultyVoteFilter T J L), Handler (lv_three_round0 T L),
       Handler (lv_higherRound T L)],
     tc_assert = (\<lambda>s w. Some (s = SuccessStateLabel lb))\<rparr>"

section \<open>The round conditions\<close>

lemma track_next_track_round: "track_next from r m = track_round from r m"
  by (auto simp: track_next_def track_round_def Let_def split: option.splits)

lemma lv_roundReached_step:
  assumes lib: "testlib_spec L \<alpha>" and c: "carries L w e m a t"
    and "Round t = Some r" and ok: "round_count_ok \<alpha> ''roundCount'' w"
  shows "\<exists>w'. lv_roundReached L toRound e w =
      Some (count_reached toRound (track_round (From t) r (round_count \<alpha> ''roundCount'' w)) =
        lcap (\<alpha> (ctx w)), w') \<and>
    round_count \<alpha> ''roundCount'' w' = track_round (From t) r (round_count \<alpha> ''roundCount'' w) \<and>
    round_count_ok \<alpha> ''roundCount'' w' \<and> tmsgs w' = tmsgs w \<and>
    lmessage (\<alpha> (ctx w')) = lmessage (\<alpha> (ctx w)) \<and> lcap (\<alpha> (ctx w')) = lcap (\<alpha> (ctx w))"
proof -
  obtain x w1 where u: "updateRoundCount L ''roundCount'' track_round r (From t) w =
      Some (track_round (From t) r (round_count \<alpha> ''roundCount'' w), w1)"
    "round_count \<alpha> ''roundCount'' w1 = track_round (From t) r (round_count \<alpha> ''roundCount'' w)"
    "round_count_ok \<alpha> ''roundCount'' w1"
    "\<alpha> (ctx w1) = (\<alpha> (ctx w))\<lparr>lvars := (lvars (\<alpha> (ctx w)))(''roundCount'' \<mapsto> VIntMap x)\<rparr>"
    "tmsgs w1 = tmsgs w"
    by (rule update_track_round [OF lib ok])
  then show ?thesis
    using assms(3) carriesD [OF c]
    by (simp add: lv_roundReached_def context_specD [OF lib])
qed

text \<open>
  The condition \<open>roundReached\<close> of the locked-value tests, over any sequence of events with
  messages, sends and receives alike. It returns on each, and the answer to the i-th is positive
  exactly when the replicas seen by then as the sender of a message of a round at least
  \<open>toRound\<close> are as many as there are replicas.
\<close>

lemma lv_round_reached:
  assumes "testlib_spec L \<alpha>" and "lvars (\<alpha> (ctx w)) ''roundCount'' = None"
    and "\<forall>e \<in> set es. \<exists>m a t. carries L w e m a t \<and> From t = frm e \<and> Round t = Some (rnd e)"
  shows "\<exists>bs w'. answers (lv_roundReached L toRound) es w = Some (bs, w') \<and>
    length bs = length es \<and>
    (\<forall>i < length es. bs ! i \<longleftrightarrow>
      int (card (replicas_at toRound (map (\<lambda>e. (frm e, rnd e)) (take (Suc i) es)))) =
      lcap (\<alpha> (ctx w)))"
proof -
  let ?I = "\<lambda>w1. round_count_ok \<alpha> ''roundCount'' w1 \<and> tmsgs w1 = tmsgs w \<and>
    lmessage (\<alpha> (ctx w1)) = lmessage (\<alpha> (ctx w)) \<and> lcap (\<alpha> (ctx w1)) = lcap (\<alpha> (ctx w))"
  have step: "\<exists>w2. lv_roundReached L toRound e w1 =
      Some (count_reached toRound (track_round f r (round_count \<alpha> ''roundCount'' w1)) =
        lcap (\<alpha> (ctx w)), w2) \<and>
      round_count \<alpha> ''roundCount'' w2 = track_round f r (round_count \<alpha> ''roundCount'' w1) \<and> ?I w2"
    if e: "e \<in> set es" and I: "?I w1" and fr: "(frm e, rnd e) = (f, r)" for e f r w1
  proof -
    from e assms(3) obtain m a t where c: "carries L w e m a t" "From t = frm e"
      "Round t = Some (rnd e)" by blast
    with I have c': "carries L w1 e m a t"
      using carries_keep [OF assms(1), of w1 w] by simp
    show ?thesis
      using lv_roundReached_step [OF assms(1) c' c(3) conjunct1 [OF I], of toRound] I fr c(2)
      by auto
  qed
  have "\<exists>bs w'. answers (lv_roundReached L toRound) es w = Some (bs, w') \<and> ?I w' \<and>
      length bs = length es \<and> (\<forall>i < length es. bs ! i \<longleftrightarrow>
        int (card (replicas_at toRound ([] @ map (\<lambda>e. (frm e, rnd e)) (take (Suc i) es)))) =
        lcap (\<alpha> (ctx w)))"
    by (rule answers_track_rounds [where E = "set es" and rc = "round_count \<alpha> ''roundCount''"])
      (rule step, assumption+, use round_count_ok_new [of \<alpha> w "''roundCount''", OF assms(2)] in simp_all)
  then show ?thesis by auto
qed

section \<open>Locking a value\<close>

text \<open>
  A prevote for a block delivered to one of the replicas \<open>hs\<close>, and how many were counted so far.
\<close>

definition locks :: "'k tendermint \<Rightarrow> replica list \<Rightarrow> string \<Rightarrow> tmessage \<Rightarrow> bool" where
  "locks T hs old t \<longleftrightarrow>
     MsgType t = Prevote \<and> To t \<in> ID ` set hs \<and> GetVoteBlockIDS T t = Some (Some old)"

definition prevotes_sent :: "('c \<Rightarrow> 'e lib_state) \<Rightarrow> 'c world \<Rightarrow> int" where
  "prevotes_sent \<alpha> w = (case lvars (\<alpha> (ctx w)) ''prevotesSent'' of Some (VInt v) \<Rightarrow> v | _ \<Rightarrow> 0)"

text \<open>What the condition reads: the partition, the number of faults and the old proposal.\<close>

definition lock_vars :: "'k tendermint \<Rightarrow> ('c \<Rightarrow> 'e lib_state) \<Rightarrow> replica list \<Rightarrow> int \<Rightarrow> string \<Rightarrow> 'c world \<Rightarrow> bool" where
  "lock_vars T \<alpha> hs f old w \<longleftrightarrow>
     (\<exists>P. lvars (\<alpha> (ctx w)) ''partition'' = Some (VPartition (Some P)) \<and> part_is T P ''honestDelayed'' hs) \<and>
     lvars (\<alpha> (ctx w)) ''faults'' = Some (VInt f) \<and>
     lvars (\<alpha> (ctx w)) ''oldProposal'' = Some (VString old)"

lemma lv_valueLockedCond_step:
  assumes lib: "testlib_spec L \<alpha>" and "IsMessageReceive L e" and c: "carries L w e m a t"
    and vars: "lock_vars T \<alpha> hs f old w"
  shows "\<exists>w'. lv_valueLockedCond T L e w =
      Some (locks T hs old t \<and> 2 * f \<le> prevotes_sent \<alpha> w + 1, w') \<and>
    prevotes_sent \<alpha> w' = prevotes_sent \<alpha> w + (if locks T hs old t then 1 else 0) \<and>
    lock_vars T \<alpha> hs f old w' \<and> tmsgs w' = tmsgs w \<and>
    lmessage (\<alpha> (ctx w')) = lmessage (\<alpha> (ctx w))"
proof -
  from vars obtain P p where P: "lvars (\<alpha> (ctx w)) ''partition'' = Some (VPartition (Some P))"
    "part_is T P ''honestDelayed'' hs" "Partition_GetPart (Some P) ''honestDelayed'' = Some (Some p)"
    "\<And>i. Part_Contains (Some p) i = Some (i \<in> ID ` set hs)"
    by (auto simp: lock_vars_def part_is_def)
  note unf = lv_valueLockedCond_def assms(2) carriesD [OF c] getReplicaPartition_def
    vars_specD [OF lib] P(1,3,4)
  let ?votes = "prevotes_sent \<alpha> w + 1" and ?w' = "set_var L ''prevotesSent'' (VInt (prevotes_sent \<alpha> w + 1)) w"
  show ?thesis
  proof (cases "MsgType t = Prevote \<and> To t \<in> ID ` set hs")
    case True
    obtain b where b: "GetVoteBlockIDS T t = Some b"
      using vote_block_total [OF carriesD(5) [OF c]] True by blast
    have vs: "lvars (\<alpha> (ctx w)) ''faults'' = Some (VInt f)"
      "lvars (\<alpha> (ctx w)) ''oldProposal'' = Some (VString old)"
      using vars by (auto simp: lock_vars_def)
    show ?thesis
    proof (cases "b = Some old")
      case old: True
      have "(case (case lvars (\<alpha> (ctx w)) ''prevotesSent'' of Some (VInt i) \<Rightarrow> Some i | _ \<Rightarrow> None) of
          Some v \<Rightarrow> v | None \<Rightarrow> 0) = prevotes_sent \<alpha> w"
        by (simp add: prevotes_sent_def split: option.split var_value.split)
      then have "lv_valueLockedCond T L e w = Some (2 * f \<le> ?votes, ?w')"
        using True b old vs by (simp add: unf Let_def)
      moreover have "lock_vars T \<alpha> hs f old ?w'" "prevotes_sent \<alpha> ?w' = ?votes"
        using vs P(1,2) by (simp_all add: lock_vars_def prevotes_sent_def vars_specD [OF lib])
      ultimately show ?thesis
        using True b old by (intro exI [of _ ?w']) (simp add: locks_def vars_specD [OF lib])
    next
      case False
      then have "lv_valueLockedCond T L e w = Some (False, w)"
        using True b vs by (auto simp: unf)
      then show ?thesis
        using False b vars by (intro exI [of _ w]) (simp add: locks_def)
    qed
  next
    case False
    then have "lv_valueLockedCond T L e w = Some (False, w)"
      by (auto simp: unf)
    then show ?thesis
      using False vars by (intro exI [of _ w]) (auto simp: locks_def)
  qed
qed

text \<open>
  C22: the condition \<open>valueLockedCond\<close>, over any sequence of received messages. It returns on
  each, and the answer to the i-th is positive exactly when it is a prevote for the old proposal
  to the replica under observation and at least 2 f such prevotes were received up to it.
\<close>

theorem lv_value_locked_counts:
  assumes "testlib_spec L \<alpha>" and "lock_vars T \<alpha> hs f old w"
    and "lvars (\<alpha> (ctx w)) ''prevotesSent'' = None"
    and "\<forall>e \<in> set es. IsMessageReceive L e \<and> (\<exists>m a. carries L w e m a (tm e))"
  shows "\<exists>bs w'. answers (lv_valueLockedCond T L) es w = Some (bs, w') \<and> length bs = length es \<and>
    (\<forall>i < length es. bs ! i \<longleftrightarrow> locks T hs old (tm (es ! i)) \<and>
      2 * f \<le> int (length (filter (\<lambda>e. locks T hs old (tm e)) (take (Suc i) es))))"
proof -
  have "\<exists>bs w'. answers (lv_valueLockedCond T L) es w = Some (bs, w') \<and> length bs = length es \<and>
    (\<forall>i < length es. bs ! i \<longleftrightarrow> locks T hs old (tm (es ! i)) \<and>
      2 * f \<le> prevotes_sent \<alpha> w + int (length (filter (\<lambda>e. locks T hs old (tm e)) (take (Suc i) es))))"
    using assms(2,4)
  proof (induction es arbitrary: w)
    case Nil
    then show ?case by simp
  next
    case (Cons e es)
    from Cons.prems(2) obtain m a where e: "IsMessageReceive L e" "carries L w e m a (tm e)" by auto
    obtain w1 where w1: "lv_valueLockedCond T L e w =
        Some (locks T hs old (tm e) \<and> 2 * f \<le> prevotes_sent \<alpha> w + 1, w1)"
      "prevotes_sent \<alpha> w1 = prevotes_sent \<alpha> w + (if locks T hs old (tm e) then 1 else 0)"
      "lock_vars T \<alpha> hs f old w1" "tmsgs w1 = tmsgs w" "lmessage (\<alpha> (ctx w1)) = lmessage (\<alpha> (ctx w))"
      using lv_valueLockedCond_step [OF assms(1) e Cons.prems(1)] by blast
    have "\<forall>e \<in> set es. IsMessageReceive L e \<and> (\<exists>m a. carries L w1 e m a (tm e))"
      using Cons.prems(2) carries_keep [OF assms(1) w1(5,4)] by simp
    from Cons.IH [OF w1(3) this] obtain bs w' where rest:
      "answers (lv_valueLockedCond T L) es w1 = Some (bs, w')" "length bs = length es"
      "\<forall>i < length es. bs ! i \<longleftrightarrow> locks T hs old (tm (es ! i)) \<and>
        2 * f \<le> prevotes_sent \<alpha> w1 + int (length (filter (\<lambda>e. locks T hs old (tm e)) (take (Suc i) es)))"
      by (elim exE conjE) (rule that)
    let ?b = "locks T hs old (tm e) \<and> 2 * f \<le> prevotes_sent \<alpha> w + 1"
    have "(?b # bs) ! i \<longleftrightarrow> locks T hs old (tm ((e # es) ! i)) \<and> 2 * f \<le> prevotes_sent \<alpha> w +
        int (length (filter (\<lambda>e. locks T hs old (tm e)) (take (Suc i) (e # es))))"
      if "i < length (e # es)" for i
    proof (cases i)
      case (Suc j)
      with that have "j < length es" by simp
      with rest(3) Suc w1(2) show ?thesis by (simp add: algebra_simps)
    qed simp
    then show ?case
      using w1(1) rest(1,2) by (intro exI [of _ "?b # bs"] exI [of _ w']) simp
  qed
  moreover have "prevotes_sent \<alpha> w = 0"
    using assms(3) by (simp add: prevotes_sent_def)
  ultimately show ?thesis by simp
qed

section \<open>Frames\<close>

definition lv_written :: "string set" where
  "lv_written = {''oldProposal'', ''newProposal'', ''vote'', ''delayedPrevotes'', ''delayedProposals'',
     ''newPropBlockID'', ''blockVote''}"

lemma append_string_keeps:
  assumes "testlib_spec L \<alpha>" and "append_string L key s w = Some w'" and "key \<in> K"
  shows "keeps \<alpha> K w w'"
  using assms
  by (auto simp: append_string_def intro: keeps_set_var keeps_trans [OF keeps_set_var keeps_set_var]
      split: option.splits var_value.splits Option.bind_splits)

lemma lv_faultyReplicaFilter_keeps:
  assumes "testlib_spec L \<alpha>" and "lv_faultyReplicaFilter T J L e w = Some (out, w')"
  shows "keeps \<alpha> K w w'"
  using assms(2)
  by (auto simp: lv_faultyReplicaFilter_def changeFultyVote_def
      intro: frames keeps_trans [OF keeps_ChangeVoteToNil keeps_Marshal]
        keeps_replace_message [OF assms(1) keeps_ChangeVoteToNil]
      split: if_splits option.splits Option.bind_splits sum.splits prod.splits)

lemma lv_Round0_keeps:
  assumes "testlib_spec L \<alpha>" and "lv_Round0 T L e w = Some (out, w')"
  shows "keeps \<alpha> lv_written w w'"
  using assms(2)
  by (auto simp: lv_Round0_def lv_record_round0_def lv_written_def
      intro: keeps_set_var [OF assms(1)] append_string_keeps [OF assms(1)]
      split: if_splits option.splits Option.bind_splits prod.splits)

lemma case_abort_eq:
  "(case v of None \<Rightarrow> w | Some b \<Rightarrow> if b \<noteq> s then abort_test L w else w) =
    (if v \<noteq> None \<and> v \<noteq> Some s then abort_test L w else w)"
  by (auto split: option.split)

lemma case_string_eq_Some:
  "((case v of None \<Rightarrow> Some r | Some (VString s) \<Rightarrow> Some (f s) | Some _ \<Rightarrow> None) = Some x) \<longleftrightarrow>
    v = None \<and> x = r \<or> (\<exists>s. v = Some (VString s) \<and> x = f s)"
  by (auto split: option.splits var_value.splits)

lemma lv_Round1_keeps:
  assumes "testlib_spec L \<alpha>" and "lv_Round1 T L e w = Some (out, w')"
  shows "keeps \<alpha> lv_written w w'"
proof -
  have append: "append_string L ''delayedProposals'' i w = Some w1 \<Longrightarrow> keeps \<alpha> lv_written w w1" for i w1
    by (erule append_string_keeps [OF assms(1)]) (simp add: lv_written_def)
  from assms(2) show ?thesis
    unfolding lv_Round1_def recordDelayedProposal_def Let_def
    by (elim message_filterE)
      (auto simp: Option.bind_eq_Some_conv case_abort_eq intro: append keeps_end(1) [OF assms(1) keeps_refl]
        split: if_split_asm)
qed

lemma lv_Round2_keeps:
  assumes "testlib_spec L \<alpha>" and "lv_Round2 T L e w = Some (out, w')"
  shows "keeps \<alpha> lv_written w w'"
proof -
  have set: "keeps \<alpha> lv_written w (set_var L ''newProposal'' v w)"
    "keeps \<alpha> lv_written w (set_var L ''vote'' v w)" for v
    by (simp_all add: keeps_set_var [OF assms(1)] lv_written_def)
  from assms(2) show ?thesis
    unfolding lv_Round2_def Let_def
    by (elim message_filterE)
      (auto simp: Option.bind_eq_Some_conv case_string_eq_Some intro: set keeps_end(1) [OF assms(1) set(1)]
          keeps_end(1) [OF assms(1) set(2)]
        split: if_split_asm option.split_asm)
qed

lemma lv_two_Round2_keeps:
  assumes "testlib_spec L \<alpha>" and "lv_two_Round2 T L e w = Some (out, w')"
  shows "keeps \<alpha> lv_written w w'"
  using assms(2)
  by (auto simp: lv_two_Round2_def lv_written_def Let_def
      intro: keeps_set_var [OF assms(1)] keeps_end [OF assms(1)]
      split: if_splits option.splits Option.bind_splits prod.splits)

lemma lv_commit_keeps:
  assumes "testlib_spec L \<alpha>"
  shows "lv_commitNewCond L e w = Some (b, w') \<Longrightarrow> keeps \<alpha> K w w'"
    and "lv_commitOldCond L e w = Some (b, w') \<Longrightarrow> keeps \<alpha> K w w'"
  by (auto simp: lv_commitNewCond_def lv_commitOldCond_def
      intro: keeps_end [OF assms] split: Option.bind_splits if_splits)

end
