(* ===== verification/LockedValue_Runs.thy ===== *)
theory LockedValue_Runs
  imports LockedValue
begin

text \<open>
  Runs of the tests \<open>One\<close> and \<open>Two\<close> of \<open>testcases/lockedvalue\<close>, which share their setup, their
  machine and all handlers but the last: what each state of the machine says about the execution.
\<close>

section \<open>What the conditions establish\<close>

lemma count_reached_track:
  assumes "distinct (map fst m)"
  shows "count_reached q m \<le> count_reached q (track_round f r m)"
proof -
  have "{p. \<exists>x. map_of m p = Some x \<and> q \<le> x} \<subseteq> {p. \<exists>x. map_of (track_round f r m) p = Some x \<and> q \<le> x}"
    by (auto simp: map_of_track_round)
  then have "card {p. \<exists>x. map_of m p = Some x \<and> q \<le> x} \<le>
      card {p. \<exists>x. map_of (track_round f r m) p = Some x \<and> q \<le> x}"
    by (rule card_mono [OF finite_map_of_keys])
  then show ?thesis
    unfolding count_reached_card [OF assms] count_reached_card [OF track_round_keys [OF assms]] by simp
qed

lemma count_reached_antimono: "q \<le> q' \<Longrightarrow> count_reached q' m \<le> count_reached q m"
  unfolding count_reached_def by (induction m) auto

lemma lv_roundReached_result:
  assumes lib: "testlib_spec L \<alpha>" and ok: "round_count_ok \<alpha> ''roundCount'' w"
    and run: "lv_roundReached L q e w = Some (b, w')"
  shows "round_count_ok \<alpha> ''roundCount'' w'"
    and "count_reached k (round_count \<alpha> ''roundCount'' w) \<le> count_reached k (round_count \<alpha> ''roundCount'' w')"
    and "b \<Longrightarrow> count_reached q (round_count \<alpha> ''roundCount'' w') = lcap (\<alpha> (ctx w'))"
    and "lcap (\<alpha> (ctx w')) = lcap (\<alpha> (ctx w))" and "lreplicas (\<alpha> (ctx w')) = lreplicas (\<alpha> (ctx w))"
    and "x \<noteq> ''roundCount'' \<Longrightarrow> lvars (\<alpha> (ctx w')) x = lvars (\<alpha> (ctx w)) x"
proof -
  have "round_count_ok \<alpha> ''roundCount'' w' \<and>
      count_reached k (round_count \<alpha> ''roundCount'' w) \<le> count_reached k (round_count \<alpha> ''roundCount'' w') \<and>
      (b \<longrightarrow> count_reached q (round_count \<alpha> ''roundCount'' w') = lcap (\<alpha> (ctx w'))) \<and>
      lcap (\<alpha> (ctx w')) = lcap (\<alpha> (ctx w)) \<and> lreplicas (\<alpha> (ctx w')) = lreplicas (\<alpha> (ctx w)) \<and>
      (x \<noteq> ''roundCount'' \<longrightarrow> lvars (\<alpha> (ctx w')) x = lvars (\<alpha> (ctx w)) x)"
  proof (cases "GetMessageFromEvent L e w")
    case None
    with run have "b = False" "w' = w" by (simp_all add: lv_roundReached_def)
    with ok show ?thesis by simp
  next
    case (Some a)
    from run Some obtain t r where t: "tmsgs w a = Some t" "Round t = Some r"
      by (auto simp: lv_roundReached_def Option.bind_eq_Some_conv)
    obtain y w1 where u: "updateRoundCount L ''roundCount'' track_round r (From t) w =
        Some (track_round (From t) r (round_count \<alpha> ''roundCount'' w), w1)"
      "round_count \<alpha> ''roundCount'' w1 = track_round (From t) r (round_count \<alpha> ''roundCount'' w)"
      "round_count_ok \<alpha> ''roundCount'' w1"
      "\<alpha> (ctx w1) = (\<alpha> (ctx w))\<lparr>lvars := (lvars (\<alpha> (ctx w)))(''roundCount'' \<mapsto> VIntMap y)\<rparr>"
      by (rule update_track_round [OF lib ok])
    have res: "w' = w1" "b = (count_reached q (round_count \<alpha> ''roundCount'' w1) = lcap (\<alpha> (ctx w1)))"
      using run Some t u by (simp_all add: lv_roundReached_def context_specD [OF lib])
    show ?thesis
      using u(2-4) count_reached_track [OF round_count_distinct [OF ok]]
      by (simp add: res)
  qed
  then show "round_count_ok \<alpha> ''roundCount'' w'"
    "count_reached k (round_count \<alpha> ''roundCount'' w) \<le> count_reached k (round_count \<alpha> ''roundCount'' w')"
    "b \<Longrightarrow> count_reached q (round_count \<alpha> ''roundCount'' w') = lcap (\<alpha> (ctx w'))"
    "lcap (\<alpha> (ctx w')) = lcap (\<alpha> (ctx w))" "lreplicas (\<alpha> (ctx w')) = lreplicas (\<alpha> (ctx w))"
    "x \<noteq> ''roundCount'' \<Longrightarrow> lvars (\<alpha> (ctx w')) x = lvars (\<alpha> (ctx w)) x"
    by simp_all
qed

lemma lv_valueLockedCond_keeps:
  assumes "testlib_spec L \<alpha>" and "lv_valueLockedCond T L e w = Some (b, w')"
  shows "keeps \<alpha> {''prevotesSent''} w w'"
  using assms(2) unfolding lv_valueLockedCond_def Let_def
  by (auto simp: Option.bind_eq_Some_conv intro: keeps_set_var [OF assms(1)]
      split: if_split_asm option.split_asm)

lemma lv_valueLockedCond_True:
  assumes "testlib_spec L \<alpha>" and "lv_valueLockedCond T L e w = Some (True, w')"
    and "lvars (\<alpha> (ctx w)) ''faults'' = Some (VInt f)"
  shows "2 * f \<le> prevotes_sent \<alpha> w'"
  using assms(2,3) unfolding lv_valueLockedCond_def Let_def
  by (auto simp: Option.bind_eq_Some_conv vars_specD [OF assms(1)] prevotes_sent_def
      split: if_split_asm option.split_asm)

text \<open>The setup that returns has written the partition and the number of faults.\<close>

lemma lv_setup_result:
  assumes "testlib_spec L \<alpha>" and "lv_testCaseOneSetup T L w0 = Some w"
  shows "\<exists>P. lvars (\<alpha> (ctx w)) = (lvars (\<alpha> (ctx w0)))(''partition'' \<mapsto> VPartition (Some P),
      ''faults'' \<mapsto> VInt ((lcap (\<alpha> (ctx w0)) - 1) sdiv 3))"
    and "lcap (\<alpha> (ctx w)) = lcap (\<alpha> (ctx w0))" and "int_maps w = int_maps w0"
  using assms(2)
  by (auto simp: lv_testCaseOneSetup_def Let_def Option.bind_eq_Some_conv Partition_String_def
      vars_specD [OF assms(1)] context_specD [OF assms(1)] split: option.splits)

section \<open>Runs\<close>

text \<open>The stage of the machine: how many of its edges lie behind a state.\<close>

definition lv_stage :: "labels \<Rightarrow> string \<Rightarrow> nat" where
  "lv_stage lb s =
     (if s = StartStateLabel lb then 0 else if s = ''LockedValue'' then 1
      else if s = ''Round1'' then 2 else 3)"

definition lv_inv :: "('c \<Rightarrow> 'e lib_state) \<Rightarrow> int \<Rightarrow> labels \<Rightarrow> string \<Rightarrow> 'c world \<Rightarrow> bool" where
  "lv_inv \<alpha> n lb s w \<longleftrightarrow>
     round_count_ok \<alpha> ''roundCount'' w \<and> lcap (\<alpha> (ctx w)) = n \<and>
     lvars (\<alpha> (ctx w)) ''faults'' = Some (VInt ((n - 1) sdiv 3)) \<and>
     (1 \<le> lv_stage lb s \<longrightarrow> 2 * ((n - 1) sdiv 3) \<le> prevotes_sent \<alpha> w) \<and>
     (2 \<le> lv_stage lb s \<longrightarrow> n \<le> count_reached 1 (round_count \<alpha> ''roundCount'' w)) \<and>
     (3 \<le> lv_stage lb s \<longrightarrow> count_reached 2 (round_count \<alpha> ''roundCount'' w) = n)"

lemma lv_inv_frame:
  assumes "lv_inv \<alpha> n lb s w"
    and "keeps \<alpha> K w w' \<and> ''roundCount'' \<notin> K \<and> ''faults'' \<notin> K \<and> ''prevotesSent'' \<notin> K \<or>
      scheduler_step \<alpha> w w'"
  shows "lv_inv \<alpha> n lb s w'"
proof -
  have "lvars (\<alpha> (ctx w')) k = lvars (\<alpha> (ctx w)) k" if "k \<in> {''roundCount'', ''faults'', ''prevotesSent''}" for k
    using assms(2) that by (auto simp: keeps_def scheduler_stepD)
  moreover have "int_maps w' = int_maps w" "lcap (\<alpha> (ctx w')) = lcap (\<alpha> (ctx w))"
    using assms(2) by (auto simp: keeps_def scheduler_stepD)
  moreover have "round_count \<alpha> ''roundCount'' w' = round_count \<alpha> ''roundCount'' w"
    using assms(2) round_count_keeps [of \<alpha> K w w' "''roundCount''"] by auto
  ultimately show ?thesis
    using assms(1) by (simp add: lv_inv_def round_count_ok_def prevotes_sent_def)
qed

lemma lv_inv_start:
  assumes "testlib_spec L \<alpha>" and "lv_testCaseOneSetup T L w0 = Some w"
    and "lvars (\<alpha> (ctx w0)) ''roundCount'' = None"
  shows "lv_inv \<alpha> (lcap (\<alpha> (ctx w0))) lb (StartStateLabel lb) w"
  using lv_setup_result [OF assms(1,2)] assms(3)
  by (auto simp: lv_inv_def lv_stage_def round_count_ok_def)

lemma lv_inv_locked:
  assumes lib: "testlib_spec L \<alpha>" and inv: "lv_inv \<alpha> n lb s w" and s: "s = StartStateLabel lb"
    and run: "lv_valueLockedCond T L e w = Some (b, w')"
    and "StartStateLabel lb \<noteq> ''LockedValue''"
  shows "lv_inv \<alpha> n lb (if b then ''LockedValue'' else s) w'"
proof -
  note k = lv_valueLockedCond_keeps [OF lib run]
  have "lvars (\<alpha> (ctx w')) ''faults'' = lvars (\<alpha> (ctx w)) ''faults''"
    "lvars (\<alpha> (ctx w')) ''roundCount'' = lvars (\<alpha> (ctx w)) ''roundCount''"
    by (rule keepsD(1) [OF k], simp)+
  then have "round_count_ok \<alpha> ''roundCount'' w'" "lcap (\<alpha> (ctx w')) = n"
    "lvars (\<alpha> (ctx w')) ''faults'' = Some (VInt ((n - 1) sdiv 3))"
    using inv keepsD(2,4) [OF k] by (simp_all add: lv_inv_def round_count_ok_def)
  moreover have "b \<Longrightarrow> 2 * ((n - 1) sdiv 3) \<le> prevotes_sent \<alpha> w'"
    using lv_valueLockedCond_True [OF lib, of T e w w'] run inv by (simp add: lv_inv_def)
  ultimately show ?thesis
    using s assms(5) by (simp add: lv_inv_def lv_stage_def)
qed

lemma lv_inv_round:
  assumes lib: "testlib_spec L \<alpha>" and inv: "lv_inv \<alpha> n lb s w"
    and run: "lv_roundReached L q e w = Some (b, w')"
    and d: "distinct [StartStateLabel lb, ''LockedValue'', ''Round1'', ''Round2'']"
    and s: "q = 1 \<and> s = ''LockedValue'' \<and> s' = ''Round1'' \<or> q = 2 \<and> s = ''Round1'' \<and> s' = ''Round2''"
  shows "lv_inv \<alpha> n lb (if b then s' else s) w'"
proof -
  have ok: "round_count_ok \<alpha> ''roundCount'' w" using inv by (simp add: lv_inv_def)
  note r = lv_roundReached_result [OF lib ok run]
  have "prevotes_sent \<alpha> w' = prevotes_sent \<alpha> w" "lcap (\<alpha> (ctx w')) = n"
    "lvars (\<alpha> (ctx w')) ''faults'' = Some (VInt ((n - 1) sdiv 3))"
    using r(4) r(6) [of "''prevotesSent''"] r(6) [of "''faults''"] inv
    by (simp_all add: prevotes_sent_def lv_inv_def)
  moreover have "lv_stage lb ''LockedValue'' = 1" "lv_stage lb ''Round1'' = 2" "lv_stage lb ''Round2'' = 3"
    using d by (auto simp: lv_stage_def)
  moreover have "count_reached 2 (round_count \<alpha> ''roundCount'' w') \<le> count_reached 1 (round_count \<alpha> ''roundCount'' w')"
    by (rule count_reached_antimono) simp
  moreover have "1 \<le> lv_stage lb s \<longrightarrow> 2 * ((n - 1) sdiv 3) \<le> prevotes_sent \<alpha> w"
    "2 \<le> lv_stage lb s \<longrightarrow> n \<le> count_reached 1 (round_count \<alpha> ''roundCount'' w)"
    using inv by (simp_all add: lv_inv_def)
  ultimately show ?thesis
    using r(1,3) r(2) [of 1] s unfolding lv_inv_def by (elim disjE conjE; cases b; simp)
qed


end
