(* ===== verification/LockedValue_Filters.thy ===== *)
theory LockedValue_Filters
  imports LockedValue
begin

text \<open>
  What the filters of \<open>testcases/lockedvalue/one.go\<close> and \<open>two.go\<close> do on the messages of each
  round: which messages they deliver, what they record, and exactly when they abort the test.
\<close>

section \<open>The replica under observation\<close>

text \<open>
  \<open>own_vote T h t\<close>: the message was sent by \<open>h\<close> and the vote in it is of \<open>h\<close>, and not one that
  \<open>h\<close> relays. \<open>watching\<close>: the partition made \<open>h\<close> the replica under observation.
\<close>

definition own_vote :: "'k tendermint \<Rightarrow> replica \<Rightarrow> tmessage \<Rightarrow> bool" where
  "own_vote T h t \<longleftrightarrow> From t = ID h \<and>
     (\<exists>v. inner_vote t = Some v \<and> address_of T h = Some (pv_ValidatorAddress v))"

definition watching :: "'k tendermint \<Rightarrow> ('c \<Rightarrow> 'e lib_state) \<Rightarrow> replica \<Rightarrow> 'c world \<Rightarrow> bool" where
  "watching T \<alpha> h w \<longleftrightarrow>
     (\<exists>P. lvars (\<alpha> (ctx w)) ''partition'' = Some (VPartition (Some P)) \<and>
        part_is T P ''honestDelayed'' [h]) \<and>
     h \<in> set (lreplicas (\<alpha> (ctx w))) \<and> distinct (map ID (lreplicas (\<alpha> (ctx w)))) \<and> usable T h"

lemma watchingE:
  assumes "testlib_spec L \<alpha>" and "watching T \<alpha> h w"
  obtains P p where "getReplicaPartition L w = Some (Some P)"
    and "Partition_GetPart (Some P) ''honestDelayed'' = Some (Some p)"
    and "\<And>i. Part_Contains (Some p) i = Some (i = ID h)"
    and "Replicas_Get L (ctx w) (ID h) = Some h" and "usable T h"
  using assms(2) find_by_ID [of h "lreplicas (\<alpha> (ctx w))"]
  by (auto simp: watching_def part_is_def getReplicaPartition_def vars_specD [OF assms(1)]
      context_specD [OF assms(1)])

lemma own_vote_of_watched:
  assumes "Part_Contains p (From t) = Some (From t = ID h)" and "usable T h"
    and "Replicas_Get L c (ID h) = Some h" and "inner_vote t = Some v"
  shows "own_vote_of T p (Replicas_Get L c (From t)) t = Some (own_vote T h t)"
  using assms IsVoteFrom_own [OF assms(2,4)] by (auto simp: own_vote_of_def own_vote_def)

section \<open>Lists of message ids\<close>

definition string_list :: "('c \<Rightarrow> 'e lib_state) \<Rightarrow> string \<Rightarrow> 'c world \<Rightarrow> string list \<Rightarrow> bool" where
  "string_list \<alpha> key w xs \<longleftrightarrow>
     lvars (\<alpha> (ctx w)) key = None \<and> xs = [] \<or> lvars (\<alpha> (ctx w)) key = Some (VStrings xs)"

lemma append_string_spec:
  assumes "testlib_spec L \<alpha>" and "string_list \<alpha> key w xs"
  shows "\<exists>w'. append_string L key s w = Some w' \<and> tmsgs w' = tmsgs w \<and>
    \<alpha> (ctx w') = (\<alpha> (ctx w))\<lparr>lvars := (lvars (\<alpha> (ctx w)))(key \<mapsto> VStrings (xs @ [s]))\<rparr>"
  using assms(2)
  by (auto simp: string_list_def append_string_def Let_def vars_specD [OF assms(1)])

section \<open>Round 0\<close>

text \<open>
  The filter of round 0. Messages of later rounds are left to the next filter. A prevote of
  round 0 sent by the replica under observation is held back and its id recorded, and every other
  message, one without a round too, is delivered; a proposal sets the old proposal to its block.
  Nothing else is written.
\<close>

lemma lv_round0_delays:
  assumes "testlib_spec L \<alpha>" and c: "carries L w e m a t" and r: "Round t = Some r"
    and "watching T \<alpha> h w" and "string_list \<alpha> ''delayedPrevotes'' w ids"
  shows "\<exists>w'. lv_Round0 T L e w =
      Some (if r \<noteq> -1 \<and> r \<noteq> 0 then ([], False)
        else if r = 0 \<and> MsgType t = Prevote \<and> From t = ID h then ([], True)
        else ([Some m], True), w') \<and>
    tmsgs w' = tmsgs w \<and>
    \<alpha> (ctx w') = (\<alpha> (ctx w))\<lparr>lvars :=
      (if r = 0 \<and> MsgType t = Proposal \<and> GetProposalBlockIDS T t \<noteq> Some None
       then (lvars (\<alpha> (ctx w)))(''oldProposal'' \<mapsto> VString (the (the (GetProposalBlockIDS T t))))
       else if r = 0 \<and> MsgType t = Prevote \<and> From t = ID h
       then (lvars (\<alpha> (ctx w)))(''delayedPrevotes'' \<mapsto> VStrings (ids @ [msg_ID m]))
       else lvars (\<alpha> (ctx w)))\<rparr>"
proof -
  obtain P p where w: "getReplicaPartition L w = Some (Some P)"
    "Partition_GetPart (Some P) ''honestDelayed'' = Some (Some p)"
    "\<And>i. Part_Contains (Some p) i = Some (i = ID h)"
    by (rule watchingE [OF assms(1,4)]) (rule that, assumption+)
  obtain w1 where w1: "append_string L ''delayedPrevotes'' (msg_ID m) w = Some w1" "tmsgs w1 = tmsgs w"
    "\<alpha> (ctx w1) = (\<alpha> (ctx w))\<lparr>lvars := (lvars (\<alpha> (ctx w)))(''delayedPrevotes'' \<mapsto> VStrings (ids @ [msg_ID m]))\<rparr>"
    using append_string_spec [OF assms(1,5)] by blast
  note unf = lv_Round0_def message_of_def carriesD [OF c] r lv_record_round0_def
  show ?thesis
  proof (cases "r = 0 \<and> MsgType t = Proposal")
    case True
    then obtain b where "GetProposalBlockIDS T t = Some b"
      using proposal_block_total [OF carriesD(5) [OF c]] by blast
    with True show ?thesis
      by (cases b) (simp_all add: unf vars_specD [OF assms(1)])
  next
    case False
    then show ?thesis
      using w w1 by (auto simp: unf)
  qed
qed

text \<open>
  The handler \<open>round0\<close> behind the condition \<open>round0Message\<close> is the filter \<open>Round0\<close> on the
  messages of round 0.
\<close>

lemma lv_round0_equivalent:
  assumes "lv_round0Message L e w = Some (True, w')"
  shows "w' = w \<and> lv_round0 T L e w = lv_Round0 T L e w"
  using assms
  by (auto simp: lv_round0Message_def lv_round0_def lv_Round0_def message_of_def GetMessageFromEvent_def
      Option.bind_eq_Some_conv split: option.splits)

section \<open>Rounds 1 and 2\<close>

text \<open>
  C29: the filter of round 1. Proposals of round 1 are held back and their ids recorded, all other
  messages of round 1 are delivered. The test is aborted exactly when the replica under
  observation itself prevotes for a block other than the old proposal.
\<close>

theorem lv_round1_verdict:
  assumes "testlib_spec L \<alpha>" and c: "carries L w e m a t" and r: "Round t = Some r"
    and "watching T \<alpha> h w" and "string_list \<alpha> ''delayedProposals'' w ids"
    and "lvars (\<alpha> (ctx w)) ''oldProposal'' = Some (VString old)"
  shows "\<exists>w'. lv_Round1 T L e w =
      Some (if r \<noteq> -1 \<and> r \<noteq> 1 then ([], False)
        else if r = 1 \<and> MsgType t = Proposal then ([], True) else ([Some m], True), w') \<and>
    string_list \<alpha> ''delayedProposals'' w'
      (ids @ (if r = 1 \<and> MsgType t = Proposal then [msg_ID m] else [])) \<and>
    (laborted (\<alpha> (ctx w')) \<longleftrightarrow> laborted (\<alpha> (ctx w)) \<or> r = 1 \<and> MsgType t = Prevote \<and> own_vote T h t \<and>
      (\<exists>b. GetVoteBlockIDS T t = Some (Some b) \<and> b \<noteq> old)) \<and>
    keeps \<alpha> {''delayedProposals''} w w'"
proof -
  obtain P p where w: "getReplicaPartition L w = Some (Some P)"
    "Partition_GetPart (Some P) ''honestDelayed'' = Some (Some p)"
    "\<And>i. Part_Contains (Some p) i = Some (i = ID h)"
    "Replicas_Get L (ctx w) (ID h) = Some h" "usable T h"
    by (rule watchingE [OF assms(1,4)]) (rule that, assumption+)
  obtain w1 where w1: "append_string L ''delayedProposals'' (msg_ID m) w = Some w1" "tmsgs w1 = tmsgs w"
    "\<alpha> (ctx w1) = (\<alpha> (ctx w))\<lparr>lvars := (lvars (\<alpha> (ctx w)))(''delayedProposals'' \<mapsto> VStrings (ids @ [msg_ID m]))\<rparr>"
    using append_string_spec [OF assms(1,5)] by blast
  have k1: "keeps \<alpha> {''delayedProposals''} w w1"
    by (rule append_string_keeps [OF assms(1) w1(1)]) simp
  have k2: "keeps \<alpha> {''delayedProposals''} w (abort_test L w)"
    by (rule keeps_end(1) [OF assms(1) keeps_refl])
  have old: "string_var L ''oldProposal'' w = old"
    using assms(6) by (simp add: string_var_def vars_specD [OF assms(1)])
  note unf = lv_Round1_def message_of_def carriesD [OF c] r w(1,2) recordDelayedProposal_def Let_def old
  show ?thesis
  proof (cases "r = 1 \<and> MsgType t = Prevote")
    case True
    then obtain v b where v: "inner_vote t = Some v" "GetVoteBlockIDS T t = Some b"
      using well_typed_vote [OF carriesD(5) [OF c]] vote_block_total [OF carriesD(5) [OF c]] by blast
    have own: "own_vote_of T (Some p) (Replicas_Get L (ctx w) (From t)) t = Some (own_vote T h t)"
      by (rule own_vote_of_watched [OF w(3,5,4) v(1)])
    show ?thesis
    proof (cases "own_vote T h t \<and> b \<noteq> None \<and> b \<noteq> Some old")
      case abort: True
      then have "lv_Round1 T L e w = Some (([Some m], True), abort_test L w)"
        using True v(2) own by (auto simp: unf split: if_splits)
      then show ?thesis
        using True v(2) abort k2 assms(5)
        by (intro exI [of _ "abort_test L w"]) (auto simp: context_specD [OF assms(1)] string_list_def)
    next
      case False
      then have "lv_Round1 T L e w = Some (([Some m], True), w)"
        using True v(2) own by (auto simp: unf split: option.splits)
      then show ?thesis
        using True v(2) False assms(5) by (intro exI [of _ w]) auto
    qed
  next
    case False
    show ?thesis
    proof (cases "r = 1 \<and> MsgType t = Proposal")
      case True
      then have "lv_Round1 T L e w = Some (([], True), w1)"
        using w1(1) by (simp add: unf)
      then show ?thesis
        using True k1 w1(3) by (intro exI [of _ w1]) (simp add: string_list_def)
    next
      case other: False
      then have "lv_Round1 T L e w = Some (if r \<noteq> -1 \<and> r \<noteq> 1 then ([], False) else ([Some m], True), w)"
        using False by (auto simp: unf)
      then show ?thesis
        using other False assms(5) by (intro exI [of _ w]) auto
    qed
  qed
qed

text \<open>What both filters of round 2 record of the vote of the replica under observation.\<close>

definition block_text :: "string option \<Rightarrow> string" where
  "block_text b = (case b of Some s \<Rightarrow> s | None \<Rightarrow> '''')"

text \<open>
  C30: the filters of round 2 in the tests \<open>One\<close> and \<open>Two\<close>. Every message of round 2 is delivered,
  a proposal sets the new proposal, and a prevote of the replica under observation is recorded.
  \<open>One\<close>, which wants the replica to unlock, aborts exactly when the proposal is the old one or the
  replica votes for the old one again; \<open>Two\<close> aborts exactly when the replica votes for the new one.
\<close>

theorem lv_round2_verdict:
  assumes "testlib_spec L \<alpha>" and c: "carries L w e m a t" and r: "Round t = Some r"
    and "watching T \<alpha> h w" and "lvars (\<alpha> (ctx w)) ''oldProposal'' = Some (VString old)"
    and "lvars (\<alpha> (ctx w)) ''newProposal'' = Some (VString new)"
    and "(round2, bad, unlocks) = (lv_Round2 T L, old, True) \<or>
      (round2, bad, unlocks) = (lv_two_Round2 T L, new, False)"
  shows "\<exists>w'. round2 e w = Some (if r \<noteq> -1 \<and> r \<noteq> 2 then ([], False) else ([Some m], True), w') \<and>
    lvars (\<alpha> (ctx w')) ''newProposal'' =
      (if r = 2 \<and> MsgType t = Proposal \<and> GetProposalBlockIDS T t \<noteq> Some None
       then Some (VString (the (the (GetProposalBlockIDS T t)))) else Some (VString new)) \<and>
    lvars (\<alpha> (ctx w')) ''vote'' =
      (if r = 2 \<and> MsgType t = Prevote \<and> own_vote T h t
       then Some (VString (block_text (the (GetVoteBlockIDS T t)))) else lvars (\<alpha> (ctx w)) ''vote'') \<and>
    (laborted (\<alpha> (ctx w')) \<longleftrightarrow> laborted (\<alpha> (ctx w)) \<or>
      r = 2 \<and> MsgType t = Proposal \<and> unlocks \<and> GetProposalBlockIDS T t = Some (Some old) \<or>
      r = 2 \<and> MsgType t = Prevote \<and> own_vote T h t \<and> GetVoteBlockIDS T t = Some (Some bad)) \<and>
    keeps \<alpha> {''newProposal'', ''vote''} w w'"
proof -
  obtain P p where w: "getReplicaPartition L w = Some (Some P)"
    "Partition_GetPart (Some P) ''honestDelayed'' = Some (Some p)"
    "\<And>i. Part_Contains (Some p) i = Some (i = ID h)"
    "Replicas_Get L (ctx w) (ID h) = Some h" "usable T h"
    by (rule watchingE [OF assms(1,4)]) (rule that, assumption+)
  have vars: "string_var L ''oldProposal'' w = old" "string_var L ''newProposal'' w = new"
    using assms(5,6) by (simp_all add: string_var_def vars_specD [OF assms(1)])
  have msg: "message_of L e w = Some (m, a)" "tmsgs w a = Some t"
    using carriesD [OF c] by (simp_all add: message_of_def)
  note unf = lv_Round2_def lv_two_Round2_def msg r w(1,2) Let_def vars
  note lib = vars_specD [OF assms(1)] context_specD [OF assms(1)]
  let ?K = "{''newProposal'', ''vote''}"
  have keep: "keeps \<alpha> ?K w w" "k \<in> ?K \<Longrightarrow> keeps \<alpha> ?K w (set_var L k x w)"
    "k \<in> ?K \<Longrightarrow> keeps \<alpha> ?K w (abort_test L (set_var L k x w))" for k x
    by (simp_all add: keeps_set_var [OF assms(1)] keeps_end(1) [OF assms(1)] del: insert_iff)
  consider (proposal) "r = 2" "MsgType t = Proposal" | (prevote) "r = 2" "MsgType t = Prevote"
    | (other) "\<not> (r = 2 \<and> (MsgType t = Proposal \<or> MsgType t = Prevote))" by blast
  then show ?thesis
  proof cases
    case other
    then have "round2 e w = Some (if r \<noteq> -1 \<and> r \<noteq> 2 then ([], False) else ([Some m], True), w)"
      using assms(7) by (auto simp: unf)
    then show ?thesis
      using other assms(6) keep(1) by (intro exI [of _ w]) auto
  next
    case proposal
    then obtain b where b: "GetProposalBlockIDS T t = Some b"
      using proposal_block_total [OF carriesD(5) [OF c]] by blast
    show ?thesis
    proof (cases b)
      case None
      then have "round2 e w = Some (([Some m], True), w)"
        using proposal b assms(7) by (auto simp: unf)
      then show ?thesis
        using proposal b None assms(6) keep(1) by (intro exI [of _ w]) auto
    next
      case (Some id)
      let ?w1 = "set_var L ''newProposal'' (VString id) w"
      let ?w' = "if unlocks \<and> id = old then abort_test L ?w1 else ?w1"
      have "round2 e w = Some (([Some m], True), ?w')"
        using assms(7) by (elim disjE) (simp_all add: unf lib proposal b Some assms(5) msg)
      then show ?thesis
        using proposal b Some keep by (intro exI [of _ ?w']) (auto simp: lib)
    qed
  next
    case prevote
    then obtain v b where v: "inner_vote t = Some v" "GetVoteBlockIDS T t = Some b"
      using well_typed_vote [OF carriesD(5) [OF c]] vote_block_total [OF carriesD(5) [OF c]] by blast
    have own: "own_vote_of T (Some p) (Replicas_Get L (ctx w) (From t)) t = Some (own_vote T h t)"
      by (rule own_vote_of_watched [OF w(3,5,4) v(1)])
    show ?thesis
    proof (cases "own_vote T h t")
      case True
      let ?w1 = "set_var L ''vote'' (VString (block_text b)) w"
      let ?w' = "if b = Some bad then abort_test L ?w1 else ?w1"
      have "round2 e w = Some (([Some m], True), ?w')"
        using assms(7) by (elim disjE) (simp_all add: unf block_text_def prevote v(2) own True)
      then show ?thesis
        using prevote v(2) True assms(6) keep by (intro exI [of _ ?w']) (auto simp: lib)
    next
      case False
      have "round2 e w = Some (([Some m], True), w)"
        using prevote own False assms(7) by (auto simp: unf)
      then show ?thesis
        using prevote False assms(6) keep(1) by (intro exI [of _ w]) auto
    qed
  qed
qed

section \<open>Setup\<close>

lemma lv_setup_parts:
  assumes "testlib_spec L \<alpha>" and rs: "rs = lreplicas (\<alpha> (ctx w))"
    and "store_ok T rs (lcap (\<alpha> (ctx w)))" and f: "f = (lcap (\<alpha> (ctx w)) - 1) sdiv 3"
    and init: "init \<in> {lv_testCaseOneSetup T L, lv_testCaseThreeSetup T L}"
  shows "if 4 \<le> length rs \<and> length rs mod 3 = 1
    then \<exists>w' P. init w = Some w' \<and>
      \<alpha> (ctx w') = (\<alpha> (ctx w))\<lparr>lvars := (lvars (\<alpha> (ctx w)))
        (''partition'' \<mapsto> VPartition (Some P), ''faults'' \<mapsto> VInt f)\<rparr> \<and>
      part_is T P ''faulty'' (take (nat f) rs) \<and>
      part_is T P ''honestDelayed'' (take 1 (drop (nat f) rs)) \<and>
      part_is T P ''rest'' (drop (nat f + 1) rs)
    else init w = None"
proof -
  have same: "init = lv_testCaseOneSetup T L"
    using init by (auto simp: lv_testCaseOneSetup_def lv_testCaseThreeSetup_def)
  obtain p where p: "create_partition T L [f, 1, 2 * f] [''faulty'', ''honestDelayed'', ''rest''] w = Some p"
    "byzantine_parts T rs f 1 ''faulty'' ''honestDelayed'' ''rest'' p"
    using create_partition_byzantine [OF assms(1) rs _ f, of T f 1 "''faulty''" "''honestDelayed''" "''rest''"]
      assms(3) by auto
  have run: "init w = (case p of None \<Rightarrow> None | Some P \<Rightarrow>
      Some (set_var L ''faults'' (VInt f) (set_var L ''partition'' (VPartition p) w)))"
    unfolding same
    by (simp add: lv_testCaseOneSetup_def context_specD [OF assms(1)] f [symmetric] p(1) Let_def
        Partition_String_def split: option.split)
  show ?thesis
  proof (cases p)
    case None
    with run p(2) show ?thesis by (auto simp: byzantine_parts_def)
  next
    case (Some P)
    with p(2) have "4 \<le> length rs \<and> length rs mod 3 = 1" "part_is T P ''faulty'' (take (nat f) rs)"
      "part_is T P ''honestDelayed'' (take 1 (drop (nat f) rs))" "part_is T P ''rest'' (drop (nat f + 1) rs)"
      by (auto simp: byzantine_parts_def split: if_splits)
    with run Some show ?thesis
      by (auto simp: vars_specD [OF assms(1)])
  qed
qed

text \<open>
  C32: the setup of the tests \<open>One\<close>, \<open>Two\<close> and \<open>Three\<close>. With 3 f + 1 replicas, f at least 1, it
  writes the number of faults and a partition with f faulty replicas, one under observation and
  the rest; with any other number the partitioner's error is dropped, the partition is nil and
  printing it panics.
\<close>

theorem lv_setup:
  assumes "testlib_spec L \<alpha>" and rs: "rs = lreplicas (\<alpha> (ctx w))"
    and "store_ok T rs (lcap (\<alpha> (ctx w)))" and f: "f = (lcap (\<alpha> (ctx w)) - 1) sdiv 3"
    and init: "init \<in> {lv_testCaseOneSetup T L, lv_testCaseThreeSetup T L}"
  shows "if 4 \<le> length rs \<and> length rs mod 3 = 1
    then \<exists>w' P. init w = Some w' \<and>
      \<alpha> (ctx w') = (\<alpha> (ctx w))\<lparr>lvars := (lvars (\<alpha> (ctx w)))
        (''partition'' \<mapsto> VPartition (Some P), ''faults'' \<mapsto> VInt f)\<rparr> \<and>
      part_is T P ''faulty'' (take (nat f) rs) \<and>
      part_is T P ''honestDelayed'' (take 1 (drop (nat f) rs)) \<and>
      part_is T P ''rest'' (drop (nat f + 1) rs)
    else init w = None"
  by (rule lv_setup_parts [OF assms])

section \<open>Votes of faulty senders\<close>

text \<open>What \<open>changeFultyVote\<close> hands on: the forged vote, or the message itself on an error.\<close>

lemma changeFultyVote_spec:
  assumes tm: "signing_spec T verify" "conversion_spec T valid" "codec_spec T" "json_spec J"
    and t: "tmsgs w a = Some t" "from_parser t" and rep: "usable T rep" "Info rep ''chain_id'' \<noteq> Some InfoOther"
    and part: "getReplicaPartition L w = Some (Some P)" "Partition_GetPart (Some P) ''faulty'' = Some p"
      "Part_Contains p (From t) = Some True"
    and "MsgType t = Prevote \<or> MsgType t = Precommit" and "Replicas_Get L (ctx w) (From t) = Some rep"
  shows "\<exists>m' w' forged w1. changeFultyVote T J L m a t w = Some (m', w') \<and>
    forge_vote T J rep a nil_block_id w = Some (forged, w1) \<and>
    (case forged of
       None \<Rightarrow> m' = m
     | Some bs \<Rightarrow> m' = fst (NewMessage L (ctx w1) m bs) \<and> vote_bytes T J verify rep t nil_block_id bs)"
proof -
  have "well_typed t" using t(2) by (simp add: from_parser_def)
  then obtain forged w1 where f: "forge_vote T J rep a nil_block_id w = Some (forged, w1)"
    using forge_vote_returns [OF tm(1,2) t(1) _ rep] by blast
  have bytes: "vote_bytes T J verify rep t nil_block_id bs" if "forged = Some bs" for bs
    using forge_vote_bytes [OF tm _ t] f that by blast
  obtain res err wc where cv: "ChangeVoteToNil T (Some rep) a w = Some ((res, err), wc)"
    using f by (auto simp: forge_vote_def ChangeVoteToNil_def Option.bind_eq_Some_conv)
  have run: "changeFultyVote T J L m a t w = (if err \<noteq> None then Some (m, wc)
      else Option.bind res (\<lambda>a'. Option.bind (Marshal T J a' wc) (\<lambda>(out, w2). Some (case out of
        Inl _ \<Rightarrow> (m, w2)
      | Inr bs \<Rightarrow> (case NewMessage L (ctx w2) m bs of (m', c) \<Rightarrow> (m', w2\<lparr>ctx := c\<rparr>))))))"
    using assms(12) by (simp add: changeFultyVote_def part assms(13) cv)
  show ?thesis
  proof (cases err)
    case (Some x)
    then show ?thesis using cv f by (simp add: run forge_vote_def ChangeVoteToNil_def)
  next
    case None
    with f cv obtain a' out w2 where mar: "res = Some a'" "Marshal T J a' wc = Some (out, w2)"
      by (auto simp: forge_vote_def ChangeVoteToNil_def Option.bind_eq_Some_conv)
    show ?thesis
      using cv f None mar bytes
      by (cases out) (auto simp: run forge_vote_def ChangeVoteToNil_def split: prod.split)
  qed
qed

text \<open>
  C31: the filter of faulty replicas. Anything but a vote sent by a replica of the faulty part is
  left to the next handler. Such a vote is replaced: by a message whose bytes parse as the vote for
  nil, signed with the key of the sender, or, when signing or encoding reports an error, by itself.
\<close>

theorem lv_faulty_filter:
  assumes lib: "testlib_spec L \<alpha>" and tm: "signing_spec T verify" "conversion_spec T valid"
      "codec_spec T" "json_spec J"
    and c: "carries L w e m a t" "from_parser t"
    and vars: "lvars (\<alpha> (ctx w)) ''partition'' = Some (VPartition (Some P))" "part_is T P ''faulty'' fs"
    and rs: "set fs \<subseteq> set (lreplicas (\<alpha> (ctx w)))" "distinct (map ID (lreplicas (\<alpha> (ctx w))))"
      "\<forall>r \<in> set fs. usable T r \<and> Info r ''chain_id'' \<noteq> Some InfoOther"
  shows "if (MsgType t = Prevote \<or> MsgType t = Precommit) \<and> From t \<in> ID ` set fs
    then \<exists>m' w' rep forged w1. lv_faultyReplicaFilter T J L e w = Some (([Some m'], True), w') \<and>
      rep \<in> set fs \<and> ID rep = From t \<and> forge_vote T J rep a nil_block_id w = Some (forged, w1) \<and>
      (case forged of
         None \<Rightarrow> m' = m
       | Some bs \<Rightarrow> m' = fst (NewMessage L (ctx w1) m bs) \<and> vote_bytes T J verify rep t nil_block_id bs)
    else lv_faultyReplicaFilter T J L e w = Some (([], False), w)"
proof -
  note cd = carriesD [OF c(1)]
  obtain p where p: "Partition_GetPart (Some P) ''faulty'' = Some (Some p)"
    "\<And>i. Part_Contains (Some p) i = Some (i \<in> ID ` set fs)"
    using vars(2) by (auto simp: part_is_def)
  have part: "getReplicaPartition L w = Some (Some P)"
    using vars(1) by (simp add: getReplicaPartition_def vars_specD [OF lib])
  note unf = lv_faultyReplicaFilter_def carries_message_of [OF c(1)] cd(4) isFaultyVote_def part p
  show ?thesis
  proof (cases "(MsgType t = Prevote \<or> MsgType t = Precommit) \<and> From t \<in> ID ` set fs")
    case False
    then show ?thesis by (auto simp: unf)
  next
    case True
    then obtain rep where rep: "rep \<in> set fs" "From t = ID rep" by auto
    have get: "Replicas_Get L (ctx w) (From t) = Some rep"
      using find_by_ID [of rep "lreplicas (\<alpha> (ctx w))"] rep rs(1,2) by (auto simp: context_specD [OF lib])
    have run: "lv_faultyReplicaFilter T J L e w =
        map_option (\<lambda>(m', w'). (([Some m'], True), w')) (changeFultyVote T J L m a t w)"
      using True by (auto simp: unf map_conv_bind_option intro!: arg_cong [of _ _ "Option.bind _"])
    have us: "usable T rep" "Info rep ''chain_id'' \<noteq> Some InfoOther" "Part_Contains (Some p) (From t) = Some True"
      using rs(3) rep True p(2) by auto
    from changeFultyVote_spec [OF tm cd(4) c(2) us(1,2) part p(1) us(3) _ get, of m] True
    obtain m' w' forged w1 where "changeFultyVote T J L m a t w = Some (m', w')"
      "forge_vote T J rep a nil_block_id w = Some (forged, w1)"
      "case forged of None \<Rightarrow> m' = m
       | Some bs \<Rightarrow> m' = fst (NewMessage L (ctx w1) m bs) \<and> vote_bytes T J verify rep t nil_block_id bs"
      by auto
    with True run rep show ?thesis by fastforce
  qed
qed

end
