(* ===== verification/LockedValue_Three.thy ===== *)
theory LockedValue_Three
  imports LockedValue_Filters
begin

text \<open>
  What is particular to \<open>testcases/lockedvalue/three.go\<close>: its condition on rounds, its filters of
  the first and of the later rounds, and the conditions that decide the test.
\<close>

section \<open>The next round\<close>

lemma track_next_keys: "distinct (map fst m) \<Longrightarrow> distinct (map fst (track_next f r m))"
  by (simp add: track_next_track_round track_round_keys)

lemma skipped_count:
  "int (length (filter (\<lambda>(k, r). cur < r) m)) = count_reached (cur + 1) m"
  by (simp add: count_reached_def zless_iff_Suc_zadd int_one_le_iff_zero_less add1_zle_eq)

text \<open>
  The condition \<open>nextRound\<close> keeps its own map with one test per message where \<open>updateRoundCount\<close>
  makes two. It is the condition \<open>roundReached\<close> for the round after \<open>curRound\<close>, 0 if never set:
  over any sequence of events with messages, the answer to the i-th is positive exactly when as
  many replicas as there are have been seen beyond the current round.
\<close>

lemma lv_next_round:
  assumes "testlib_spec L \<alpha>" and "lvars (\<alpha> (ctx w)) ''nextRoundCount'' = None"
    and "cur = (case lvars (\<alpha> (ctx w)) ''curRound'' of Some (VInt r) \<Rightarrow> r | _ \<Rightarrow> 0)"
    and "\<forall>e \<in> set es. \<exists>m a t. carries L w e m a t \<and> From t = frm e \<and> Round t = Some (rnd e)"
  shows "\<exists>bs w'. answers (lv_nextRound L) es w = Some (bs, w') \<and> length bs = length es \<and>
    (\<forall>i < length es. bs ! i \<longleftrightarrow>
      int (card (replicas_at (cur + 1) (map (\<lambda>e. (frm e, rnd e)) (take (Suc i) es)))) =
      lcap (\<alpha> (ctx w)))"
proof -
  let ?key = "''nextRoundCount''"
  let ?I = "\<lambda>w1. round_count_ok \<alpha> ?key w1 \<and> tmsgs w1 = tmsgs w \<and>
    lmessage (\<alpha> (ctx w1)) = lmessage (\<alpha> (ctx w)) \<and> lcap (\<alpha> (ctx w1)) = lcap (\<alpha> (ctx w)) \<and>
    lvars (\<alpha> (ctx w1)) ''curRound'' = lvars (\<alpha> (ctx w)) ''curRound''"
  have step: "\<exists>w2. lv_nextRound L e w1 =
      Some (count_reached (cur + 1) (track_round f r (round_count \<alpha> ?key w1)) = lcap (\<alpha> (ctx w)), w2) \<and>
      round_count \<alpha> ?key w2 = track_round f r (round_count \<alpha> ?key w1) \<and> ?I w2"
    if e: "e \<in> set es" and I: "?I w1" and fr: "(frm e, rnd e) = (f, r)" for e f r w1
  proof -
    from e assms(4) obtain m a t where c: "carries L w e m a t" "From t = frm e"
      "Round t = Some (rnd e)" by blast
    with I have c': "carries L w1 e m a t"
      using carries_keep [OF assms(1), of w1 w] by simp
    obtain x w2 where u: "updateRoundCount L ?key track_next r f w1 =
        Some (track_next f r (round_count \<alpha> ?key w1), w2)"
      "round_count \<alpha> ?key w2 = track_next f r (round_count \<alpha> ?key w1)" "round_count_ok \<alpha> ?key w2"
      "\<alpha> (ctx w2) = (\<alpha> (ctx w1))\<lparr>lvars := (lvars (\<alpha> (ctx w1)))(?key \<mapsto> VIntMap x)\<rparr>" "tmsgs w2 = tmsgs w1"
      by (rule updateRoundCount_spec [OF assms(1) conjunct1 [OF I], of track_next f r])
        (auto intro: track_next_keys that)
    have cur: "(case Vars_GetInt L (ctx w2) ''curRound'' of Some r \<Rightarrow> r | None \<Rightarrow> 0) = cur"
      using I u(4) unfolding assms(3) vars_specD [OF assms(1)]
      by (auto split: option.split var_value.split)
    show ?thesis
      using u I fr c(2,3) carriesD [OF c']
      by (simp add: lv_nextRound_def cur Let_def skipped_count context_specD [OF assms(1)]
          track_next_track_round)
  qed
  have "\<exists>bs w'. answers (lv_nextRound L) es w = Some (bs, w') \<and> ?I w' \<and>
      length bs = length es \<and> (\<forall>i < length es. bs ! i \<longleftrightarrow>
        int (card (replicas_at (cur + 1) ([] @ map (\<lambda>e. (frm e, rnd e)) (take (Suc i) es)))) =
        lcap (\<alpha> (ctx w)))"
    by (rule answers_track_rounds [where E = "set es" and rc = "round_count \<alpha> ?key"])
      (rule step, assumption+, use round_count_ok_new [of \<alpha> w ?key, OF assms(2)] in simp_all)
  then show ?thesis by auto
qed

section \<open>Proposals of later rounds\<close>

text \<open>
  The filter of the rounds after 0. A proposal passes only when its block differs from the old
  proposal, and is then the new one; a proposal of the old block is dropped, one whose block id does
  not convert is left to the next handler. Everything else passes, and nothing else is written.
\<close>

lemma lv_higher_round:
  assumes "testlib_spec L \<alpha>" and c: "carries L w e m a t" and r: "Round t = Some r"
    and "lvars (\<alpha> (ctx w)) ''oldProposal'' = Some (VString old)"
  shows "\<exists>w'. lv_higherRound T L e w =
      Some (if r = 0 then ([], False)
        else if r = -1 \<or> MsgType t \<noteq> Proposal then ([Some m], True)
        else if GetProposalBlockIDS T t = Some None then ([], False)
        else if GetProposalBlockIDS T t = Some (Some old) then ([], True) else ([Some m], True), w') \<and>
    (if r \<noteq> 0 \<and> r \<noteq> -1 \<and> MsgType t = Proposal \<and> GetProposalBlockIDS T t \<notin> {Some None, Some (Some old)}
     then \<exists>b. GetProposalBlockID T t = Some (Some b) \<and>
       \<alpha> (ctx w') = (\<alpha> (ctx w))\<lparr>lvars := (lvars (\<alpha> (ctx w)))(''newPropBlockID'' \<mapsto> VBlockID (Some b),
         ''newProposal'' \<mapsto> VString (hash_String T (Hash b)))\<rparr>
     else w' = w)"
proof -
  have msg: "message_of L e w = Some (m, a)" "tmsgs w a = Some t"
    using carriesD [OF c] by (simp_all add: message_of_def)
  have old: "string_var L ''oldProposal'' w = old"
    using assms(4) by (simp add: string_var_def vars_specD [OF assms(1)])
  note unf = lv_higherRound_def msg r old
  show ?thesis
  proof (cases "r \<noteq> 0 \<and> r \<noteq> -1 \<and> MsgType t = Proposal")
    case False
    then show ?thesis by (intro exI [of _ w]) (auto simp: unf)
  next
    case True
    obtain q where q: "GetProposalBlockID T t = Some q"
      using well_typed_proposal [OF carriesD(5) [OF c]] True by (auto simp: GetProposalBlockID_def)
    show ?thesis
    proof (cases q)
      case None
      then show ?thesis
        using True q by (intro exI [of _ w]) (simp add: unf GetProposalBlockIDS_def)
    next
      case (Some b)
      let ?s = "hash_String T (Hash b)"
      let ?w' = "if ?s = old then w else set_var L ''newProposal'' (VString ?s)
        (set_var L ''newPropBlockID'' (VBlockID (Some b)) w)"
      have "lv_higherRound T L e w = Some (if ?s = old then ([], True) else ([Some m], True), ?w')"
        using True q Some by (simp add: unf Let_def)
      then show ?thesis
        using True q Some
        by (intro exI [of _ ?w']) (simp add: GetProposalBlockIDS_def vars_specD [OF assms(1)])
    qed
  qed
qed

section \<open>The decisive vote\<close>

lemma observed_vote_spec:
  assumes "testlib_spec L \<alpha>" and c: "carries L w e m a t" and "watching T \<alpha> h w"
  shows "observed_vote T L e w =
    (if MsgType t = Precommit \<and> own_vote T h t then GetVoteBlockIDS T t else Some None)"
proof (cases "MsgType t = Precommit")
  case True
  obtain P p where w: "getReplicaPartition L w = Some (Some P)"
    "Partition_GetPart (Some P) ''honestDelayed'' = Some (Some p)"
    "\<And>i. Part_Contains (Some p) i = Some (i = ID h)"
    "Replicas_Get L (ctx w) (ID h) = Some h" "usable T h"
    by (rule watchingE [OF assms(1,3)]) (rule that, assumption+)
  obtain v where v: "inner_vote t = Some v"
    using True well_typed_vote [OF carriesD(5) [OF c]] by blast
  have "own_vote_of T (Some p) (Replicas_Get L (ctx w) (From t)) t = Some (own_vote T h t)"
    by (rule own_vote_of_watched [OF w(3,5,4) v])
  then show ?thesis
    using True w(1,2) by (simp add: observed_vote_def carriesD [OF c])
qed (simp add: observed_vote_def carriesD [OF c])

text \<open>
  What decides the test \<open>Three\<close>. On a message, \<open>oldVote\<close> holds exactly when it is the precommit
  of the replica under observation for the old proposal, and \<open>newVote\<close> exactly when it is the one
  for the new proposal, which also ends the test; both record the block of that replica's vote.
\<close>

lemma lv_decisive_vote:
  assumes "testlib_spec L \<alpha>" and c: "carries L w e m a t" and "watching T \<alpha> h w"
    and "lvars (\<alpha> (ctx w)) ''oldProposal'' = Some (VString old)"
    and "lvars (\<alpha> (ctx w)) ''newProposal'' = Some (VString new)"
    and "(cond, block, ends) = (lv_oldVote T L, old, False) \<or> (cond, block, ends) = (lv_newVote T L, new, True)"
  shows "\<exists>w'. cond e w =
      Some (MsgType t = Precommit \<and> own_vote T h t \<and> GetVoteBlockIDS T t = Some (Some block), w') \<and>
    lvars (\<alpha> (ctx w')) = (if MsgType t = Precommit \<and> own_vote T h t \<and> GetVoteBlockIDS T t \<noteq> Some None
      then (lvars (\<alpha> (ctx w)))(''blockVote'' \<mapsto> VString (the (the (GetVoteBlockIDS T t))))
      else lvars (\<alpha> (ctx w))) \<and>
    (lended (\<alpha> (ctx w')) \<longleftrightarrow> lended (\<alpha> (ctx w)) \<or>
      ends \<and> MsgType t = Precommit \<and> own_vote T h t \<and> GetVoteBlockIDS T t = Some (Some block))"
proof -
  note ov = observed_vote_spec [OF assms(1-3)]
  have vars: "string_var L ''oldProposal'' w = old" "string_var L ''newProposal'' w = new"
    using assms(4,5) by (simp_all add: string_var_def vars_specD [OF assms(1)])
  note unf = lv_oldVote_def lv_newVote_def ov vars
  note lib = vars_specD [OF assms(1)] context_specD [OF assms(1)]
  show ?thesis
  proof (cases "MsgType t = Precommit \<and> own_vote T h t")
    case False
    then have "cond e w = Some (False, w)"
      using assms(6) by (elim disjE) (auto simp: unf)
    then show ?thesis using False by (intro exI [of _ w]) auto
  next
    case True
    then obtain b where b: "GetVoteBlockIDS T t = Some b"
      using vote_block_total [OF carriesD(5) [OF c]] by blast
    show ?thesis
    proof (cases b)
      case None
      then have "cond e w = Some (False, w)"
        using True b assms(6) by (elim disjE) (auto simp: unf)
      then show ?thesis using True b None by (intro exI [of _ w]) auto
    next
      case (Some s)
      let ?w1 = "set_var L ''blockVote'' (VString s) w"
      let ?w' = "if ends \<and> s = block then end_test L ?w1 else ?w1"
      have "cond e w = Some (s = block, ?w')"
        using assms(6) by (elim disjE) (simp_all add: unf True b Some)
      then show ?thesis
        using True b Some by (intro exI [of _ ?w']) (auto simp: lib)
    qed
  qed
qed

end
