(* ===== verification/LockedValue_Witnesses.thy ===== *)
theory LockedValue_Witnesses
  imports Samples LockedValue_Runs LockedValue_Three
begin

text \<open>
  The properties of the package \<open>testcases/lockedvalue\<close> applied to the sample instances.
\<close>

section \<open>The replica under observation\<close>

lemma sample_watching:
  "\<exists>P. \<forall>vars t. map_of vars ''partition'' = Some (VPartition (Some P)) \<longrightarrow>
    watching sample_T observe_sample sample_r2 (world_at t sample_replicas vars)"
proof -
  obtain P where "part_is sample_T P ''honestDelayed'' [sample_r2]"
    using sample_parts [of "''faulty''" "''honestDelayed''" "''rest''"]
    by (auto simp: sample_replicas_def numeral_2_eq_2 sample_r2_def)
  then show ?thesis
    by (intro exI [of _ P]) (simp add: watching_def sample_replicas_def sample_usable sample_r2_def)
qed

lemma sample_own_vote:
  assumes "ty = Prevote \<or> ty = Precommit"
  shows "own_vote sample_T sample_r2 (sample_vote_in ty r)"
  using sample_vote_in_parsed(6) [OF assms, of r]
  by (auto simp: own_vote_def sample_r2_def sample_address)

section \<open>Conditions\<close>

theorem lv_value_locked_counts_witness:
  "\<exists>P w'. answers (lv_valueLockedCond sample_T sample_L) [sample_receive, sample_receive]
    (sample_world [(''partition'', VPartition (Some P)), (''faults'', VInt 1),
      (''oldProposal'', VString [char_of (7 :: nat)])]) = Some ([False, True], w')"
proof -
  let ?hs = "drop 2 sample_replicas" and ?old = "[char_of (7 :: nat)]"
  obtain P where P: "part_is sample_T P ''honestDelayed'' ?hs"
    using sample_parts [of "''faulty''" "''rest''" "''honestDelayed''"] by auto
  let ?vars = "[(''partition'', VPartition (Some P)), (''faults'', VInt 1), (''oldProposal'', VString ?old)]"
  let ?es = "[sample_receive, sample_receive]"
  have vars: "lock_vars sample_T observe_sample ?hs 1 ?old (sample_world ?vars)"
    using P by (simp add: lock_vars_def)
  have none: "lvars (observe_sample (ctx (sample_world ?vars))) ''prevotesSent'' = None" by simp
  have es: "\<forall>e \<in> set ?es. IsMessageReceive sample_L e \<and>
      (\<exists>m a. carries sample_L (sample_world ?vars) e m a sample_tmsg)"
    using sample_carries(2) [of sample_replicas ?vars] by auto
  have locks: "locks sample_T ?hs ?old sample_tmsg"
    by (simp add: locks_def sample_replicas_def GetVoteBlockIDS_def GetVoteBlockID_def sample_tmsg_parsed
        sample_T_fields sample_block_from_def sample_vote_def) (simp add: sample_tmsg_def)
  obtain bs w' where run: "answers (lv_valueLockedCond sample_T sample_L) ?es (sample_world ?vars) = Some (bs, w')"
    "length bs = 2" "\<not> bs ! 0" "bs ! 1"
    using lv_value_locked_counts [OF sample_library vars none es] locks by (auto simp: numeral_2_eq_2)
  then have "bs = [False, True]" by (cases bs; cases "tl bs") auto
  with run(1) show ?thesis by blast
qed

section \<open>Runs\<close>

text \<open>The replica \<open>r3\<close> comes second, so that it is the one under observation.\<close>

definition swapped :: "replica list" where
  "swapped = [sample_replica ''r1'' ''k'', sample_replica ''r3'' ''kkk'', sample_r2, sample_replica ''r4'' ''kkkk'']"

definition locked_vars :: "(string \<times> var_value) list" where
  "locked_vars = [(''oldProposal'', VString [char_of (7 :: nat)]), (''prevotesSent'', VInt 1)]"

lemma sample_locked_run:
  "\<exists>w. run observe_sample ''start'' (lv_One sample_T sample_J sample_L sample_labels)
    (world_of swapped locked_vars) ''LockedValue'' w"
proof -
  let ?w0 = "world_of swapped locked_vars" and ?tc = "lv_One sample_T sample_J sample_L sample_labels"
  have "(3 :: int) sdiv 3 = 1" by (simp add: sdiv_nonneg)
  moreover have "store_ok sample_T swapped 4"
    by (simp add: store_ok_def swapped_def sample_usable sample_r2_def)
  ultimately obtain w1 P where w1: "lv_testCaseOneSetup sample_T sample_L ?w0 = Some w1"
    "observe_sample (ctx w1) = (observe_sample (ctx ?w0))\<lparr>lvars := (map_of locked_vars)
      (''partition'' \<mapsto> VPartition (Some P), ''faults'' \<mapsto> VInt 1)\<rparr>"
    "part_is sample_T P ''honestDelayed'' [sample_replica ''r3'' ''kkk'']"
    using lv_setup_parts [OF sample_library, of swapped ?w0 sample_T 1 "lv_testCaseOneSetup sample_T sample_L"]
    by (auto simp: swapped_def)
  then have "tmsgs w1 = tmsgs ?w0"
    by (auto simp: lv_testCaseOneSetup_def Let_def Option.bind_eq_Some_conv)
  with w1(2) have c: "carries sample_L w1 sample_receive sample_message 0 sample_tmsg"
    using sample_carries(2) [of swapped locked_vars] carries_keep [OF sample_library, of w1 ?w0] by simp
  have vars: "lock_vars sample_T observe_sample [sample_replica ''r3'' ''kkk''] 1 [char_of (7 :: nat)] w1"
    "prevotes_sent observe_sample w1 = 1"
    using w1(2,3) by (simp_all add: lock_vars_def prevotes_sent_def locked_vars_def)
  have "locks sample_T [sample_replica ''r3'' ''kkk''] [char_of (7 :: nat)] sample_tmsg"
    by (simp add: locks_def GetVoteBlockIDS_def GetVoteBlockID_def sample_tmsg_parsed
        sample_T_fields sample_block_from_def sample_vote_def) (simp add: sample_tmsg_def)
  then obtain w2 where w2: "lv_valueLockedCond sample_T sample_L sample_receive w1 = Some (True, w2)"
    using lv_valueLockedCond_step [OF sample_library _ c vars(1)] vars(2) by auto
  have "run observe_sample ''start'' ?tc ?w0 ''start'' w1"
    by (rule run_start) (simp add: lv_One_def w1(1))
  then have "run observe_sample ''start'' ?tc ?w0 (if True then ''LockedValue'' else ''start'') w2"
    by (rule run_edge [where c = "lv_valueLockedCond sample_T sample_L" and e = sample_receive])
      (simp_all add: lv_One_def lv_edges_def sample_labels_def w2)
  then show ?thesis by auto
qed


section \<open>Filters\<close>

theorem lv_round1_verdict_witness:
  "\<exists>P w'. lv_Round1 sample_T sample_L sample_send
      (world_at (sample_vote_in Prevote 1) sample_replicas
        [(''partition'', VPartition (Some P)), (''oldProposal'', VString ''other'')]) =
      Some (([Some sample_message], True), w') \<and> laborted (observe_sample (ctx w'))"
proof -
  obtain P where P: "\<forall>vars t. map_of vars ''partition'' = Some (VPartition (Some P)) \<longrightarrow>
      watching sample_T observe_sample sample_r2 (world_at t sample_replicas vars)"
    using sample_watching by blast
  let ?w = "world_at (sample_vote_in Prevote 1) sample_replicas
    [(''partition'', VPartition (Some P)), (''oldProposal'', VString ''other'')]"
  have pre: "watching sample_T observe_sample sample_r2 ?w" "string_list observe_sample ''delayedProposals'' ?w []"
    "lvars (observe_sample (ctx ?w)) ''oldProposal'' = Some (VString ''other'')"
    using P by (simp_all add: string_list_def)
  note parsed = sample_vote_in_parsed [OF disjI1 [OF refl], where r = 1]
  have own: "own_vote sample_T sample_r2 (sample_vote_in Prevote 1)" by (simp add: sample_own_vote)
  from lv_round1_verdict [OF sample_library world_at_carries(1) [OF parsed(1)] parsed(4) pre] own parsed(5)
  show ?thesis
    by (intro exI [of _ P]) auto
qed

theorem lv_round2_verdict_witness:
  "\<exists>P w'. lv_Round2 sample_T sample_L sample_send
      (world_at (sample_vote_in Prevote 2) sample_replicas [(''partition'', VPartition (Some P)),
        (''oldProposal'', VString [char_of (7 :: nat)]), (''newProposal'', VString ''new'')]) =
      Some (([Some sample_message], True), w') \<and> laborted (observe_sample (ctx w'))"
proof -
  obtain P where P: "\<forall>vars t. map_of vars ''partition'' = Some (VPartition (Some P)) \<longrightarrow>
      watching sample_T observe_sample sample_r2 (world_at t sample_replicas vars)"
    using sample_watching by blast
  let ?w = "world_at (sample_vote_in Prevote 2) sample_replicas [(''partition'', VPartition (Some P)),
      (''oldProposal'', VString [char_of (7 :: nat)]), (''newProposal'', VString ''new'')]"
  have pre: "watching sample_T observe_sample sample_r2 ?w"
    "lvars (observe_sample (ctx ?w)) ''oldProposal'' = Some (VString [char_of (7 :: nat)])"
    "lvars (observe_sample (ctx ?w)) ''newProposal'' = Some (VString ''new'')"
    using P by simp_all
  note parsed = sample_vote_in_parsed [OF disjI1 [OF refl], where r = 2]
  have own: "own_vote sample_T sample_r2 (sample_vote_in Prevote 2)" by (simp add: sample_own_vote)
  from lv_round2_verdict [OF sample_library world_at_carries(1) [OF parsed(1)] parsed(4) pre
      disjI1 [OF refl]] own parsed(5)
  show ?thesis
    by (intro exI [of _ P]) auto
qed

theorem lv_setup_witness:
  "\<exists>w' P. lv_testCaseThreeSetup sample_T sample_L (sample_world []) = Some w' \<and>
    lvars (observe_sample (ctx w')) ''partition'' = Some (VPartition (Some P)) \<and>
    part_is sample_T P ''honestDelayed'' [sample_r2]"
proof -
  have "(3 :: int) sdiv 3 = 1" by (simp add: sdiv_nonneg)
  moreover have "store_ok sample_T (lreplicas (observe_sample (ctx (sample_world []))))
      (lcap (observe_sample (ctx (sample_world []))))"
    by (simp add: sample_store)
  ultimately show ?thesis
    using lv_setup [OF sample_library refl, where w = "sample_world []" and T = sample_T and f = 1
        and init = "lv_testCaseThreeSetup sample_T sample_L"]
    by (auto simp: sample_replicas_def sample_r2_def)
qed

theorem lv_faulty_filter_witness:
  "\<exists>P bs c w'. lv_faultyReplicaFilter sample_T sample_J sample_L sample_send
      (sample_world [(''partition'', VPartition (Some P))]) =
      Some (([Some (fst (NewMessage sample_L c sample_message bs))], True), w') \<and>
    vote_bytes sample_T sample_J sample_verify sample_r2 sample_tmsg nil_block_id bs"
proof -
  obtain P where P: "part_is sample_T P ''faulty'' [sample_r2]"
    using sample_partition_vars by (auto simp: sample_r2_def)
  let ?w = "sample_world [(''partition'', VPartition (Some P))]"
  have vars: "lvars (observe_sample (ctx ?w)) ''partition'' = Some (VPartition (Some P))"
    "set [sample_r2] \<subseteq> set (lreplicas (observe_sample (ctx ?w)))"
    "distinct (map ID (lreplicas (observe_sample (ctx ?w))))"
    "\<forall>r \<in> set [sample_r2]. usable sample_T r \<and> Info r ''chain_id'' \<noteq> Some InfoOther"
    by (simp_all add: sample_replicas_def sample_r2_def sample_usable) (simp add: sample_replica_def)
  obtain bs w1 where f: "forge_vote sample_T sample_J sample_r2 0 nil_block_id ?w = Some (Some bs, w1)"
    using sample_forge_vote [of ?w nil_block_id] by auto
  have "MsgType sample_tmsg = Prevote" "From sample_tmsg \<in> ID ` set [sample_r2]"
    by (simp_all add: sample_tmsg_def sample_r2_def)
  with lv_faulty_filter [OF sample_library sample_signing sample_conversion sample_codec_spec sample_json
      sample_carries(1) sample_tmsg_parsed(1) vars(1) P vars(2-4)] f
  have "\<exists>bs c w'. lv_faultyReplicaFilter sample_T sample_J sample_L sample_send ?w =
      Some (([Some (fst (NewMessage sample_L c sample_message bs))], True), w') \<and>
    vote_bytes sample_T sample_J sample_verify sample_r2 sample_tmsg nil_block_id bs"
    by auto
  then show ?thesis by blast
qed

end
