(* ===== verification/Rskip_Runs.thy ===== *)
theory Rskip_Runs
  imports Rskip Returns
begin

text \<open>
  What every schedule of the tests of \<open>testcases/rskip\<close> keeps of the variables the setup wrote,
  and what follows: no panic, progress once the round has been skipped, and an assertion of the
  blocking test that cannot fail.
\<close>

section \<open>What the operations keep\<close>

text \<open>
  Message stores stay message stores. With \<open>quiet\<close> this is what the operations of the test keep.
\<close>

definition stores_kept :: "('c \<Rightarrow> 'e lib_state) \<Rightarrow> 'c world \<Rightarrow> 'c world \<Rightarrow> bool" where
  "stores_kept \<alpha> w w' \<longleftrightarrow> (\<forall>s. lstores (\<alpha> (ctx w)) s \<noteq> None \<longrightarrow> lstores (\<alpha> (ctx w')) s \<noteq> None)"

lemma stores_kept_refl [simp]: "stores_kept \<alpha> w w"
  by (simp add: stores_kept_def)

lemma stores_kept_trans: "stores_kept \<alpha> w1 w2 \<Longrightarrow> stores_kept \<alpha> w2 w3 \<Longrightarrow> stores_kept \<alpha> w1 w3"
  by (simp add: stores_kept_def)

lemma stores_kept_same: "lstores (\<alpha> (ctx w')) = lstores (\<alpha> (ctx w)) \<Longrightarrow> stores_kept \<alpha> w w'"
  by (simp add: stores_kept_def)

text \<open>The invariant: the partition and the store of the setup, and the map of rounds.\<close>

definition rskip_ok :: "'k tendermint \<Rightarrow> ('c \<Rightarrow> 'e lib_state) \<Rightarrow> replica list \<Rightarrow> 'c world \<Rightarrow> bool" where
  "rskip_ok T \<alpha> rs w \<longleftrightarrow>
     (\<exists>p. lvars (\<alpha> (ctx w)) ''partition'' = Some (VPartition p) \<and>
        byzantine_parts T rs 1 ((int (length rs) - 1) sdiv 3) ''honestDelayed'' ''faulty'' ''rest'' p) \<and>
     (\<exists>s ds. lvars (\<alpha> (ctx w)) ''delayedMessages'' = Some (VMessageStore s) \<and>
        lstores (\<alpha> (ctx w)) s = Some ds) \<and>
     lreplicas (\<alpha> (ctx w)) = rs \<and> lcap (\<alpha> (ctx w)) = int (length rs)"

lemma rskip_ok_keep:
  assumes "rskip_ok T \<alpha> rs w" and "keeps \<alpha> {''roundCount'', ''CurRound'', ''msgCounter''} w w' \<or> scheduler_step \<alpha> w w' \<or>
      writes_only \<alpha> {''roundCount'', ''CurRound'', ''msgCounter''} w w' \<and>
      lreplicas (\<alpha> (ctx w')) = lreplicas (\<alpha> (ctx w)) \<and> lcap (\<alpha> (ctx w')) = lcap (\<alpha> (ctx w))"
    and "stores_kept \<alpha> w w'"
  shows "rskip_ok T \<alpha> rs w'"
proof -
  have "lvars (\<alpha> (ctx w')) ''partition'' = lvars (\<alpha> (ctx w)) ''partition''"
    "lvars (\<alpha> (ctx w')) ''delayedMessages'' = lvars (\<alpha> (ctx w)) ''delayedMessages''"
    "lreplicas (\<alpha> (ctx w')) = lreplicas (\<alpha> (ctx w))" "lcap (\<alpha> (ctx w')) = lcap (\<alpha> (ctx w))"
    using assms(2)
    by (elim disjE conjE; simp add: keepsD scheduler_stepD writes_onlyD)+
  note same = this
  have "\<exists>s ds. lvars (\<alpha> (ctx w)) ''delayedMessages'' = Some (VMessageStore s) \<and>
      lstores (\<alpha> (ctx w')) s = Some ds"
    using assms(1,3) unfolding rskip_ok_def stores_kept_def by blast
  with assms(1) show ?thesis
    unfolding rskip_ok_def same by blast
qed

lemma rskip_setup_ok:
  assumes lib: "testlib_spec L \<alpha>" and store: "store_ok T rs (lcap (\<alpha> (ctx w0)))" "rs = lreplicas (\<alpha> (ctx w0))"
  shows "\<exists>w. rskip_setupFunc T L w0 = Some w \<and> rskip_ok T \<alpha> rs w \<and>
    lvars (\<alpha> (ctx w)) ''roundCount'' = lvars (\<alpha> (ctx w0)) ''roundCount'' \<and>
    lvars (\<alpha> (ctx w)) ''cmr1'' = lvars (\<alpha> (ctx w0)) ''cmr1'' \<and>
    lmessage (\<alpha> (ctx w)) = lmessage (\<alpha> (ctx w0)) \<and> tmsgs w = tmsgs w0"
proof -
  let ?f = "(lcap (\<alpha> (ctx w0)) - 1) sdiv 3"
  have cap: "lcap (\<alpha> (ctx w0)) = int (length rs)" using store(1) by (simp add: store_ok_def)
  obtain p where p: "create_partition T L [1, ?f, 2 * ?f] [''honestDelayed'', ''faulty'', ''rest''] w0 = Some p"
    "byzantine_parts T rs 1 ?f ''honestDelayed'' ''faulty'' ''rest'' p"
    using create_partition_byzantine [OF lib store(2,1) refl, of 1 ?f "''honestDelayed''" "''faulty''" "''rest''"]
    by auto
  define w1 where "w1 = set_var L ''partition'' (VPartition p) w0"
  obtain s c where new: "NewMessageStore L (ctx w1) = (s, c)" by fastforce
  then have c: "\<alpha> c = (\<alpha> (ctx w1))\<lparr>lstores := (lstores (\<alpha> (ctx w1)))(s \<mapsto> [])\<rparr>"
    using stores_specD(2) [OF lib, of "ctx w1"] by simp
  let ?w = "set_var L ''delayedMessages'' (VMessageStore s) (w1\<lparr>ctx := c\<rparr>)"
  have "rskip_setupFunc T L w0 = Some ?w"
    using p(1) new by (simp add: rskip_setupFunc_def context_specD [OF lib] w1_def)
  moreover have "rskip_ok T \<alpha> rs ?w"
    using p(2) c cap store(2) by (simp add: rskip_ok_def vars_specD [OF lib] w1_def)
  ultimately show ?thesis
    using c by (intro exI [of _ ?w]) (simp add: vars_specD [OF lib] w1_def)
qed

section \<open>The steps of the tests\<close>

lemma stores_kept_Marshal: "Marshal T J a w = Some (out, w') \<Longrightarrow> ctx w' = ctx w"
  by (auto simp: Marshal_def Let_def split: sum.splits Option.bind_splits)

lemma stores_kept_ChangeVote: "ChangeVote T r a b w = Some (out, w') \<Longrightarrow> ctx w' = ctx w"
  by (auto simp: ChangeVote_def Let_def split: sum.splits if_splits Option.bind_splits)

lemma stores_kept_NewMessage:
  assumes "testlib_spec L \<alpha>" and "NewMessage L (ctx w) m bs = (m', c)"
  shows "stores_kept \<alpha> w (w1\<lparr>ctx := c\<rparr>)"
  using context_specD(6) [OF assms(1), of "ctx w" m bs] assms(2) by (auto simp: stores_kept_def)

lemma stores_kept_Store:
  assumes lib: "testlib_spec L \<alpha>" and "lstores (\<alpha> (ctx w)) s = Some ds"
  shows "stores_kept \<alpha> w (w1\<lparr>ctx := Store_Add L (ctx w) s m\<rparr>)"
    and "stores_kept \<alpha> w (w1\<lparr>ctx := Store_Remove L (ctx w) s i\<rparr>)"
  using stores_specD(5) [OF assms, of m] stores_specD(6) [OF assms, of i]
  by (auto simp: stores_kept_def)

lemma stores_kept_forged:
  assumes "ChangeVoteToNil T r a w = Some (x, w1)"
  shows "stores_kept \<alpha> w w1" and "Marshal T J a' w1 = Some (y, w2) \<Longrightarrow> stores_kept \<alpha> w w2"
  using stores_kept_ChangeVote [OF assms [unfolded ChangeVoteToNil_def]] stores_kept_Marshal [of T J a' w1 y w2]
  by (simp_all add: stores_kept_def)

lemma stores_kept_sent:
  assumes "testlib_spec L \<alpha>" and "ChangeVoteToNil T r a w = Some (x, w1)"
    and "Marshal T J a' w1 = Some (y, w2)" and "NewMessage L (ctx w2) m bs = (m', c)"
  shows "stores_kept \<alpha> w (w2\<lparr>ctx := c\<rparr>)"
  using stores_kept_trans [OF stores_kept_forged(2) [OF assms(2,3)] stores_kept_NewMessage [OF assms(1,4)]] .

lemma getDelayedMStore_ok:
  assumes "testlib_spec L \<alpha>" and "rskip_ok T \<alpha> rs w"
  obtains s ds where "getDelayedMStore L w = Some s" "lstores (\<alpha> (ctx w)) s = Some ds"
    "lvars (\<alpha> (ctx w)) ''delayedMessages'' = Some (VMessageStore s)"
  using assms(2) by (auto simp: rskip_ok_def getDelayedMStore_def vars_specD [OF assms(1)])

lemma rskip_changeVoteFilter_stores:
  assumes lib: "testlib_spec L \<alpha>" and ok: "rskip_ok T' \<alpha> rs w"
    and run: "rskip_changeVoteFilter T J L height round e w = Some (out, w')"
  shows "stores_kept \<alpha> w w'"
proof -
  obtain s ds where s: "getDelayedMStore L w = Some s" "lstores (\<alpha> (ctx w)) s = Some ds"
    by (rule getDelayedMStore_ok [OF lib ok])
  show ?thesis
    using run s(1)
    by (auto simp: rskip_changeVoteFilter_def
        intro: stores_kept_Store(1) [OF lib s(2)] stores_kept_forged stores_kept_sent [OF lib]
        split: if_splits option.splits Option.bind_splits sum.splits prod.splits)
qed

lemma deliver_loop_stores:
  assumes lib: "testlib_spec L \<alpha>"
  shows "deliver_loop L s i ms messages w = Some (out, w') \<Longrightarrow> lstores (\<alpha> (ctx w)) s \<noteq> None \<Longrightarrow>
    stores_kept \<alpha> w w'"
proof (induction ms arbitrary: i messages w)
  case Nil
  then show ?case by simp
next
  case (Cons m ms)
  let ?w1 = "w\<lparr>ctx := Store_Remove L (ctx w) s (msg_ID m)\<rparr>"
  from Cons.prems(2) obtain ds where "lstores (\<alpha> (ctx w)) s = Some ds" by blast
  then have k: "stores_kept \<alpha> w ?w1" by (rule stores_kept_Store(2) [OF lib])
  moreover have "deliver_loop L s (Suc i) ms (messages[i := Some m]) ?w1 = Some (out, w')"
    using Cons.prems(1) by (simp split: if_splits)
  ultimately show ?case
    using Cons.IH [of "Suc i" "messages[i := Some m]" ?w1] Cons.prems(2)
    by (auto simp: stores_kept_def)
qed

lemma deliverDelayedFilter_stores:
  assumes lib: "testlib_spec L \<alpha>" and ok: "rskip_ok T \<alpha> rs w"
    and run: "deliverDelayedFilter L e w = Some (out, w')"
  shows "stores_kept \<alpha> w w'"
proof -
  obtain s ds where s: "getDelayedMStore L w = Some s" "lstores (\<alpha> (ctx w)) s = Some ds"
    by (rule getDelayedMStore_ok [OF lib ok])
  from run consider "w' = w" | ms messages out1 where "deliver_loop L s 0 ms messages w = Some (out1, w')"
    using s(1)
    by (auto simp: deliverDelayedFilter_def Let_def Option.bind_eq_Some_conv
        split: if_split_asm option.split_asm)
  then show ?thesis
    using deliver_loop_stores [OF lib] s(2) by cases auto
qed

lemma rskip_roundReached_keeps:
  assumes lib: "testlib_spec L \<alpha>" and run: "rskip_roundReached L toRound e w = Some (b, w')"
    and ok: "round_count_ok \<alpha> ''roundCount'' w"
  shows "lreplicas (\<alpha> (ctx w')) = lreplicas (\<alpha> (ctx w))" "lcap (\<alpha> (ctx w')) = lcap (\<alpha> (ctx w))"
    "lstores (\<alpha> (ctx w')) = lstores (\<alpha> (ctx w))" "round_count_ok \<alpha> ''roundCount'' w'"
proof -
  have u: "lreplicas (\<alpha> (ctx w1)) = lreplicas (\<alpha> (ctx w)) \<and> lcap (\<alpha> (ctx w1)) = lcap (\<alpha> (ctx w)) \<and>
      lstores (\<alpha> (ctx w1)) = lstores (\<alpha> (ctx w)) \<and> round_count_ok \<alpha> ''roundCount'' w1"
    if "updateRoundCount L ''roundCount'' track_round r f w = Some (m, w1)" for r f m w1
    using that by (auto intro: update_track_round [OF lib ok, of r f])
  have set: "round_count_ok \<alpha> ''roundCount'' (set_var L ''CurRound'' v w1) = round_count_ok \<alpha> ''roundCount'' w1"
    for v w1
    by (simp add: round_count_ok_def vars_specD [OF lib])
  from run consider "w' = w" | r f m w1 where
      "updateRoundCount L ''roundCount'' track_round r f w = Some (m, w1)"
      "w' = w1 \<or> w' = set_var L ''CurRound'' (VInt toRound) w1"
    by (auto simp: rskip_roundReached_def Let_def Option.bind_eq_Some_conv
        split: if_split_asm option.split_asm)
  then show "lreplicas (\<alpha> (ctx w')) = lreplicas (\<alpha> (ctx w))" "lcap (\<alpha> (ctx w')) = lcap (\<alpha> (ctx w))"
    "lstores (\<alpha> (ctx w')) = lstores (\<alpha> (ctx w))" "round_count_ok \<alpha> ''roundCount'' w'"
    using u ok set by (cases; auto simp: vars_specD [OF lib])+
qed

section \<open>Every schedule of the round-skip test\<close>

lemma rskip_run_ok:
  assumes lib: "testlib_spec L \<alpha>" and store: "store_ok T rs (lcap (\<alpha> (ctx w0)))" "rs = lreplicas (\<alpha> (ctx w0))"
    and fresh: "lvars (\<alpha> (ctx w0)) ''roundCount'' = None"
    and run: "run \<alpha> (StartStateLabel lb) (rskip_OneTestcase T J L lb height round) w0 s w"
  shows "rskip_ok T \<alpha> rs w \<and> round_count_ok \<alpha> ''roundCount'' w"
  using run
proof (induction rule: run_invariant)
  case (start w)
  then have "rskip_setupFunc T L w0 = Some w" by (simp add: rskip_OneTestcase_def)
  with rskip_setup_ok [OF lib store] fresh show ?case by (auto simp: round_count_ok_def)
next
  case (edge s w c s' e b w')
  then consider "c = heightReached L height \<or> c = noDelayedMessagesCond L" | "c = rskip_roundReached L round"
    by (auto simp: rskip_OneTestcase_def)
  then show ?case
  proof cases
    case 1
    with edge(1,3) show ?thesis by (auto dest: heightReached_same noDelayedMessagesCond_same)
  next
    case 2
    with edge have r: "rskip_roundReached L round e w = Some (b, w')" by simp
    note k = rskip_roundReached_keeps [OF lib r conjunct2 [OF edge(1)]]
    have "writes_only \<alpha> {''roundCount'', ''CurRound'', ''msgCounter''} w w'"
      by (rule writes_only_mono [OF rskip_roundReached_CurRound(2) [OF lib r]]) auto
    with k rskip_ok_keep [OF conjunct1 [OF edge(1)], of w'] show ?thesis
      by (simp add: stores_kept_same)
  qed
next
  case (guard s w g c e b w')
  then show ?case by (auto simp: rskip_OneTestcase_def)
next
  case (handler s w g e out w')
  then consider "rskip_changeVoteFilter T J L height round e w = Some (out, w')"
    | "deliverDelayedFilter L e w = Some (out, w')"
    by (auto simp: rskip_OneTestcase_def)
  then have k: "quiet \<alpha> w w' \<and> stores_kept \<alpha> w w'"
  proof cases
    case 1
    then show ?thesis
      using rskip_changeVoteFilter_quiet [OF lib 1]
        rskip_changeVoteFilter_stores [OF lib conjunct1 [OF handler(1)] 1] by simp
  next
    case 2
    then show ?thesis
      using deliverDelayedFilter_quiet [OF lib 2]
        deliverDelayedFilter_stores [OF lib conjunct1 [OF handler(1)] 2] by simp
  qed
  have "keeps \<alpha> {''roundCount'', ''CurRound'', ''msgCounter''} w w'"
    by (rule keeps_mono [OF conjunct1 [OF k]]) simp
  with rskip_ok_keep [OF conjunct1 [OF handler(1)] disjI1 conjunct2 [OF k]] handler(1) k show ?case
    by (auto simp: round_count_ok_def keeps_def)
next
  case (scheduler s w w')
  then have "stores_kept \<alpha> w w'" by (auto simp: scheduler_step_def stores_kept_def)
  with rskip_ok_keep [OF conjunct1 [OF scheduler(1)] disjI2 [OF disjI1 [OF scheduler(2)]]] scheduler(1)
  show ?case
    by (simp add: round_count_ok_def scheduler_stepD [OF scheduler(2)])
qed


section \<open>No panic\<close>

declare ex_bool [simp]

lemma rskip_changeVoteFilter_returns:
  assumes lib: "testlib_spec L \<alpha>" and ok: "rskip_ok T \<alpha> rs w" and fit: "replicas_fit T rs cap"
    and pool: "pool_ok L w"
  shows "\<exists>out. rskip_changeVoteFilter T J L height round e w = Some out"
proof (cases "IsMessageSend L e \<and> GetMessageFromEvent L e w \<noteq> None")
  case False
  then show ?thesis
    by (auto simp: rskip_changeVoteFilter_def GetMessageFromEvent_eq GetParsedMessage_def split: option.splits)
next
  case True
  then obtain m a where m: "GetMessage L (ctx w) e = Some m" "GetParsedMessage (Some m) = Some a"
    by (auto simp: GetMessageFromEvent_def split: option.splits)
  then have "GetMessageFromEvent L e w = Some a" by (simp add: GetMessageFromEvent_eq)
  with pool obtain t where t: "tmsgs w a = Some t" "well_typed t"
    unfolding pool_ok_def by blast
  obtain h r where hr: "HeightRound t = Some (h, r)" using well_typed_HeightRound [OF t(2)] by blast
  from ok fit obtain P rest faulty where P: "lvars (\<alpha> (ctx w)) ''partition'' = Some (VPartition (Some P))"
    "part_is T P ''rest'' rest" "part_is T P ''faulty'' faulty"
    by (auto simp: rskip_ok_def byzantine_parts_def replicas_fit_def)
  obtain s ds where s: "getDelayedMStore L w = Some s" "lstores (\<alpha> (ctx w)) s = Some ds"
    by (rule getDelayedMStore_ok [OF lib ok])
  obtain pr pf where parts: "Partition_GetPart (Some P) ''rest'' = Some (Some pr)"
    "\<And>i. Part_Contains (Some pr) i = Some (i \<in> ID ` set rest)"
    "Partition_GetPart (Some P) ''faulty'' = Some (Some pf)"
    "\<And>i. Part_Contains (Some pf) i = Some (i \<in> ID ` set faulty)"
    using P(2,3) by (auto simp: part_is_def)
  have forge: "\<exists>res err w1. ChangeVoteToNil T (Some rep) a w = Some ((res, err), w1) \<and>
      (err = None \<longrightarrow> res = Some a \<and> (\<exists>out w2. Marshal T J a w1 = Some (out, w2)))"
    if "Replicas_Get L (ctx w) (msg_From m) = Some rep" for rep
  proof -
    have "rep \<in> set rs"
      using that ok by (auto simp: context_specD [OF lib] rskip_ok_def find_Some_iff)
    with fit have "usable T rep" "Info rep ''chain_id'' \<noteq> Some InfoOther"
      by (auto simp: replicas_fit_def store_ok_def)
    with forge_and_marshal [OF t(2,1)] show ?thesis by (simp add: ChangeVoteToNil_def)
  qed
  show ?thesis
  proof (cases "Replicas_Get L (ctx w) (msg_From m)")
    case None
    then show ?thesis
      using True m t hr P(1) parts s
      by (simp add: rskip_changeVoteFilter_def rskip_getPartition_def vars_specD [OF lib])
  next
    case (Some rep)
    with forge obtain res err w1 where cv: "ChangeVoteToNil T (Some rep) a w = Some ((res, err), w1)"
      "err = None \<longrightarrow> res = Some a \<and> (\<exists>out w2. Marshal T J a w1 = Some (out, w2))" by blast
    then show ?thesis
      using True m t hr P(1) parts s Some
      by (cases err) (auto simp: rskip_changeVoteFilter_def rskip_getPartition_def vars_specD [OF lib]
          split: sum.split prod.split)
  qed
qed

lemma deliverDelayedFilter_returns:
  assumes lib: "testlib_spec L \<alpha>" and ok: "rskip_ok T \<alpha> rs w"
  shows "\<exists>out. deliverDelayedFilter L e w = Some out"
proof (cases "IsMessageSend L e")
  case False
  then show ?thesis by (intro exI) (simp add: deliverDelayedFilter_def)
next
  case True
  obtain s ds where s: "lstores (\<alpha> (ctx w)) s = Some ds"
    "lvars (\<alpha> (ctx w)) ''delayedMessages'' = Some (VMessageStore s)"
    by (rule getDelayedMStore_ok [OF lib ok])
  show ?thesis
  proof (cases "lpool (\<alpha> (ctx w)) (MessageID L e)")
    case None
    with True show ?thesis by (simp add: deliverDelayedFilter_def context_specD [OF lib])
  next
    case (Some m)
    from delivered_all [OF lib True Some s(2,1)] show ?thesis by blast
  qed
qed

lemma rskip_returns:
  assumes lib: "testlib_spec L \<alpha>" and fit: "replicas_fit T (lreplicas (\<alpha> (ctx w0))) (lcap (\<alpha> (ctx w0)))"
    and fresh: "lvars (\<alpha> (ctx w0)) ''roundCount'' = None"
  shows "(\<exists>w. tc_setup (rskip_OneTestcase T J L lb height round) w0 = Some w \<and>
    run \<alpha> (StartStateLabel lb) (rskip_OneTestcase T J L lb height round) w0 (StartStateLabel lb) w) \<and>
    (\<forall>s w e. run \<alpha> (StartStateLabel lb) (rskip_OneTestcase T J L lb height round) w0 s w \<longrightarrow> pool_ok L w \<longrightarrow>
      (\<forall>(s1, c, s2) \<in> set (tc_edges (rskip_OneTestcase T J L lb height round)). \<exists>out. c e w = Some out) \<and>
      (\<forall>g \<in> set (tc_handlers (rskip_OneTestcase T J L lb height round)). \<exists>out. handler_of g e w = Some out))"
proof (intro conjI allI impI)
  let ?tc = "rskip_OneTestcase T J L lb height round"
  have store: "store_ok T (lreplicas (\<alpha> (ctx w0))) (lcap (\<alpha> (ctx w0)))"
    using fit by (simp add: replicas_fit_def)
  obtain w where w: "tc_setup ?tc w0 = Some w"
    using rskip_setup_ok [OF lib store refl] by (auto simp: rskip_OneTestcase_def)
  with run_start [of ?tc w0 w] show "\<exists>w. tc_setup ?tc w0 = Some w \<and> run \<alpha> (StartStateLabel lb) ?tc w0 (StartStateLabel lb) w"
    by blast
  fix s w e
  assume run: "run \<alpha> (StartStateLabel lb) ?tc w0 s w" and pool: "pool_ok L w"
  from rskip_run_ok [OF lib store refl fresh run]
  have ok: "rskip_ok T \<alpha> (lreplicas (\<alpha> (ctx w0))) w" "round_count_ok \<alpha> ''roundCount'' w" by simp_all
  have handlers: "\<exists>out. rskip_changeVoteFilter T J L height round e w = Some out"
    "\<exists>out. deliverDelayedFilter L e w = Some out"
    by (rule rskip_changeVoteFilter_returns [OF lib ok(1) fit pool]) (rule deliverDelayedFilter_returns [OF lib ok(1)])
  then show "\<forall>g \<in> set (tc_handlers ?tc). \<exists>out. handler_of g e w = Some out"
    by (simp add: rskip_OneTestcase_def)
  have delayed: "\<exists>out. noDelayedMessagesCond L e w = Some out"
    using getDelayedMStore_ok [OF lib ok(1)] by (fastforce simp: noDelayedMessagesCond_def)
  have parsed: "\<exists>t h r. tmsgs w a = Some t \<and> HeightRound t = Some (h, r)"
    if "GetParsedMessage (GetMessage L (ctx w) e) = Some a" for a
    using pool that well_typed_HeightRound by (fastforce simp: pool_ok_def GetMessageFromEvent_eq)
  have height: "\<exists>out. heightReached L height e w = Some out"
    using parsed by (fastforce simp: heightReached_def Height_def split: option.split)
  have count: "\<exists>m w1. updateRoundCount L ''roundCount'' track_round r f w = Some (m, w1)" for r f
    by (rule update_track_round [OF lib ok(2), of r f]) blast
  have "\<exists>out. rskip_roundReached L round e w = Some out"
  proof (cases "GetParsedMessage (GetMessage L (ctx w) e)")
    case None
    then show ?thesis by (auto simp: rskip_roundReached_def split: option.split)
  next
    case (Some a)
    from parsed [OF this] obtain t r where t: "tmsgs w a = Some t" "Round t = Some r"
      by (auto simp: Round_def)
    obtain m where m: "GetMessage L (ctx w) e = Some m"
      using Some by (auto simp: GetParsedMessage_def split: option.splits)
    obtain rc w1 where "updateRoundCount L ''roundCount'' track_round r (msg_From m) w = Some (rc, w1)"
      using count by blast
    with Some m t show ?thesis by (cases "IsMessageSend L e") (auto simp: rskip_roundReached_def Let_def)
  qed
  with delayed height show "\<forall>(s1, c, s2) \<in> set (tc_edges ?tc). \<exists>out. c e w = Some out"
    by (simp add: rskip_OneTestcase_def)
qed

text \<open>
  C7: the round-skip test never panics. With 3 f + 1 replicas whose keys can be used, in every
  state that a schedule can reach and on every event, each condition and each handler returns, as
  long as what the events point to came from the parser.
\<close>

theorem rskip_never_panics:
  assumes lib: "testlib_spec L \<alpha>" and fit: "replicas_fit T (lreplicas (\<alpha> (ctx w0))) (lcap (\<alpha> (ctx w0)))"
    and fresh: "lvars (\<alpha> (ctx w0)) ''roundCount'' = None"
  shows "(\<exists>w. tc_setup (rskip_OneTestcase T J L lb height round) w0 = Some w \<and>
    run \<alpha> (StartStateLabel lb) (rskip_OneTestcase T J L lb height round) w0 (StartStateLabel lb) w) \<and>
    (\<forall>s w e. run \<alpha> (StartStateLabel lb) (rskip_OneTestcase T J L lb height round) w0 s w \<longrightarrow> pool_ok L w \<longrightarrow>
      (\<forall>(s1, c, s2) \<in> set (tc_edges (rskip_OneTestcase T J L lb height round)). \<exists>out. c e w = Some out) \<and>
      (\<forall>g \<in> set (tc_handlers (rskip_OneTestcase T J L lb height round)). \<exists>out. handler_of g e w = Some out))"
  by (rule rskip_returns [OF assms])

section \<open>The assertion of the blocking test\<close>

lemma commit_or_round1_same: "commit_or_round1 L e w = Some (b, w') \<Longrightarrow> w' = w"
  by (auto simp: commit_or_round1_def Let_def Option.bind_eq_Some_conv split: if_split_asm option.split_asm)

lemma blocking_filter_writes:
  assumes lib: "testlib_spec L \<alpha>" and run: "filter_less_than_n_minus_f L e w = Some (out, w')"
  shows "writes_only \<alpha> {''msgCounter''} w w'"
proof -
  let ?w1 = "if \<not> Vars_Exists L (ctx w) ''msgCounter''
    then (case newCounter w of (ctr, w0) \<Rightarrow> set_var L ''msgCounter'' (VReplicaCounter ctr) w0) else w"
  have w1: "writes_only \<alpha> {''msgCounter''} w ?w1"
    by (simp add: writes_only_def newCounter_def vars_specD [OF lib])
  have add: "writes_only \<alpha> {''msgCounter''} w1 (w1\<lparr>ctx := Store_Add L (ctx w1) s m, replica_counters := rc\<rparr>)"
    for w1 s m rc
    using stores_specD(7) [OF lib, of "ctx w1" s m] by (auto simp: writes_only_def)
  from run consider "w' = w" | "w' = ?w1"
    | s m rc where "w' = ?w1\<lparr>ctx := Store_Add L (ctx ?w1) s m, replica_counters := rc\<rparr>"
    unfolding filter_less_than_n_minus_f_def Let_def
    by (auto simp: Option.bind_eq_Some_conv split: if_split_asm option.split_asm)
  then show ?thesis
  proof cases
    case 3
    with writes_only_trans [OF w1 add] show ?thesis by simp
  qed (use w1 in simp_all)
qed

text \<open>
  The assertion of the blocking test reads \<open>cmr1\<close>, which no code sets: it holds in every state,
  also when the test has failed.
\<close>

lemma blocking_assertion_holds:
  assumes lib: "testlib_spec L \<alpha>" and "lvars (\<alpha> (ctx w0)) ''cmr1'' = None"
    and store: "store_ok T (lreplicas (\<alpha> (ctx w0))) (lcap (\<alpha> (ctx w0)))"
    and "run \<alpha> (StartStateLabel lb) (rskip_BlockingTestcase T L lb) w0 s w"
  shows "tc_assert (rskip_BlockingTestcase T L lb) s w = Some True"
proof -
  have "lvars (\<alpha> (ctx w)) ''cmr1'' = None"
    using assms(4)
  proof (induction rule: run_invariant)
    case (start w)
    then show ?case
      using rskip_setup_ok [OF lib store refl] assms(2) by (auto simp: rskip_BlockingTestcase_def)
  next
    case (edge s w c s' e b w')
    then have "commit_or_round1 L e w = Some (b, w')" by (simp add: rskip_BlockingTestcase_def)
    with edge(1) show ?case by (auto dest: commit_or_round1_same)
  next
    case (guard s w g c e b w')
    then show ?case by (auto simp: rskip_BlockingTestcase_def)
  next
    case (handler s w g e out w')
    then consider "filter_less_than_n_minus_f L e w = Some (out, w')" | "deliverDelayedFilter L e w = Some (out, w')"
      by (auto simp: rskip_BlockingTestcase_def)
    then have "writes_only \<alpha> {''msgCounter''} w w'"
    proof cases
      case 1
      then show ?thesis by (rule blocking_filter_writes [OF lib])
    next
      case 2
      then show ?thesis by (intro keeps_writes keeps_mono [OF deliverDelayedFilter_quiet [OF lib 2]]) simp
    qed
    with handler(1) show ?case by (simp add: writes_only_def)
  next
    case (scheduler s w w')
    then show ?case by (simp add: scheduler_stepD [OF scheduler(2)])
  qed
  then show ?thesis
    by (simp add: rskip_BlockingTestcase_def vars_specD [OF lib])
qed

end
