(* ===== verification/Small_Tests.thy ===== *)
theory Small_Tests
  imports Testcases
begin

text \<open>
  The remaining test cases: \<open>testcases/bfttime/one.go\<close>, \<open>testcases/byzantine/one.go\<close> and
  \<open>testcases/dummy.go\<close>. A test case built with \<open>testlib.NewTestCase\<close> alone has the library's own
  setup and assertion: they are the parameters \<open>default_setup\<close> and \<open>default_assert\<close>. A generic
  handler is a cascade of one handler and no state machine.
\<close>

section \<open>Numbers and times\<close>

text \<open>
  \<open>strconv.ParseInt(s, 10, 64)\<close> without its error value: an optional sign, at least one digit and
  nothing else, and a value of 64 bits.
\<close>

definition is_digit :: "char \<Rightarrow> bool" where
  "is_digit c \<longleftrightarrow> 48 \<le> (of_char c :: nat) \<and> (of_char c :: nat) < 58"

definition parse_digits :: "string \<Rightarrow> nat option" where
  "parse_digits s = (if s \<noteq> [] \<and> list_all is_digit s then Some (decimal_value s) else None)"

definition int64_of :: "int \<Rightarrow> int option" where
  "int64_of i = (if - (2 ^ 63) \<le> i \<and> i < 2 ^ 63 then Some i else None)"

definition ParseInt :: "string \<Rightarrow> int option" where
  "ParseInt s =
     (case s of
        [] \<Rightarrow> None
      | c # cs \<Rightarrow>
          if c = CHR ''-'' then Option.bind (parse_digits cs) (\<lambda>n. int64_of (- int n))
          else if c = CHR ''+'' then Option.bind (parse_digits cs) (\<lambda>n. int64_of (int n))
          else Option.bind (parse_digits s) (\<lambda>n. int64_of (int n)))"

text \<open>
  \<open>time.Unix(sec, 0)\<close>: a time keeps its seconds since the year 1 in 64 bits, so the addition of the
  offset wraps.
\<close>

definition unix_to_internal :: int where
  "unix_to_internal = 62135596800"

definition time_Unix :: "int \<Rightarrow> time" where
  "time_Unix sec = (sint (word_of_int (sec + unix_to_internal) :: 64 word) - unix_to_internal) * Second"

text \<open>The zero \<open>time.Time\<close>, the first instant of the year 1.\<close>

definition zero_time :: time where
  "zero_time = - unix_to_internal * Second"

text \<open>
  \<open>t.Add(d)\<close> is the sum: the times the code adds to are the clock's and those of votes, which
  the wire format keeps within the years 1 to 9999.
\<close>

definition Hour :: int where
  "Hour = 3600 * Second"

section \<open>\<open>bfttime/one.go\<close>\<close>

text \<open>The events of a new proposal, and the votes.\<close>

definition record_new_proposal :: "('e, 'c) testlib \<Rightarrow> 'e \<Rightarrow> 'c world \<Rightarrow> 'c world" where
  "record_new_proposal L e w =
     (case event_Type L e of
        GenericEventType ty params \<Rightarrow>
          if ty = ''NewProposal'' \<and> params ''height'' = Some ''2'' then
            (case params ''block_timestamp'' of
               None \<Rightarrow> w
             | Some timestampI \<Rightarrow> (case ParseInt timestampI of
                 None \<Rightarrow> w
               | Some timestamp \<Rightarrow> set_var L ''newtimestamp'' (VTime (time_Unix timestamp)) w))
          else w
      | OtherEventType \<Rightarrow> w)"

definition bft_changeVoteFilter :: "'k tendermint \<Rightarrow> json \<Rightarrow> ('e, 'c) testlib \<Rightarrow> ('e, 'c) handler" where
  "bft_changeVoteFilter T J L e w =
     (if \<not> IsMessageSend L e then Some (([], False), record_new_proposal L e w)
      else case MessagePool_Get L (ctx w) (MessageID L e) of
        None \<Rightarrow> Some (([], False), w)
      | Some message \<Rightarrow> (case GetParsedMessage (Some message) of
        None \<Rightarrow> Some (([Some message], True), w)
      | Some a \<Rightarrow> do {
          tMsg \<leftarrow> tmsgs w a;
          (if MsgType tMsg \<noteq> Precommit then Some (([Some message], True), w)
           else do {
             curTime \<leftarrow> GetVoteTime tMsg;
             let tm = (case curTime of Some t \<Rightarrow> t | None \<Rightarrow> zero_time);
             (case Replicas_Get L (ctx w) (msg_From message) of
               None \<Rightarrow> Some (([Some message], True), w)
             | Some replica \<Rightarrow> do {
                 ((newVote, err), w1) \<leftarrow> ChangeVoteTime T (Some replica) a (tm + 24 * Hour) w;
                 (if err \<noteq> None then Some (([Some message], True), w1)
                  else do {
                    a' \<leftarrow> newVote;
                    (newMsgB, w2) \<leftarrow> Marshal T J a' w1;
                    (case newMsgB of
                      Inl _ \<Rightarrow> Some (([Some message], True), w2)
                    | Inr bs \<Rightarrow>
                        (case NewMessage L (ctx w2) message bs of (m', c) \<Rightarrow>
                           Some (([Some m'], True), w2\<lparr>ctx := c\<rparr>))) }) }) }) }))"

text \<open>The assertion reads the clock: \<open>now\<close> is the time it is evaluated at.\<close>

definition bft_assert :: "time \<Rightarrow> ('e, 'c) testlib \<Rightarrow> 'c world \<Rightarrow> bool option" where
  "bft_assert now L w =
     (case Vars_Get L (ctx w) ''newtimestamp'' of
        None \<Rightarrow> Some False
      | Some (VTime newTimestamp) \<Rightarrow> Some (now + 23 * Hour < newTimestamp)
      | Some _ \<Rightarrow> None)"

definition bft_OneTestCase :: "('c world \<Rightarrow> 'c world option) \<Rightarrow> time \<Rightarrow> 'k tendermint \<Rightarrow> json \<Rightarrow>
    ('e, 'c) testlib \<Rightarrow> ('e, 'c) test_case" where
  "bft_OneTestCase default_setup now T J L = \<lparr>
     tc_name = ''BFTTimeOne'',
     tc_timeout = 50 * Second,
     tc_setup = default_setup,
     tc_edges = [],
     tc_handlers = [Handler (bft_changeVoteFilter T J L)],
     tc_assert = (\<lambda>s w. bft_assert now L w)\<rparr>"

section \<open>\<open>byzantine/one.go\<close>\<close>

text \<open>The condition reads the message pool and counts by the sender of the scheduler's message.\<close>

definition getRoundCond :: "('e, 'c) testlib \<Rightarrow> int \<Rightarrow> ('e, 'c) condition" where
  "getRoundCond L toRound e w =
     (if \<not> IsMessageSend L e then Some (False, w)
      else case MessagePool_Get L (ctx w) (MessageID L e) of
        None \<Rightarrow> Some (False, w)
      | Some message \<Rightarrow> (case GetParsedMessage (Some message) of
        None \<Rightarrow> Some (False, w)
      | Some a \<Rightarrow> do {
          tMsg \<leftarrow> tmsgs w a;
          round \<leftarrow> Round tMsg;
          (roundCount, w1) \<leftarrow> updateRoundCount L ''roundCount'' track_round round (msg_From message) w;
          Some (count_reached toRound roundCount = Replicas_Cap L (ctx w1), w1) }))"

definition byz_changeProposal :: "('e, 'c) handler" where
  "byz_changeProposal e w = Some (([], False), w)"

definition byz_changeVote :: "('e, 'c) handler" where
  "byz_changeVote e w = Some (([], False), w)"

definition changeBlockParts :: "('e, 'c) handler" where
  "changeBlockParts e w = Some (([], False), w)"

definition byz_One :: "('c world \<Rightarrow> 'c world option) \<Rightarrow> (string \<Rightarrow> 'c world \<Rightarrow> bool option) \<Rightarrow>
    ('e, 'c) test_case" where
  "byz_One default_setup default_assert = \<lparr>
     tc_name = ''CompetingProposals'',
     tc_timeout = 30 * Second,
     tc_setup = default_setup,
     tc_edges = [],
     tc_handlers = [Handler byz_changeProposal, Handler byz_changeVote, Handler changeBlockParts],
     tc_assert = default_assert\<rparr>"

section \<open>\<open>dummy.go\<close>\<close>

definition dummy_handler :: "('e, 'c) testlib \<Rightarrow> ('e, 'c) handler" where
  "dummy_handler L e w =
     (if \<not> IsMessageSend L e then Some (([], False), w)
      else case MessagePool_Get L (ctx w) (MessageID L e) of
        Some message \<Rightarrow> Some (([Some message], True), w)
      | None \<Rightarrow> Some (([], True), w))"

definition dummy_cond :: "('e, 'c) testlib \<Rightarrow> ('e, 'c) condition" where
  "dummy_cond L e w =
     (if \<not> IsMessageSend L e then Some (False, w)
      else case GetMessageFromEvent L e w of
        None \<Rightarrow> Some (False, w)
      | Some a \<Rightarrow> do { message \<leftarrow> tmsgs w a; Some (MsgType message = Precommit, w) })"

definition DummyTestCase :: "('c world \<Rightarrow> 'c world option) \<Rightarrow> ('e, 'c) testlib \<Rightarrow> ('e, 'c) test_case" where
  "DummyTestCase default_setup L = \<lparr>
     tc_name = ''Dummy'',
     tc_timeout = 20 * Second,
     tc_setup = default_setup,
     tc_edges = [],
     tc_handlers = [Handler (dummy_handler L)],
     tc_assert = (\<lambda>s w. Some True)\<rparr>"

definition DummyTestCaseStateMachine :: "('c world \<Rightarrow> 'c world option) \<Rightarrow>
    (string \<Rightarrow> 'c world \<Rightarrow> bool option) \<Rightarrow> ('e, 'c) testlib \<Rightarrow> labels \<Rightarrow> ('e, 'c) test_case" where
  "DummyTestCaseStateMachine default_setup default_assert L lb = \<lparr>
     tc_name = ''DummySM'',
     tc_timeout = 30 * Second,
     tc_setup = default_setup,
     tc_edges = [(StartStateLabel lb, dummy_cond L, SuccessStateLabel lb)],
     tc_handlers = [Handler (dummy_handler L)],
     tc_assert = default_assert\<rparr>"

section \<open>Parsing numbers\<close>

lemma parse_digits_decimal: "parse_digits (decimal n) = Some n"
  by (auto simp: parse_digits_def list_all_iff is_digit_def decimal_digits)

text \<open>What \<open>Sprintf("%d")\<close> prints is parsed back, up to the range of 64 bits.\<close>

lemma ParseInt_fmt_d: "ParseInt (fmt_d i) = int64_of i"
proof (cases "i < 0")
  case True
  then show ?thesis by (simp add: fmt_d_def ParseInt_def parse_digits_decimal)
next
  case False
  obtain c cs where s: "decimal (nat i) = c # cs" by (cases "decimal (nat i)") auto
  then have "c \<in> set (decimal (nat i))" by simp
  then have "48 \<le> (of_char c :: nat)" using decimal_digits by blast
  then have "c \<noteq> CHR ''-''" "c \<noteq> CHR ''+''" by auto
  with s parse_digits_decimal [of "nat i"] False show ?thesis by (simp add: fmt_d_def ParseInt_def)
qed

text \<open>No wrap for the seconds of the years the wire format knows.\<close>

lemma time_Unix_exact:
  assumes "- (2 ^ 62) \<le> sec" and "sec < 2 ^ 62"
  shows "time_Unix sec = sec * Second"
proof -
  have "sint (word_of_int (sec + unix_to_internal) :: 64 word) = sec + unix_to_internal"
    using assms unfolding sint_sbintrunc' unix_to_internal_def
    by (intro signed_take_bit_int_eq_self) simp_all
  then show ?thesis by (simp add: time_Unix_def)
qed

section \<open>Votes of the next day\<close>

lemma ChangeVoteTime_returns:
  assumes "well_typed t" and "tmsgs h a = Some t" and "usable T r" and "Info r ''chain_id'' \<noteq> Some InfoOther"
  shows "\<exists>res err h'. ChangeVoteTime T (Some r) a tm h = Some ((res, err), h')"
proof -
  obtain pk where pk: "GetPrivKey T (Some r) = Some pk" "pk \<noteq> Inr None"
    using GetPrivKey_Some assms(3) unfolding usable_def by metis
  have "\<exists>cid. GetChainID (Some r) = Some cid"
    using assms(4) by (auto simp: GetChainID_def split: option.splits info_value.splits)
  then obtain cid where cid: "GetChainID (Some r) = Some cid" by blast
  show ?thesis
  proof (cases pk)
    case (Inl e)
    with pk show ?thesis by (simp add: ChangeVoteTime_def)
  next
    case (Inr key)
    with pk(2) obtain k where k: "key = Some k" by (cases key) auto
    have "\<exists>v. inner_vote t = Some v" if "MsgType t = Prevote \<or> MsgType t = Precommit"
      using well_typed_vote [OF assms(1) that] by blast
    with Inr k pk(1) cid assms(2) show ?thesis
      by (cases cid; cases "MsgType t = Prevote \<or> MsgType t = Precommit")
        (auto simp: ChangeVoteTime_def Let_def split: sum.split)
  qed
qed

text \<open>The bytes of the vote \<open>t\<close> with another time, signed by \<open>r\<close>.\<close>

definition timed_vote_bytes :: "'k tendermint \<Rightarrow> json \<Rightarrow> ('k \<Rightarrow> bytes \<Rightarrow> bytes \<Rightarrow> bool) \<Rightarrow> replica \<Rightarrow>
    tmessage \<Rightarrow> time \<Rightarrow> bytes \<Rightarrow> bool" where
  "timed_vote_bytes T J verify r t d bs \<longleftrightarrow>
     (\<exists>t' v v' k c b. inner_vote t = Some v \<and> GetVoteBlockID T t = Some (Some b) \<and>
        signer T r k c \<and> Parse T J bs = Some (t', None) \<and>
        t' = t\<lparr>MsgB := MsgB t', Data := Data t'\<rparr> \<and> inner_vote t' = Some v' \<and>
        forged_vote T verify k c v b (pv_Timestamp v + d) v')"

text \<open>
  C25: the filter of the test of block times, on a send whose message the pool has. It returns and
  lets no later handler see the message. Anything but a precommit is delivered as it is. A precommit
  is delivered as it is when its sender is unknown, or signing or encoding fails; otherwise what
  is delivered parses as the same vote for the same block, dated 24 hours later and validly signed
  by the sender.
\<close>

theorem bft_votes_a_day_later:
  assumes lib: "testlib_spec L \<alpha>" and tm: "signing_spec T verify" "conversion_spec T valid"
      "codec_spec T" "json_spec J"
    and send: "IsMessageSend L e" "lpool (\<alpha> (ctx w)) (MessageID L e) = Some m"
      "GetParsedMessage (Some m) = Some a" "tmsgs w a = Some t" "from_parser t"
    and reps: "\<forall>r \<in> set (lreplicas (\<alpha> (ctx w))). usable T r \<and> Info r ''chain_id'' \<noteq> Some InfoOther"
  shows "\<exists>ms w'. bft_changeVoteFilter T J L e w = Some ((ms, True), w') \<and>
    (if MsgType t \<noteq> Precommit then ms = [Some m] \<and> w' = w
     else case find (\<lambda>r. ID r = msg_From m) (lreplicas (\<alpha> (ctx w))) of
       None \<Rightarrow> ms = [Some m] \<and> w' = w
     | Some rep \<Rightarrow>
         (\<exists>v res err w1. inner_vote t = Some v \<and>
            ChangeVoteTime T (Some rep) a (pv_Timestamp v + 24 * Hour) w = Some ((res, err), w1) \<and>
            (if err \<noteq> None then ms = [Some m]
             else \<exists>out w2. Marshal T J a w1 = Some (out, w2) \<and>
               (case out of
                  Inl _ \<Rightarrow> ms = [Some m]
                | Inr bs \<Rightarrow> ms = [Some (fst (NewMessage L (ctx w2) m bs))] \<and>
                    timed_vote_bytes T J verify rep t (24 * Hour) bs))))"
proof -
  let ?rep = "find (\<lambda>r. ID r = msg_From m) (lreplicas (\<alpha> (ctx w)))"
  note unf = bft_changeVoteFilter_def send(1-4) context_specD(2,5) [OF lib]
  show ?thesis
  proof (cases "MsgType t = Precommit")
    case False
    then show ?thesis by (simp add: unf)
  next
    case True
    have wt: "well_typed t" using send(5) by (simp add: from_parser_def)
    then obtain v where v: "inner_vote t = Some v" using True well_typed_vote by blast
    then have time: "GetVoteTime t = Some (Some (pv_Timestamp v))" using True by (simp add: GetVoteTime_def)
    show ?thesis
    proof (cases ?rep)
      case None
      then show ?thesis using True by (simp add: unf time)
    next
      case (Some rep)
      then have "usable T rep" "Info rep ''chain_id'' \<noteq> Some InfoOther"
        using reps by (auto simp: find_Some_iff)
      from ChangeVoteTime_returns [OF wt send(4) this] obtain res err w1 where
        cv: "ChangeVoteTime T (Some rep) a (pv_Timestamp v + 24 * Hour) w = Some ((res, err), w1)" by blast
      note unf' = unf time cv Some
      show ?thesis
      proof (cases err)
        case (Some x)
        then show ?thesis using True v by (simp add: unf' Let_def)
      next
        case None
        from change_vote_time_result [OF tm(1,2) cv] None send(4) True v obtain k c b v' where
          r: "res = Some a" "signer T rep k c" "GetVoteBlockID T t = Some (Some b)"
            "forged_vote T verify k c v b (pv_Timestamp v + 24 * Hour) v'" "w1 = put_vote a t v' w"
          by auto
        have "tmsgs w1 a \<noteq> None" by (simp add: r(5) put_vote_def put_tmsg_def)
        then obtain out w2 where mar: "Marshal T J a w1 = Some (out, w2)"
          by (cases "proto_Marshal T (Data (the (tmsgs w1 a)))") (auto simp: Marshal_def Let_def)
        show ?thesis
        proof (cases out)
          case (Inl x)
          then show ?thesis using True v None r(1) mar by (simp add: unf' Let_def)
        next
          case (Inr bs)
          have "\<exists>t'. Parse T J bs = Some (t', None) \<and> t' = t\<lparr>MsgB := MsgB t', Data := Data t'\<rparr> \<and>
              inner_vote t' = Some v'"
            by (rule put_vote_on_wire [OF tm(3,4) _ v forged_vote_fields(1) [OF r(4)] send(5)])
              (use True mar Inr r(5) in simp_all)
          with v r have "timed_vote_bytes T J verify rep t (24 * Hour) bs"
            unfolding timed_vote_bytes_def by blast
          moreover have "\<exists>w'. bft_changeVoteFilter T J L e w =
              Some (([Some (fst (NewMessage L (ctx w2) m bs))], True), w')"
            using True None r(1) mar Inr by (simp add: unf' Let_def split: prod.split)
          ultimately show ?thesis
            using True v cv None mar Inr Some by auto
        qed
      qed
    qed
  qed
qed

text \<open>The verdict: what the event of the new proposal printed is compared with the clock.\<close>

lemma bft_verdict:
  assumes lib: "testlib_spec L \<alpha>" and "\<not> IsMessageSend L e"
    and "event_Type L e = GenericEventType ''NewProposal'' params" and "params ''height'' = Some ''2''"
    and "params ''block_timestamp'' = Some (fmt_d sec)" and "- (2 ^ 62) \<le> sec" and "sec < 2 ^ 62"
  shows "\<exists>w'. bft_changeVoteFilter T J L e w = Some (([], False), w') \<and>
    bft_assert now L w' = Some (now + 23 * Hour < sec * Second)"
proof -
  have "ParseInt (fmt_d sec) = Some sec"
    using assms(6,7) by (simp add: ParseInt_fmt_d int64_of_def)
  then show ?thesis
    using assms(2-5) time_Unix_exact [OF assms(6,7)]
    by (simp add: bft_changeVoteFilter_def record_new_proposal_def bft_assert_def vars_specD [OF lib])
qed

end
