(* ===== verification/LockedValue_Returns.thy ===== *)
theory LockedValue_Returns
  imports LockedValue_Runs LockedValue_Three
begin

text \<open>
  The three tests of \<open>testcases/lockedvalue\<close> never panic with 3 f + 1 usable replicas: in every
  state that a schedule can reach, each condition and each filter returns on every event. The type
  assertions without comma-ok succeed because every write keeps the type of the variable.
\<close>

section \<open>What the setup establishes and every step keeps\<close>

definition text_var :: "('c \<Rightarrow> 'e lib_state) \<Rightarrow> string \<Rightarrow> 'c world \<Rightarrow> bool" where
  "text_var \<alpha> k w \<longleftrightarrow> (case lvars (\<alpha> (ctx w)) k of None \<Rightarrow> True | Some (VString _) \<Rightarrow> True | _ \<Rightarrow> False)"

definition texts_var :: "('c \<Rightarrow> 'e lib_state) \<Rightarrow> string \<Rightarrow> 'c world \<Rightarrow> bool" where
  "texts_var \<alpha> k w \<longleftrightarrow> (case lvars (\<alpha> (ctx w)) k of None \<Rightarrow> True | Some (VStrings _) \<Rightarrow> True | _ \<Rightarrow> False)"

definition lv_typed :: "('c \<Rightarrow> 'e lib_state) \<Rightarrow> 'c world \<Rightarrow> bool" where
  "lv_typed \<alpha> w \<longleftrightarrow> text_var \<alpha> ''oldProposal'' w \<and> text_var \<alpha> ''newProposal'' w \<and>
     texts_var \<alpha> ''delayedPrevotes'' w \<and> texts_var \<alpha> ''delayedProposals'' w"

lemma text_varE:
  assumes "text_var \<alpha> k w"
  obtains "lvars (\<alpha> (ctx w)) k = None" | s where "lvars (\<alpha> (ctx w)) k = Some (VString s)"
  using assms by (auto simp: text_var_def split: option.splits var_value.splits)

lemma texts_var_list: "texts_var \<alpha> k w \<Longrightarrow> \<exists>xs. string_list \<alpha> k w xs"
  by (auto simp: texts_var_def string_list_def split: option.splits var_value.splits)

lemma typed_set_var:
  assumes "testlib_spec L \<alpha>"
  shows "text_var \<alpha> x (set_var L k v w) = (if x = k then \<exists>s. v = VString s else text_var \<alpha> x w)"
    and "texts_var \<alpha> x (set_var L k v w) = (if x = k then \<exists>xs. v = VStrings xs else texts_var \<alpha> x w)"
  by (cases v; simp add: text_var_def vars_specD(7) [OF assms])
    (cases v; simp add: texts_var_def vars_specD(7) [OF assms])

definition lv_ok :: "'k tendermint \<Rightarrow> ('c \<Rightarrow> 'e lib_state) \<Rightarrow> replica list \<Rightarrow> 'c world \<Rightarrow> bool" where
  "lv_ok T \<alpha> rs w \<longleftrightarrow> byz_setup T \<alpha> rs w \<and> round_count_ok \<alpha> ''roundCount'' w \<and> lv_typed \<alpha> w"

text \<open>A step that writes what the filters write and keeps the types.\<close>

definition lv_quiet :: "('c \<Rightarrow> 'e lib_state) \<Rightarrow> 'c world \<Rightarrow> 'c world \<Rightarrow> bool" where
  "lv_quiet \<alpha> w w' \<longleftrightarrow> keeps \<alpha> lv_written w w' \<and> (lv_typed \<alpha> w \<longrightarrow> lv_typed \<alpha> w')"

lemma lv_quiet_refl [simp]: "lv_quiet \<alpha> w w"
  by (simp add: lv_quiet_def)

lemma lv_quiet_trans [trans]: "lv_quiet \<alpha> w1 w2 \<Longrightarrow> lv_quiet \<alpha> w2 w3 \<Longrightarrow> lv_quiet \<alpha> w1 w3"
  by (auto simp: lv_quiet_def intro: keeps_trans)

lemma lv_typed_cong:
  "(\<And>k. k \<in> {''oldProposal'', ''newProposal'', ''delayedPrevotes'', ''delayedProposals''} \<Longrightarrow>
    lvars (\<alpha> (ctx w')) k = lvars (\<alpha> (ctx w)) k) \<Longrightarrow> lv_typed \<alpha> w' = lv_typed \<alpha> w"
  by (simp add: lv_typed_def text_var_def texts_var_def)

lemma lv_quiet_silent: "keeps \<alpha> {} w w' \<Longrightarrow> lv_quiet \<alpha> w w'"
  by (auto simp: lv_quiet_def keepsD(1) intro: keeps_mono iffD2 [OF lv_typed_cong])

lemma lv_quiet_set:
  assumes "testlib_spec L \<alpha>"
    and "k \<in> {''oldProposal'', ''newProposal''} \<and> (\<exists>s. v = VString s) \<or>
      k \<in> {''delayedPrevotes'', ''delayedProposals''} \<and> (\<exists>xs. v = VStrings xs) \<or>
      k \<in> {''vote'', ''newPropBlockID'', ''blockVote''}"
  shows "lv_quiet \<alpha> w (set_var L k v w)"
proof -
  have "keeps \<alpha> lv_written w (set_var L k v w)"
    by (rule keeps_set_var [OF assms(1)]) (use assms(2) in \<open>auto simp: lv_written_def\<close>)
  moreover have "lv_typed \<alpha> w \<Longrightarrow> lv_typed \<alpha> (set_var L k v w)"
    using assms(2) by (elim disjE conjE insertE emptyE exE) (simp_all add: lv_typed_def typed_set_var [OF assms(1)])
  ultimately show ?thesis by (simp add: lv_quiet_def)
qed

lemma lv_quiet_text:
  assumes "testlib_spec L \<alpha>"
  shows "lv_quiet \<alpha> w (set_var L ''oldProposal'' (VString s) w)"
    and "lv_quiet \<alpha> w (set_var L ''newProposal'' (VString s) w)"
    and "lv_quiet \<alpha> w (set_var L ''vote'' v w)" and "lv_quiet \<alpha> w (set_var L ''blockVote'' v w)"
    and "lv_quiet \<alpha> w (set_var L ''newPropBlockID'' v w)"
  by (rule lv_quiet_set [OF assms], simp)+

lemma lv_quiet_end:
  assumes "testlib_spec L \<alpha>" and "lv_quiet \<alpha> w w1"
  shows "lv_quiet \<alpha> w (abort_test L w1)" and "lv_quiet \<alpha> w (end_test L w1)"
  by (rule lv_quiet_trans [OF assms(2) lv_quiet_silent], rule keeps_end [OF assms(1) keeps_refl])+

lemma lv_quiet_append:
  assumes lib: "testlib_spec L \<alpha>" and run: "append_string L key s w = Some w'"
    and key: "key \<in> {''delayedPrevotes'', ''delayedProposals''}"
  shows "lv_quiet \<alpha> w w'"
proof -
  have "keeps \<alpha> lv_written w w'"
    by (rule append_string_keeps [OF lib run]) (use key in \<open>auto simp: lv_written_def\<close>)
  moreover have "lv_typed \<alpha> w'" if typed: "lv_typed \<alpha> w"
  proof -
    obtain xs where "string_list \<alpha> key w xs"
      using key typed texts_var_list [of \<alpha> key w] by (auto simp: lv_typed_def)
    with append_string_spec [OF lib this, of s] run
    have upd: "lvars (\<alpha> (ctx w')) = (lvars (\<alpha> (ctx w)))(key \<mapsto> VStrings (xs @ [s]))" by auto
    show ?thesis
      using typed key unfolding lv_typed_def text_var_def texts_var_def upd
      by (elim insertE emptyE) simp_all
  qed
  ultimately show ?thesis by (simp add: lv_quiet_def)
qed

section \<open>What the filters and conditions write\<close>

lemma lv_record_quiet:
  assumes lib: "testlib_spec L \<alpha>" and run: "lv_record_round0 T L m t w = Some (out, w')"
  shows "lv_quiet \<alpha> w w'"
proof -
  have append: "append_string L ''delayedPrevotes'' i w = Some w1 \<Longrightarrow> lv_quiet \<alpha> w w1" for i w1
    by (erule lv_quiet_append [OF lib]) simp
  from run show ?thesis
    unfolding lv_record_round0_def
    by (auto simp: Option.bind_eq_Some_conv lv_quiet_text [OF lib] intro: append split: if_split_asm option.split)
qed

lemma lv_Round0_quiet:
  assumes lib: "testlib_spec L \<alpha>" and run: "lv_Round0 T L e w = Some (out, w')"
  shows "lv_quiet \<alpha> w w'"
  using run unfolding lv_Round0_def
  by (elim message_filterE) (auto intro: lv_record_quiet [OF lib] split: if_split_asm)

lemma lv_Round1_quiet:
  assumes lib: "testlib_spec L \<alpha>" and run: "lv_Round1 T L e w = Some (out, w')"
  shows "lv_quiet \<alpha> w w'"
proof -
  have append: "append_string L ''delayedProposals'' i w = Some w1 \<Longrightarrow> lv_quiet \<alpha> w w1" for i w1
    by (erule lv_quiet_append [OF lib]) simp
  from run show ?thesis
    unfolding lv_Round1_def recordDelayedProposal_def Let_def
    by (elim message_filterE)
      (auto simp: Option.bind_eq_Some_conv case_abort_eq intro: append lv_quiet_end(1) [OF lib lv_quiet_refl]
        split: if_split_asm)
qed

lemma lv_Round2_quiet:
  assumes lib: "testlib_spec L \<alpha>" and run: "lv_Round2 T L e w = Some (out, w')"
  shows "lv_quiet \<alpha> w w'"
  using run unfolding lv_Round2_def Let_def
  by (elim message_filterE)
    (auto simp: Option.bind_eq_Some_conv case_string_eq_Some lv_quiet_text [OF lib]
        lv_quiet_end(1) [OF lib lv_quiet_text(2) [OF lib]] lv_quiet_end(1) [OF lib lv_quiet_text(3) [OF lib]]
      split: if_split_asm option.split_asm)

lemma lv_two_Round2_quiet:
  assumes lib: "testlib_spec L \<alpha>" and run: "lv_two_Round2 T L e w = Some (out, w')"
  shows "lv_quiet \<alpha> w w'"
  using run unfolding lv_two_Round2_def Let_def
  by (elim message_filterE)
    (auto simp: Option.bind_eq_Some_conv lv_quiet_text [OF lib]
        lv_quiet_end(1) [OF lib lv_quiet_text(3) [OF lib]]
      split: if_split_asm option.split)

lemma lv_three_round0_quiet:
  assumes lib: "testlib_spec L \<alpha>" and run: "lv_three_round0 T L e w = Some (out, w')"
  shows "lv_quiet \<alpha> w w'"
  using run unfolding lv_three_round0_def
  by (elim message_filterE)
    (auto simp: Option.bind_eq_Some_conv lv_quiet_text [OF lib] split: if_split_asm option.split)

lemma lv_new_proposal_quiet:
  assumes lib: "testlib_spec L \<alpha>"
  shows "lv_quiet \<alpha> w (set_var L ''newProposal'' (VString s) (set_var L ''newPropBlockID'' v w))"
  by (rule lv_quiet_trans [OF lv_quiet_text(5) [OF lib] lv_quiet_text(2) [OF lib]])

lemma lv_higherRound_quiet:
  assumes lib: "testlib_spec L \<alpha>" and run: "lv_higherRound T L e w = Some (out, w')"
  shows "lv_quiet \<alpha> w w'"
  using run unfolding lv_higherRound_def Let_def
  by (elim message_filterE)
    (auto simp: Option.bind_eq_Some_conv lv_new_proposal_quiet [OF lib] split: if_split_asm option.split_asm)

lemma lv_diffProposal_quiet:
  assumes lib: "testlib_spec L \<alpha>" and run: "lv_diffProposal T L e w = Some (b, w')"
  shows "lv_quiet \<alpha> w w'"
proof -
  have new: "lv_quiet \<alpha> w (set_var L ''newProposal'' (VString s)
      (case bl of Some b \<Rightarrow> set_var L ''newPropBlockID'' (VBlockID (Some b)) w | None \<Rightarrow> w))" for s bl
    by (cases bl) (simp_all add: lv_new_proposal_quiet [OF lib] lv_quiet_text(2) [OF lib])
  show ?thesis
  proof (cases "GetMessageFromEvent L e w")
    case None
    with run show ?thesis by (simp add: lv_diffProposal_def)
  next
    case (Some a)
    with run obtain t where t: "tmsgs w a = Some t" by (auto simp: lv_diffProposal_def Option.bind_eq_Some_conv)
    note unf = lv_diffProposal_def Some t
    show ?thesis
    proof (cases "MsgType t = Proposal")
      case False
      with run show ?thesis by (simp add: unf)
    next
      case True
      with run obtain ids where ids: "GetProposalBlockIDS T t = Some ids"
        by (cases "GetProposalBlockIDS T t") (simp_all add: unf)
      show ?thesis
      proof (cases "\<exists>s. ids = Some s \<and> s \<noteq> string_var L ''oldProposal'' w")
        case False
        with run True ids show ?thesis by (cases ids) (simp_all add: unf)
      next
        case diff: True
        then obtain s where s: "ids = Some s" "s \<noteq> string_var L ''oldProposal'' w" by blast
        obtain bl where bl: "GetProposalBlockID T t = Some bl"
          using ids by (cases "GetProposalBlockID T t") (simp_all add: GetProposalBlockIDS_def)
        show ?thesis using run True ids s bl new [of s bl] by (simp add: unf Let_def)
      qed
    qed
  qed
qed

lemma lv_votes_quiet:
  assumes lib: "testlib_spec L \<alpha>"
  shows "lv_oldVote T L e w = Some (b, w') \<Longrightarrow> lv_quiet \<alpha> w w'"
    and "lv_newVote T L e w = Some (b, w') \<Longrightarrow> lv_quiet \<alpha> w w'"
  unfolding lv_oldVote_def lv_newVote_def Let_def
  by (auto simp: Option.bind_eq_Some_conv lv_quiet_text [OF lib] lv_quiet_end(2) [OF lib lv_quiet_text(4) [OF lib]]
      split: if_split_asm option.split_asm)

lemma lv_faultyVoteFilter_quiet:
  assumes lib: "testlib_spec L \<alpha>" and run: "lv_faultyVoteFilter T J L e w = Some (out, w')"
  shows "keeps \<alpha> K w w'"
  using run
  by (auto simp: lv_faultyVoteFilter_def Let_def
      intro: frames keeps_trans [OF keeps_ChangeVoteToNil keeps_Marshal]
        keeps_replace_message [OF lib keeps_ChangeVoteToNil]
      split: if_splits option.splits Option.bind_splits sum.splits prod.splits)

text \<open>Every filter of the three tests.\<close>

lemma lv_handlers_quiet:
  assumes lib: "testlib_spec L \<alpha>" and tc: "tc \<in> {lv_One T J L lb, lv_Two T J L lb, lv_Three T J L lb}"
    and "g \<in> set (tc_handlers tc)" and "handler_of g e w = Some (out, w')"
  shows "lv_quiet \<alpha> w w'"
  using assms(2-4)
  by (auto simp: lv_One_def lv_Two_def lv_Three_def lv_Round0_quiet [OF lib] lv_Round1_quiet [OF lib]
      lv_Round2_quiet [OF lib] lv_two_Round2_quiet [OF lib] lv_three_round0_quiet [OF lib] lv_higherRound_quiet [OF lib]
      lv_quiet_silent [OF lv_faultyReplicaFilter_keeps [OF lib]] lv_quiet_silent [OF lv_faultyVoteFilter_quiet [OF lib]])

section \<open>The operations return\<close>

text \<open>A sender that is in a part is registered, so nothing is read through a nil replica.\<close>

lemma lv_faulty_sender:
  assumes lib: "testlib_spec L \<alpha>" and byz: "byz_setup T \<alpha> rs w" and fit: "replicas_fit T rs cap"
    and "i \<in> ID ` set (take (nat (faults_of rs)) rs)"
  obtains r where "Replicas_Get L (ctx w) i = Some r" and "usable T r" and "Info r ''chain_id'' \<noteq> Some InfoOther"
proof -
  obtain r where r: "r \<in> set rs" "ID r = i" using assms(4) by (auto dest: in_set_takeD)
  have "lreplicas (\<alpha> (ctx w)) = rs" using byz by (simp add: byz_setup_def)
  from replica_found [OF lib this fit r(1)] r(2) that show ?thesis by auto
qed

lemma lv_own_vote_returns:
  assumes lib: "testlib_spec L \<alpha>" and byz: "byz_setup T \<alpha> rs w" and fit: "replicas_fit T rs cap"
    and t: "well_typed t" "MsgType t = Prevote \<or> MsgType t = Precommit"
    and part: "\<And>i. Part_Contains p i = Some (i = ID (rs ! nat (faults_of rs)))"
  shows "\<exists>b. own_vote_of T p (Replicas_Get L (ctx w) (From t)) t = Some b"
proof -
  have h: "rs ! nat (faults_of rs) \<in> set rs" by (rule byz_setupE [OF lib byz fit])
  have rs: "lreplicas (\<alpha> (ctx w)) = rs" using byz by (simp add: byz_setup_def)
  obtain v where "inner_vote t = Some v" using well_typed_vote [OF t] by blast
  from own_vote_of_watched [OF part replica_found(2,1) [OF lib rs fit h] this] show ?thesis by blast
qed

lemma lv_parts:
  assumes "testlib_spec L \<alpha>" and "byz_setup T \<alpha> rs w" and "replicas_fit T rs cap"
  obtains P pf ph where "getReplicaPartition L w = Some (Some P)"
    and "Partition_GetPart (Some P) ''faulty'' = Some (Some pf)"
    and "\<And>i. Part_Contains (Some pf) i = Some (i \<in> ID ` set (take (nat (faults_of rs)) rs))"
    and "Partition_GetPart (Some P) ''honestDelayed'' = Some (Some ph)"
    and "\<And>i. Part_Contains (Some ph) i = Some (i = ID (rs ! nat (faults_of rs)))"
proof (rule byz_setupE [OF assms])
  fix P pf ph
  assume "Vars_Get L (ctx w) ''partition'' = Some (VPartition (Some P))"
  then have "getReplicaPartition L w = Some (Some P)" by (simp add: getReplicaPartition_def)
  moreover assume "Partition_GetPart (Some P) ''faulty'' = Some (Some pf)"
    "\<And>i. Part_Contains (Some pf) i = Some (i \<in> ID ` set (take (nat (faults_of rs)) rs))"
    "Partition_GetPart (Some P) ''honestDelayed'' = Some (Some ph)"
    "\<And>i. Part_Contains (Some ph) i = Some (i = ID (rs ! nat (faults_of rs)))"
  ultimately show thesis by (rule that)
qed

lemma lv_faulty_filters_return:
  assumes lib: "testlib_spec L \<alpha>" and ok: "lv_ok T \<alpha> rs w" and fit: "replicas_fit T rs cap" and pool: "pool_ok L w"
  shows "\<exists>out. lv_faultyReplicaFilter T J L e w = Some out" and "\<exists>out. lv_faultyVoteFilter T J L e w = Some out"
proof -
  have byz: "byz_setup T \<alpha> rs w" using ok by (simp add: lv_ok_def)
  obtain P pf where P: "getReplicaPartition L w = Some (Some P)"
    "Partition_GetPart (Some P) ''faulty'' = Some (Some pf)"
    "\<And>i. Part_Contains (Some pf) i = Some (i \<in> ID ` set (take (nat (faults_of rs)) rs))"
    by (rule lv_parts [OF lib byz fit], rule that)
  have "(\<exists>out. lv_faultyReplicaFilter T J L e w = Some out) \<and> (\<exists>out. lv_faultyVoteFilter T J L e w = Some out)"
  proof (cases "message_of L e w")
    case None
    then show ?thesis by (auto simp: lv_faultyReplicaFilter_def lv_faultyVoteFilter_def)
  next
    case (Some ma)
    obtain m a where ma: "ma = (m, a)" by fastforce
    obtain t r where t: "carries L w e m a t" "Round t = Some r" using pool_message [OF pool] Some ma by metis
    note cd = carriesD [OF t(1)]
    have forge: "\<exists>rep res err w1. Replicas_Get L (ctx w) (From t) = Some rep \<and>
        ChangeVoteToNil T (Some rep) a w = Some ((res, err), w1) \<and>
        (err = None \<longrightarrow> res = Some a \<and> (\<exists>out w2. Marshal T J a w1 = Some (out, w2)))"
      if fr: "From t \<in> ID ` set (take (nat (faults_of rs)) rs)"
    proof -
      obtain rep where rep: "Replicas_Get L (ctx w) (From t) = Some rep" "usable T rep"
        "Info rep ''chain_id'' \<noteq> Some InfoOther"
        by (rule lv_faulty_sender [OF lib byz fit fr])
      from forge_and_marshal [OF cd(5,4) rep(2,3)] rep(1) show ?thesis by (simp add: ChangeVoteToNil_def)
    qed
    note unf = lv_faultyReplicaFilter_def lv_faultyVoteFilter_def isFaultyVote_def changeFultyVote_def
      carries_message_of [OF t(1)] cd(4) P Let_def
    show ?thesis
    proof (cases "From t \<in> ID ` set (take (nat (faults_of rs)) rs) \<and> (MsgType t = Prevote \<or> MsgType t = Precommit)")
      case False
      then show ?thesis by (auto simp: unf)
    next
      case True
      then obtain rep res err w1 where rep: "Replicas_Get L (ctx w) (From t) = Some rep"
        "ChangeVoteToNil T (Some rep) a w = Some ((res, err), w1)"
        "err = None \<longrightarrow> res = Some a \<and> (\<exists>out w2. Marshal T J a w1 = Some (out, w2))"
        using forge by blast
      show ?thesis
      proof (cases err)
        case None
        with rep(3) obtain out w2 where "res = Some a" "Marshal T J a w1 = Some (out, w2)" by blast
        with True rep(1,2) None show ?thesis by (cases out) (auto simp: unf split: prod.split)
      qed (use True rep(1,2) in \<open>auto simp: unf\<close>)
    qed
  qed
  then show "\<exists>out. lv_faultyReplicaFilter T J L e w = Some out" "\<exists>out. lv_faultyVoteFilter T J L e w = Some out"
    by blast+
qed

lemma lv_append_returns:
  assumes "testlib_spec L \<alpha>" and "lv_ok T \<alpha> rs w" and "k \<in> {''delayedPrevotes'', ''delayedProposals''}"
  shows "\<exists>w'. append_string L k s w = Some w'"
proof -
  obtain xs where "string_list \<alpha> k w xs"
    using assms(2,3) texts_var_list [of \<alpha> k w] by (auto simp: lv_ok_def lv_typed_def)
  with append_string_spec [OF assms(1) this] show ?thesis by blast
qed

text \<open>What the filters and conditions evaluate on a message.\<close>

lemma lv_reads_return:
  assumes lib: "testlib_spec L \<alpha>" and ok: "lv_ok T \<alpha> rs w" and fit: "replicas_fit T rs cap" and t: "well_typed t"
  obtains P ph where "getReplicaPartition L w = Some (Some P)"
    and "Partition_GetPart (Some P) ''honestDelayed'' = Some (Some ph)"
    and "\<And>i. \<exists>b. Part_Contains (Some ph) i = Some b"
    and "MsgType t = Prevote \<or> MsgType t = Precommit \<Longrightarrow>
      \<exists>b. own_vote_of T (Some ph) (Replicas_Get L (ctx w) (From t)) t = Some b"
proof -
  have byz: "byz_setup T \<alpha> rs w" using ok by (simp add: lv_ok_def)
  obtain P ph where P: "getReplicaPartition L w = Some (Some P)"
    "Partition_GetPart (Some P) ''honestDelayed'' = Some (Some ph)"
    "\<And>i. Part_Contains (Some ph) i = Some (i = ID (rs ! nat (faults_of rs)))"
    by (rule lv_parts [OF lib byz fit], rule that)
  with lv_own_vote_returns [OF lib byz fit t _ P(3)] that show ?thesis by blast
qed

lemma lv_rounds_return:
  assumes lib: "testlib_spec L \<alpha>" and ok: "lv_ok T \<alpha> rs w" and fit: "replicas_fit T rs cap" and c: "carries L w e m a t"
    and r: "Round t = Some r"
  shows "\<exists>out. lv_Round0 T L e w = Some out" and "\<exists>out. lv_Round1 T L e w = Some out"
    and "\<exists>out. lv_Round2 T L e w = Some out" and "\<exists>out. lv_two_Round2 T L e w = Some out"
    and "\<exists>out. lv_three_round0 T L e w = Some out" and "\<exists>out. lv_higherRound T L e w = Some out"
proof -
  note cd = carriesD [OF c]
  obtain P ph where P: "getReplicaPartition L w = Some (Some P)"
    "Partition_GetPart (Some P) ''honestDelayed'' = Some (Some ph)" "\<And>i. \<exists>b. Part_Contains (Some ph) i = Some b"
    "MsgType t = Prevote \<or> MsgType t = Precommit \<Longrightarrow>
      \<exists>b. own_vote_of T (Some ph) (Replicas_Get L (ctx w) (From t)) t = Some b"
    using lv_reads_return [OF lib ok fit cd(5)] by metis
  note unf = carries_message_of [OF c] cd(4) r P(1,2) Let_def
  note proposal = proposal_blocks [OF cd(5), of T] and block = vote_block_total [OF cd(5), of T]
  obtain d where d: "Part_Contains (Some ph) (From t) = Some d" using P(3) by blast
  show "\<exists>out. lv_Round0 T L e w = Some out"
    using proposal lv_append_returns [OF lib ok, of "''delayedPrevotes''" "msg_ID m"] d
    by (cases "MsgType t = Proposal"; cases "MsgType t = Prevote") (auto simp: lv_Round0_def lv_record_round0_def unf)
  show "\<exists>out. lv_Round1 T L e w = Some out"
    using P(4) block lv_append_returns [OF lib ok, of "''delayedProposals''" "msg_ID m"]
    by (cases "MsgType t = Proposal"; cases "MsgType t = Prevote") (auto simp: lv_Round1_def recordDelayedProposal_def unf)
  show "\<exists>out. lv_two_Round2 T L e w = Some out"
    using P(4) block proposal
    by (cases "MsgType t = Proposal"; cases "MsgType t = Prevote") (auto simp: lv_two_Round2_def unf)
  show "\<exists>out. lv_three_round0 T L e w = Some out"
    using proposal d by (cases "MsgType t = Proposal") (auto simp: lv_three_round0_def unf)
  show "\<exists>out. lv_higherRound T L e w = Some out"
    using proposal by (cases "MsgType t = Proposal") (auto simp: lv_higherRound_def unf split: option.split)
  show "\<exists>out. lv_Round2 T L e w = Some out"
  proof (cases "r = 2 \<and> MsgType t = Proposal")
    case True
    with proposal obtain b where b: "GetProposalBlockIDS T t = Some b" by blast
    have old: "text_var \<alpha> ''oldProposal'' (set_var L ''newProposal'' v w)" for v
      using ok by (simp add: lv_ok_def lv_typed_def typed_set_var [OF lib])
    show ?thesis
    proof (cases b)
      case None
      with True b show ?thesis by (auto simp: lv_Round2_def unf)
    next
      case (Some s)
      show ?thesis
        by (rule text_varE [OF old [of "VString s"]])
          (use True b Some in \<open>auto simp: lv_Round2_def unf vars_specD(1) [OF lib]\<close>)
    qed
  next
    case False
    then show ?thesis
      using P(4) block by (cases "MsgType t = Prevote") (auto simp: lv_Round2_def unf)
  qed
qed

lemma lv_valueLockedCond_returns:
  assumes lib: "testlib_spec L \<alpha>" and ok: "lv_ok T \<alpha> rs w" and fit: "replicas_fit T rs cap" and pool: "pool_ok L w"
  shows "\<exists>out. lv_valueLockedCond T L e w = Some out"
proof (cases "IsMessageReceive L e \<and> GetMessageFromEvent L e w \<noteq> None")
  case False
  then show ?thesis by (auto simp: lv_valueLockedCond_def GetMessageFromEvent_eq split: option.split)
next
  case True
  then obtain a where a: "GetMessageFromEvent L e w = Some a" by blast
  obtain m t r where t: "carries L w e m a t" "Round t = Some r" by (rule pool_event [OF pool a])
  note cd = carriesD [OF t(1)]
  obtain P ph where P: "getReplicaPartition L w = Some (Some P)"
    "Partition_GetPart (Some P) ''honestDelayed'' = Some (Some ph)" "\<And>i. \<exists>b. Part_Contains (Some ph) i = Some b"
    using lv_reads_return [OF lib ok fit cd(5)] by metis
  obtain d where d: "Part_Contains (Some ph) (To t) = Some d" using P(3) by blast
  have faults: "lvars (\<alpha> (ctx w)) ''faults'' = Some (VInt (faults_of rs))"
    using ok by (simp add: lv_ok_def byz_setup_def)
  have parsed: "GetParsedMessage (GetMessage L (ctx w) e) = Some a" using a by (simp add: GetMessageFromEvent_eq)
  show ?thesis
    using True P(1,2) d cd(4) vote_block_total [OF cd(5), of T]
    by (cases "MsgType t = Prevote") (auto simp: lv_valueLockedCond_def parsed vars_specD(1) [OF lib] faults Let_def)
qed

lemma lv_commits_return:
  assumes lib: "testlib_spec L \<alpha>" and ok: "lv_ok T \<alpha> rs w"
  shows "\<exists>out. lv_commitNewCond L e w = Some out" and "\<exists>out. lv_commitOldCond L e w = Some out"
proof -
  have "\<exists>b. commit_matches L k e w = Some b" if "text_var \<alpha> k w" for k
    by (rule text_varE [OF that]) (auto simp: commit_matches_def vars_specD(1) [OF lib] split: event_type.split option.split)
  then have "\<exists>b. commit_matches L ''newProposal'' e w = Some b" "\<exists>b. commit_matches L ''oldProposal'' e w = Some b"
    using ok by (simp_all add: lv_ok_def lv_typed_def)
  then show "\<exists>out. lv_commitNewCond L e w = Some out" "\<exists>out. lv_commitOldCond L e w = Some out"
    by (auto simp: lv_commitNewCond_def lv_commitOldCond_def)
qed

lemma lv_three_conditions_return:
  assumes lib: "testlib_spec L \<alpha>" and ok: "lv_ok T \<alpha> rs w" and fit: "replicas_fit T rs cap" and pool: "pool_ok L w"
  shows "\<exists>out. lv_diffProposal T L e w = Some out" and "\<exists>out. lv_oldVote T L e w = Some out"
    and "\<exists>out. lv_newVote T L e w = Some out" and "\<exists>out. lv_roundReached L q e w = Some out"
proof -
  have rok: "round_count_ok \<alpha> ''roundCount'' w" using ok by (simp add: lv_ok_def)
  have "(\<exists>out. lv_diffProposal T L e w = Some out) \<and> (\<exists>b. observed_vote T L e w = Some b) \<and>
    (\<exists>out. lv_roundReached L q e w = Some out)"
  proof (cases "GetMessageFromEvent L e w")
    case None
    then show ?thesis by (auto simp: lv_diffProposal_def observed_vote_def lv_roundReached_def)
  next
    case (Some a)
    obtain m t r where t: "carries L w e m a t" "Round t = Some r" by (rule pool_event [OF pool Some])
    note cd = carriesD [OF t(1)]
    obtain P ph where P: "getReplicaPartition L w = Some (Some P)"
      "Partition_GetPart (Some P) ''honestDelayed'' = Some (Some ph)"
      "MsgType t = Prevote \<or> MsgType t = Precommit \<Longrightarrow>
        \<exists>b. own_vote_of T (Some ph) (Replicas_Get L (ctx w) (From t)) t = Some b"
      using lv_reads_return [OF lib ok fit cd(5)] by metis
    have "\<exists>out. lv_roundReached L q e w = Some out"
      by (rule update_track_round [OF lib rok, of r "From t"]) (auto simp: lv_roundReached_def Some cd(4) t(2))
    moreover have "\<exists>b. observed_vote T L e w = Some b"
      using P vote_block_total [OF cd(5), of T]
      by (cases "MsgType t = Precommit") (auto simp: observed_vote_def Some cd(4))
    moreover have "\<exists>out. lv_diffProposal T L e w = Some out"
      using proposal_blocks [OF cd(5), of T]
      by (cases "MsgType t = Proposal") (auto simp: lv_diffProposal_def Some cd(4) Let_def split: option.split)
    ultimately show ?thesis by blast
  qed
  then show "\<exists>out. lv_diffProposal T L e w = Some out" "\<exists>out. lv_oldVote T L e w = Some out"
    "\<exists>out. lv_newVote T L e w = Some out" "\<exists>out. lv_roundReached L q e w = Some out"
    by (auto simp: lv_oldVote_def lv_newVote_def Let_def split: option.split)
qed

section \<open>Runs\<close>

lemma lv_edgeE:
  assumes "tc \<in> {lv_One T J L lb, lv_Two T J L lb, lv_Three T J L lb}" and "(s, c, s') \<in> set (tc_edges tc)"
  obtains (locked) "c = lv_valueLockedCond T L" | (round) q where "c = lv_roundReached L q"
    | (commit) "c = lv_commitNewCond L \<or> c = lv_commitOldCond L" | (diff) "c = lv_diffProposal T L"
    | (vote) "c = lv_oldVote T L \<or> c = lv_newVote T L"
  using assms by (auto simp: lv_One_def lv_Two_def lv_Three_def lv_edges_def)

lemma lv_ok_keeps:
  assumes "lv_ok T \<alpha> rs w" and k: "keeps \<alpha> K w w'" and "K \<inter> {''partition'', ''faults'', ''roundCount''} = {}"
    and "lv_typed \<alpha> w \<Longrightarrow> lv_typed \<alpha> w'"
  shows "lv_ok T \<alpha> rs w'"
proof -
  have same: "lvars (\<alpha> (ctx w')) x = lvars (\<alpha> (ctx w)) x" if "x \<in> {''partition'', ''faults'', ''roundCount''}" for x
    by (rule keepsD(1) [OF k]) (use that assms(3) in blast)
  have "byz_setup T \<alpha> rs w'"
    by (rule byz_setup_cong [OF _ same keepsD(3,2) [OF k]]) (use assms(1) in \<open>auto simp: lv_ok_def\<close>)
  moreover have "round_count_ok \<alpha> ''roundCount'' w'"
    using round_count_cong(2) [OF same keepsD(4) [OF k], of "''roundCount''"] assms(1) by (simp add: lv_ok_def)
  ultimately show ?thesis using assms(1,4) by (simp add: lv_ok_def)
qed

lemma lv_ok_quiet: "lv_ok T \<alpha> rs w \<Longrightarrow> lv_quiet \<alpha> w w' \<Longrightarrow> lv_ok T \<alpha> rs w'"
  by (rule lv_ok_keeps [of T \<alpha> rs w lv_written]) (auto simp: lv_quiet_def lv_written_def)

lemma lv_ok_round:
  assumes lib: "testlib_spec L \<alpha>" and ok: "lv_ok T \<alpha> rs w" and run: "lv_roundReached L q e w = Some (b, w')"
  shows "lv_ok T \<alpha> rs w'"
proof -
  have rok: "round_count_ok \<alpha> ''roundCount'' w" using ok by (simp add: lv_ok_def)
  note r = lv_roundReached_result [OF lib rok run]
  have "byz_setup T \<alpha> rs w'"
    by (rule byz_setup_cong [OF _ _ r(5,4)]) (use ok r(6) in \<open>auto simp: lv_ok_def\<close>)
  moreover have "lv_typed \<alpha> w' = lv_typed \<alpha> w" by (rule lv_typed_cong) (use r(6) in auto)
  ultimately show ?thesis using ok r(1) by (simp add: lv_ok_def)
qed

lemma lv_ok_edge:
  assumes lib: "testlib_spec L \<alpha>" and ok: "lv_ok T \<alpha> rs w" and tc: "tc \<in> {lv_One T J L lb, lv_Two T J L lb, lv_Three T J L lb}"
    and "(s, c, s') \<in> set (tc_edges tc)" and run: "c e w = Some (b, w')"
  shows "lv_ok T \<alpha> rs w'"
  using tc assms(4)
proof (cases rule: lv_edgeE)
  case locked
  with run have k: "keeps \<alpha> {''prevotesSent''} w w'" by (intro lv_valueLockedCond_keeps [OF lib]) simp
  have "lv_typed \<alpha> w' = lv_typed \<alpha> w" by (rule lv_typed_cong, rule keepsD(1) [OF k]) auto
  then show ?thesis by (intro lv_ok_keeps [OF ok k]) simp_all
next
  case (round q)
  with run show ?thesis by (intro lv_ok_round [OF lib ok]) simp
next
  case commit
  with run have "keeps \<alpha> {} w w'" by (elim disjE) (simp_all add: lv_commit_keeps [OF lib])
  then show ?thesis by (intro lv_ok_quiet [OF ok] lv_quiet_silent)
next
  case diff
  with run show ?thesis by (intro lv_ok_quiet [OF ok] lv_diffProposal_quiet [OF lib]) simp
next
  case vote
  with run show ?thesis by (intro lv_ok_quiet [OF ok]) (auto dest: lv_votes_quiet [OF lib])
qed

lemma lv_setup_ok:
  assumes lib: "testlib_spec L \<alpha>" and fit: "replicas_fit T (lreplicas (\<alpha> (ctx w0))) (lcap (\<alpha> (ctx w0)))"
    and fresh: "\<And>k. k \<in> {''roundCount'', ''oldProposal'', ''newProposal'', ''delayedPrevotes'', ''delayedProposals''} \<Longrightarrow>
      lvars (\<alpha> (ctx w0)) k = None"
    and tc: "tc \<in> {lv_One T J L lb, lv_Two T J L lb, lv_Three T J L lb}"
  shows "\<exists>w. tc_setup tc w0 = Some w \<and> lv_ok T \<alpha> (lreplicas (\<alpha> (ctx w0))) w"
proof -
  let ?rs = "lreplicas (\<alpha> (ctx w0))"
  have init: "tc_setup tc = lv_testCaseOneSetup T L"
    using tc by (auto simp: lv_One_def lv_Two_def lv_Three_def lv_testCaseOneSetup_def lv_testCaseThreeSetup_def fun_eq_iff)
  have cap: "lcap (\<alpha> (ctx w0)) = int (length ?rs)" using fit by (simp add: replicas_fit_def store_ok_def)
  obtain P where P: "create_partition T L [faults_of ?rs, 1, 2 * faults_of ?rs] [''faulty'', ''honestDelayed'', ''rest''] w0 = Some (Some P)"
    "part_is T P ''faulty'' (take (nat (faults_of ?rs)) ?rs)" "part_is T P ''honestDelayed'' [?rs ! nat (faults_of ?rs)]"
    "part_is T P ''rest'' (drop (nat (faults_of ?rs) + 1) ?rs)"
    using byz_partition [OF lib fit refl] by blast
  let ?w = "set_var L ''faults'' (VInt (faults_of ?rs)) (set_var L ''partition'' (VPartition (Some P)) w0)"
  have "lv_testCaseOneSetup T L w0 = Some ?w"
    using P(1) by (simp add: lv_testCaseOneSetup_def context_specD [OF lib] cap Let_def Partition_String_def)
  moreover have "lv_ok T \<alpha> ?rs ?w"
    using P(2-4) cap fresh
    by (simp add: lv_ok_def byz_setup_def lv_typed_def text_var_def texts_var_def vars_specD [OF lib] round_count_ok_def)
  ultimately show ?thesis by (simp add: init)
qed

lemma lv_ok_run:
  assumes lib: "testlib_spec L \<alpha>" and fit: "replicas_fit T (lreplicas (\<alpha> (ctx w0))) (lcap (\<alpha> (ctx w0)))"
    and fresh: "\<And>k. k \<in> {''roundCount'', ''oldProposal'', ''newProposal'', ''delayedPrevotes'', ''delayedProposals''} \<Longrightarrow>
      lvars (\<alpha> (ctx w0)) k = None"
    and tc: "tc \<in> {lv_One T J L lb, lv_Two T J L lb, lv_Three T J L lb}"
    and run: "run \<alpha> start tc w0 s w"
  shows "lv_ok T \<alpha> (lreplicas (\<alpha> (ctx w0))) w"
  using run
proof (induction rule: run_invariant)
  case (start w)
  then show ?case using lv_setup_ok [OF lib fit fresh tc] by auto
next
  case (edge s w c s' e b w')
  then show ?case by (blast intro: lv_ok_edge [OF lib _ tc])
next
  case (guard s w g c e b w')
  with tc show ?case by (auto simp: lv_One_def lv_Two_def lv_Three_def)
next
  case (handler s w g e out w')
  then show ?case by (blast intro: lv_ok_quiet lv_handlers_quiet [OF lib tc])
next
  case (scheduler s w w')
  note step = scheduler_stepD [OF scheduler(2)]
  have "byz_setup T \<alpha> (lreplicas (\<alpha> (ctx w0))) w'"
    by (rule byz_setup_cong [of T \<alpha> _ w]) (use scheduler(1) step in \<open>simp_all add: lv_ok_def\<close>)
  moreover have "lv_typed \<alpha> w' = lv_typed \<alpha> w" by (rule lv_typed_cong) (simp add: step)
  ultimately show ?case
    using round_count_cong(2) [of \<alpha> w' "''roundCount''" w] scheduler(1) step by (simp add: lv_ok_def)
qed

text \<open>
  C19: the three tests of \<open>lockedvalue\<close> never panic. With 3 f + 1 replicas whose keys can be used
  the setup returns, and in every state that a schedule can reach each condition, each filter and
  the assertion return on every event, as long as what the events point to came from the parser.
\<close>

theorem lv_never_panics:
  assumes "testlib_spec L \<alpha>" and "replicas_fit T (lreplicas (\<alpha> (ctx w0))) (lcap (\<alpha> (ctx w0)))"
    and "\<And>k. k \<in> {''roundCount'', ''oldProposal'', ''newProposal'', ''delayedPrevotes'', ''delayedProposals''} \<Longrightarrow>
      lvars (\<alpha> (ctx w0)) k = None"
    and "tc \<in> {lv_One T J L lb, lv_Two T J L lb, lv_Three T J L lb}"
  shows "tc_setup tc w0 \<noteq> None \<and>
    (\<forall>s w e. run \<alpha> (StartStateLabel lb) tc w0 s w \<longrightarrow> pool_ok L w \<longrightarrow>
       (\<forall>(s1, c, s2) \<in> set (tc_edges tc). c e w \<noteq> None) \<and>
       (\<forall>g \<in> set (tc_handlers tc). handler_of g e w \<noteq> None) \<and> tc_assert tc s w \<noteq> None)"
proof (intro conjI allI impI)
  show "tc_setup tc w0 \<noteq> None" using lv_setup_ok [OF assms] by auto
next
  fix s w e
  assume run: "run \<alpha> (StartStateLabel lb) tc w0 s w" and pool: "pool_ok L w"
  have ok: "lv_ok T \<alpha> (lreplicas (\<alpha> (ctx w0))) w" by (rule lv_ok_run [OF assms run])
  note returns = assms(1) ok assms(2) pool
  have "c e w \<noteq> None" if "(s1, c, s2) \<in> set (tc_edges tc)" for s1 c s2
    using assms(4) that
    by (cases rule: lv_edgeE) (use lv_valueLockedCond_returns [OF returns, of e] lv_commits_return [OF assms(1) ok, of e]
        lv_three_conditions_return [OF returns, where e = e] in auto)
  then show "\<forall>(s1, c, s2) \<in> set (tc_edges tc). c e w \<noteq> None" by blast
  show "\<forall>g \<in> set (tc_handlers tc). handler_of g e w \<noteq> None"
  proof (cases "message_of L e w")
    case None
    then show ?thesis
      using assms(4) by (auto simp: lv_One_def lv_Two_def lv_Three_def lv_faultyReplicaFilter_def lv_faultyVoteFilter_def
          lv_Round0_def lv_Round1_def lv_Round2_def lv_two_Round2_def lv_three_round0_def lv_higherRound_def ex_bool)
  next
    case (Some ma)
    obtain m a where ma: "ma = (m, a)" by fastforce
    obtain t r where t: "carries L w e m a t" "Round t = Some r" using pool_message [OF pool] Some ma by metis
    from lv_faulty_filters_return [OF returns, of J e] lv_rounds_return [OF assms(1) ok assms(2) t] assms(4) show ?thesis
      by (auto simp: lv_One_def lv_Two_def lv_Three_def)
  qed
  show "tc_assert tc s w \<noteq> None"
    using assms(4) by (auto simp: lv_One_def lv_Two_def lv_Three_def)
qed

end
