(* ===== verification/Sanity.thy ===== *)
theory Sanity
  imports Testcases
begin

text \<open>
  The package \<open>testcases/sanity\<close>: what its files share (\<open>common.go\<close>), and the tests of quorum
  intersection (\<open>one.go\<close>), of a wrong proposal (\<open>two.go\<close>) and of a locked value (\<open>three.go\<close>).
\<close>

section \<open>\<open>common.go\<close> and the partition\<close>

definition int_var :: "('e, 'c) testlib \<Rightarrow> string \<Rightarrow> 'c world \<Rightarrow> int" where
  "int_var L key w = (case Vars_GetInt L (ctx w) key of Some i \<Rightarrow> i | None \<Rightarrow> 0)"

definition sanity_roundReached :: "('e, 'c) testlib \<Rightarrow> int \<Rightarrow> ('e, 'c) condition" where
  "sanity_roundReached L toRound e w =
     (case GetMessageFromEvent L e w of
        None \<Rightarrow> Some (False, w)
      | Some a \<Rightarrow> do {
          tMsg \<leftarrow> tmsgs w a;
          round \<leftarrow> Round tMsg;
          (roundCount, w1) \<leftarrow> updateRoundCount L ''roundCount'' track_round round (From tMsg) w;
          Some (if count_reached toRound roundCount = Replicas_Cap L (ctx w1)
                then (True, set_var L ''CurRound'' (VInt toRound) w1) else (False, w1)) })"

definition sanity_getPartition :: "('e, 'c) testlib \<Rightarrow> 'c world \<Rightarrow> partition option option" where
  "sanity_getPartition L w =
     (case Vars_Get L (ctx w) ''partition'' of Some (VPartition p) \<Rightarrow> Some p | _ \<Rightarrow> None)"

section \<open>Vote counts\<close>

text \<open>
  The variable \<open>voteCount\<close> holds a map from rounds to vote counts. The map and the counts are
  references; the maps inside a count are reached through it only.
\<close>

definition newTestCaseOneVoteCount :: testCaseOneVoteCount where
  "newTestCaseOneVoteCount = \<lparr>recorded = [], delivered = []\<rparr>"

definition vote_map_addr :: "('e, 'c) testlib \<Rightarrow> 'c world \<Rightarrow> addr option" where
  "vote_map_addr L w =
     (case Vars_Get L (ctx w) ''voteCount'' of Some (VVoteCounts a) \<Rightarrow> Some a | _ \<Rightarrow> None)"

definition getTestCaseOneVoteCount :: "('e, 'c) testlib \<Rightarrow> int \<Rightarrow> 'c world \<Rightarrow> (addr \<times> 'c world) option" where
  "getTestCaseOneVoteCount L round w = do {
     m \<leftarrow> vote_map_addr L w;
     voteCount \<leftarrow> vote_maps w m;
     Some (case map_of voteCount round of
         Some v \<Rightarrow> (v, w)
       | None \<Rightarrow>
           (let v = next_addr w
            in (v, w\<lparr>vote_counts := (vote_counts w)(v \<mapsto> newTestCaseOneVoteCount),
                     vote_maps := (vote_maps w)(m \<mapsto> AList.update round v voteCount),
                     next_addr := Suc v\<rparr>))) }"

definition setTestCaseOneVoteCount :: "('e, 'c) testlib \<Rightarrow> addr \<Rightarrow> int \<Rightarrow> 'c world \<Rightarrow> 'c world option" where
  "setTestCaseOneVoteCount L v round w = do {
     m \<leftarrow> vote_map_addr L w;
     voteCount \<leftarrow> vote_maps w m;
     Some (set_var L ''voteCount'' (VVoteCounts m)
       (w\<lparr>vote_maps := (vote_maps w)(m \<mapsto> AList.update round v voteCount)\<rparr>)) }"

definition setupVoteCount :: "('e, 'c) testlib \<Rightarrow> 'c setup_option" where
  "setupVoteCount L w =
     (let m = next_addr w
      in Some (set_var L ''voteCount'' (VVoteCounts m)
           (w\<lparr>vote_maps := (vote_maps w)(m \<mapsto> []), next_addr := Suc m\<rparr>)))"

text \<open>Maps of maps: an inner map is made on the first use of its key.\<close>

definition ensure_key :: "'a \<Rightarrow> 'b \<Rightarrow> ('a, 'b) gomap \<Rightarrow> ('a, 'b) gomap" where
  "ensure_key k d m = (if map_of m k = None then AList.update k d m else m)"

definition inner_map :: "'a \<Rightarrow> ('a, ('b, 'c) gomap) gomap \<Rightarrow> ('b, 'c) gomap" where
  "inner_map k m = (case map_of m k of Some x \<Rightarrow> x | None \<Rightarrow> [])"

section \<open>\<open>one.go\<close>\<close>

text \<open>The count of deliveries of a vote type to a recipient: made, read and increased.\<close>

definition touch_delivered :: "string \<Rightarrow> string \<Rightarrow> (string, (string, int) gomap) gomap \<Rightarrow>
    (string, (string, int) gomap) gomap" where
  "touch_delivered ty to ds =
     (let ds' = ensure_key ty [] ds
      in AList.update ty (ensure_key to 0 (inner_map ty ds')) ds')"

definition delivered_to :: "string \<Rightarrow> string \<Rightarrow> (string, (string, int) gomap) gomap \<Rightarrow> int" where
  "delivered_to ty to ds = (case map_of (inner_map ty ds) to of Some c \<Rightarrow> c | None \<Rightarrow> 0)"

definition set_delivered :: "string \<Rightarrow> string \<Rightarrow> int \<Rightarrow> (string, (string, int) gomap) gomap \<Rightarrow>
    (string, (string, int) gomap) gomap" where
  "set_delivered ty to c ds = AList.update ty (AList.update to c (inner_map ty ds)) ds"

definition sanity_round0 :: "('e, 'c) testlib \<Rightarrow> ('e, 'c) handler" where
  "sanity_round0 L e w =
     (case message_of L e w of
        None \<Rightarrow> Some (([], False), w)
      | Some (message, a) \<Rightarrow> do {
          tMsg \<leftarrow> tmsgs w a;
          round \<leftarrow> Round tMsg;
          (if round \<noteq> 0 then Some (([Some message], True), w)
           else if MsgType tMsg \<noteq> Precommit then Some (([Some message], True), w)
           else do {
             (v, w1) \<leftarrow> getTestCaseOneVoteCount L round w;
             ptn \<leftarrow> sanity_getPartition L w1;
             faulty \<leftarrow> Partition_GetPart ptn ''faulty'';
             let faults = int_var L ''faults'' w1;
             votes \<leftarrow> vote_counts w1 v;
             let ty = type_name (MsgType tMsg);
             let ds = touch_delivered ty (To tMsg) (delivered votes);
             let curDelivered = delivered_to ty (To tMsg) ds;
             let w2 = w1\<lparr>vote_counts := (vote_counts w1)(v \<mapsto> votes\<lparr>delivered := ds\<rparr>)\<rparr>;
             toFaulty \<leftarrow> Part_Contains faulty (To tMsg);
             (if (if toFaulty then curDelivered < 2 * faults - 1 else curDelivered \<le> 2 * faults - 1)
              then do {
                w3 \<leftarrow> setTestCaseOneVoteCount L v round (w2\<lparr>vote_counts := (vote_counts w2)
                  (v \<mapsto> votes\<lparr>delivered := set_delivered ty (To tMsg) (curDelivered + 1) ds\<rparr>)\<rparr>);
                Some (([Some message], True), w3) }
              else Some (([], True), w2)) }) })"

definition errDifferentQuorum :: go_error where
  "errDifferentQuorum = errors_New ''different proposal''"

text \<open>
  The first loop of \<open>findIntersection\<close> ends at the first quorum in the order the \<open>range\<close> visits
  the map, which Go leaves open: \<open>ord\<close> gives it. The second loop counts.
\<close>

fun first_quorum :: "int \<Rightarrow> (string \<times> (string, bool) gomap) list \<Rightarrow> string \<times> (string, bool) gomap" where
  "first_quorum faults [] = ('''', [])"
| "first_quorum faults ((k, v) # kvs) =
     (if 2 * faults + 1 \<le> int (length v)
      then (k, fold (\<lambda>(replica, _) q. AList.update replica True q) v [])
      else first_quorum faults kvs)"

fun intersect_loop :: "int \<Rightarrow> (string, bool) gomap \<Rightarrow> (string \<times> bool) list \<Rightarrow> int \<Rightarrow> bool" where
  "intersect_loop faults quorum [] intersection = False"
| "intersect_loop faults quorum ((replica, _) # rs) intersection =
     (if map_of quorum replica \<noteq> None
      then (if faults < intersection + 1 then True else intersect_loop faults quorum rs (intersection + 1))
      else intersect_loop faults quorum rs intersection)"

type_synonym votes_by_block = "(string, (string, bool) gomap) gomap"

definition findIntersection :: "(votes_by_block \<Rightarrow> votes_by_block) \<Rightarrow> votes_by_block \<Rightarrow>
    votes_by_block \<Rightarrow> int \<Rightarrow> bool \<times> go_error option" where
  "findIntersection ord new old faults =
     (case first_quorum faults (ord new) of (quorumProposal, quorum) \<Rightarrow>
        (case map_of old quorumProposal of
           None \<Rightarrow> (False, Some errDifferentQuorum)
         | Some oldQuorum \<Rightarrow> (intersect_loop faults quorum oldQuorum 0, None)))"

definition record_vote :: "string \<Rightarrow> string \<Rightarrow> votes_by_block \<Rightarrow> votes_by_block" where
  "record_vote blockID from m =
     (let m1 = ensure_key blockID [] m
      in AList.update blockID (AList.update from True (inner_map blockID m1)) m1)"

text \<open>The two halves of the condition: recording the prevote, and comparing with round 0.\<close>

definition record_prevote :: "('e, 'c) testlib \<Rightarrow> int \<Rightarrow> string \<Rightarrow> string \<Rightarrow> 'c world \<Rightarrow> (addr \<times> 'c world) option" where
  "record_prevote L round blockID from w = do {
     (v, w1) \<leftarrow> getTestCaseOneVoteCount L round w;
     votes \<leftarrow> vote_counts w1 v;
     w2 \<leftarrow> setTestCaseOneVoteCount L v round (w1\<lparr>vote_counts := (vote_counts w1)
       (v \<mapsto> votes\<lparr>recorded := record_vote blockID from (recorded votes)\<rparr>)\<rparr>);
     Some (v, w2) }"

definition compare_rounds :: "(votes_by_block \<Rightarrow> votes_by_block) \<Rightarrow> ('e, 'c) testlib \<Rightarrow> int \<Rightarrow> addr \<Rightarrow>
    'c world \<Rightarrow> (bool \<times> 'c world) option" where
  "compare_rounds ord L faults v w = do {
     (v0, w1) \<leftarrow> getTestCaseOneVoteCount L 0 w;
     roundZeroVotes \<leftarrow> vote_counts w1 v0;
     votes \<leftarrow> vote_counts w1 v;
     let (ok, err) = findIntersection ord (recorded votes) (recorded roundZeroVotes) faults;
     let w2 = (if err = Some errDifferentQuorum then abort_test L w1 else w1);
     Some (ok, if ok then set_var L ''QuorumIntersection'' (VBool True) w2 else w2) }"

definition quorumCond :: "(votes_by_block \<Rightarrow> votes_by_block) \<Rightarrow> 'k tendermint \<Rightarrow> ('e, 'c) testlib \<Rightarrow>
    ('e, 'c) condition" where
  "quorumCond ord T L e w =
     (case GetMessageFromEvent L e w of
        None \<Rightarrow> Some (False, w)
      | Some a \<Rightarrow> do {
          message \<leftarrow> tmsgs w a;
          ptn \<leftarrow> sanity_getPartition L w;
          faulty \<leftarrow> Partition_GetPart ptn ''faulty'';
          let faults = int_var L ''faults'' w;
          fromFaulty \<leftarrow> Part_Contains faulty (From message);
          (if fromFaulty then Some (False, w)
           else if MsgType message \<noteq> Prevote then Some (False, w)
           else do {
             round \<leftarrow> Round message;
             block \<leftarrow> GetVoteBlockIDS T message;
             let blockID = (case block of Some b \<Rightarrow> b | None \<Rightarrow> '''');
             (v, w1) \<leftarrow> record_prevote L round blockID (From message) w;
             (if round \<noteq> 0 then compare_rounds ord L faults v w1 else Some (False, w1)) }) })"

text \<open>Each evaluation of the condition may visit the map in an order of its own.\<close>

definition sanity_OneTestCase :: "('e \<Rightarrow> 'c world \<Rightarrow> votes_by_block \<Rightarrow> votes_by_block) \<Rightarrow> 'k tendermint \<Rightarrow> json \<Rightarrow>
    ('e, 'c) testlib \<Rightarrow> labels \<Rightarrow> ('e, 'c) test_case" where
  "sanity_OneTestCase ord T J L lb = \<lparr>
     tc_name = ''QuorumIntersection'',
     tc_timeout = 50 * Second,
     tc_setup = Setup T L [setupVoteCount L],
     tc_edges = [(StartStateLabel lb, \<lambda>e w. quorumCond (ord e w) T L e w, SuccessStateLabel lb)],
     tc_handlers =
       [IfThen [cond_IsMessageSend L, IsVoteFromFaulty T L] (common_ChangeVoteToNil T J L),
        Handler (sanity_round0 L)],
     tc_assert = (\<lambda>s w. Some (Vars_GetBool L (ctx w) ''QuorumIntersection'' = Some True))\<rparr>"

section \<open>\<open>two.go\<close>\<close>

definition vote_count_key :: "string \<Rightarrow> string" where
  "vote_count_key i = ''voteCount_'' @ i"

definition sanity_two_countAndDeliver :: "('e, 'c) testlib \<Rightarrow> ('e, 'c) handler" where
  "sanity_two_countAndDeliver L e w =
     (case message_of L e w of
        None \<Rightarrow> Some (([], False), w)
      | Some (message, a) \<Rightarrow> do {
          tMsg \<leftarrow> tmsgs w a;
          let voteCountKey = vote_count_key (To tMsg);
          let faults = int_var L ''faults'' w;
          let w1 = ensure_counter L voteCountKey w;
          voteCount \<leftarrow> Counter_Value L (ctx w1) voteCountKey;
          (if 2 * faults - 1 \<le> voteCount then Some (([], True), w1)
           else do {
             c \<leftarrow> Counter_Incr L (ctx w1) voteCountKey;
             Some (([Some message], True), w1\<lparr>ctx := c\<rparr>) }) })"

definition sanity_changeProposal :: "'k tendermint \<Rightarrow> json \<Rightarrow> ('e, 'c) testlib \<Rightarrow> ('e, 'c) handler" where
  "sanity_changeProposal T J L e w =
     (case message_of L e w of
        None \<Rightarrow> Some (([], False), w)
      | Some (message, a) \<Rightarrow> do {
          tMsg \<leftarrow> tmsgs w a;
          let replica = Replicas_Get L (ctx w) (From tMsg);
          ((newProp, err), w1) \<leftarrow> ChangeProposalBlockID T replica a w;
          (if err \<noteq> None then Some (([Some message], True), w1)
           else do {
             a' \<leftarrow> newProp;
             (newMsgB, w2) \<leftarrow> Marshal T J a' w1;
             (case newMsgB of
                Inl _ \<Rightarrow> Some (([Some message], True), w2)
              | Inr bs \<Rightarrow>
                  (case NewMessage L (ctx w2) message bs of (m', c) \<Rightarrow>
                     Some (([Some m'], True), w2\<lparr>ctx := c\<rparr>))) }) })"

definition sanity_TwoTestCase :: "'k tendermint \<Rightarrow> json \<Rightarrow> ('e, 'c) testlib \<Rightarrow> labels \<Rightarrow> ('e, 'c) test_case" where
  "sanity_TwoTestCase T J L lb = \<lparr>
     tc_name = ''WrongProposal'',
     tc_timeout = 30 * Second,
     tc_setup = Setup T L [],
     tc_edges =
       [(StartStateLabel lb, IsCommit L, FailStateLabel lb),
        (StartStateLabel lb, RoundReached L 1, ''round1''),
        (''round1'', IsCommit L, SuccessStateLabel lb),
        (''round1'', RoundReached L 2, FailStateLabel lb)],
     tc_handlers =
       [IfThen [cond_IsMessageSend L, IsVoteFromFaulty T L] (common_ChangeVoteToNil T J L),
        IfThen [cond_IsMessageSend L, IsMessageFromRound L 0, IsMessageType L Precommit]
          (sanity_two_countAndDeliver L),
        IfThen [cond_IsMessageSend L, IsMessageFromRound L 1, IsMessageType L Proposal]
          (sanity_changeProposal T J L)],
     tc_assert = (\<lambda>s w. Some (case Vars_GetBool L (ctx w) ''Committed'' of
         None \<Rightarrow> False
       | Some committed \<Rightarrow> (case Vars_GetInt L (ctx w) ''CurRound'' of
           None \<Rightarrow> False
         | Some curRound \<Rightarrow> curRound = 1 \<and> committed)))\<rparr>"

section \<open>\<open>three.go\<close>\<close>

definition sanity_three_countAndDeliver :: "('e, 'c) testlib \<Rightarrow> ('e, 'c) handler" where
  "sanity_three_countAndDeliver L e w =
     (case message_of L e w of
        None \<Rightarrow> Some (([], False), w)
      | Some (message, a) \<Rightarrow> do {
          tMsg \<leftarrow> tmsgs w a;
          let faults = int_var L ''faults'' w;
          let voteCountKey = vote_count_key (To tMsg);
          let w1 = ensure_counter L voteCountKey w;
          voteCount \<leftarrow> Counter_Value L (ctx w1) voteCountKey;
          (if 2 * faults - 1 \<le> voteCount then Some (([], True), w1)
           else do {
             c \<leftarrow> Counter_Incr L (ctx w1) voteCountKey;
             Some (([Some message], True), w1\<lparr>ctx := c\<rparr>) }) })"

definition recordProposal :: "'k tendermint \<Rightarrow> ('e, 'c) testlib \<Rightarrow> ('e, 'c) handler" where
  "recordProposal T L e w =
     (case message_of L e w of
        None \<Rightarrow> Some (([], False), w)
      | Some (message, a) \<Rightarrow> do {
          tMsg \<leftarrow> tmsgs w a;
          blockID \<leftarrow> GetProposalBlockIDS T tMsg;
          Some (([Some message], True),
            (case blockID of Some b \<Rightarrow> set_var L ''oldProposal'' (VString b) w | None \<Rightarrow> w)) })"

definition threeSetup :: "'k tendermint \<Rightarrow> ('e, 'c) testlib \<Rightarrow> 'c setup_option" where
  "threeSetup T L w = do {
     let faults = (Replicas_Cap L (ctx w) - 1) sdiv 3;
     p \<leftarrow> create_partition T L [faults + 1, 2 * faults - 1, 1] [''toLock'', ''toNotLock'', ''faulty''] w;
     _ \<leftarrow> Partition_String (\<lambda>x. x) (\<lambda>x. x) p;
     Some (set_var L ''partition'' (VPartition p) w) }"

text \<open>\<open>handlers.DontDeliverMessage\<close> is the library's: the parameter \<open>dont_deliver\<close>.\<close>

definition sanity_ThreeTestCase :: "('e, 'c) handler \<Rightarrow> 'k tendermint \<Rightarrow> json \<Rightarrow> ('e, 'c) testlib \<Rightarrow>
    labels \<Rightarrow> ('e, 'c) test_case" where
  "sanity_ThreeTestCase dont_deliver T J L lb = \<lparr>
     tc_name = ''LockedValueCheck'',
     tc_timeout = 30 * Second,
     tc_setup = Setup T L [threeSetup T L],
     tc_edges =
       [(StartStateLabel lb, IsCommit L, FailStateLabel lb),
        (StartStateLabel lb, RoundReached L 1, ''round1''),
        (''round1'', IsCommit L, FailStateLabel lb),
        (''round1'', RoundReached L 2, ''round2''),
        (''round2'', IsCommit L, SuccessStateLabel lb)],
     tc_handlers =
       [IfThen [cond_IsMessageSend L, IsVoteFromFaulty T L] (common_ChangeVoteToNil T J L),
        IfThen [cond_IsMessageSend L, IsMessageFromRound L 0, IsToPart L ''toNotLock'', IsMessageType L Prevote]
          (sanity_three_countAndDeliver L),
        IfThen [cond_IsMessageSend L, IsMessageFromRound L 0, IsMessageType L Proposal] (recordProposal T L),
        IfThen [cond_IsMessageSend L, IsMessageFromRound L 1, IsMessageType L Proposal] dont_deliver],
     tc_assert = (\<lambda>s w. Some (case Vars_GetString L (ctx w) ''CommitBlockID'' of
         None \<Rightarrow> False
       | Some commitBlock \<Rightarrow> (case Vars_GetString L (ctx w) ''oldProposal'' of
           None \<Rightarrow> False
         | Some oldProposal \<Rightarrow> (case Vars_GetInt L (ctx w) ''CurRound'' of
             None \<Rightarrow> False
           | Some curRound \<Rightarrow> commitBlock = oldProposal \<and> curRound = 2))))\<rparr>"

end
