(* ===== verification/Sanity_One.thy ===== *)
theory Sanity_One
  imports Sanity
begin

text \<open>
  The test of quorum intersection, \<open>testcases/sanity/one.go\<close>: the intersection of two rounds'
  votes, the quota of precommits, and what success of the test means.
\<close>

section \<open>Intersecting quorums\<close>

text \<open>The replicas recorded for a block, and the blocks with a quorum.\<close>

definition voters :: "votes_by_block \<Rightarrow> string \<Rightarrow> string set" where
  "voters m k = fst ` set (inner_map k m)"

definition votes_wf :: "votes_by_block \<Rightarrow> bool" where
  "votes_wf m \<longleftrightarrow> distinct (map fst m) \<and> (\<forall>k. distinct (map fst (inner_map k m)))"

definition quorums :: "int \<Rightarrow> votes_by_block \<Rightarrow> string set" where
  "quorums faults m = {k. k \<in> fst ` set m \<and> 2 * faults + 1 \<le> int (card (voters m k))}"

lemma votes_wf_inner: "votes_wf m \<Longrightarrow> distinct (map fst (inner_map k m))"
  by (simp add: votes_wf_def)

lemma card_voters: "votes_wf m \<Longrightarrow> card (voters m k) = length (inner_map k m)"
  using distinct_card [OF votes_wf_inner, of m k] by (simp add: voters_def)

lemma intersect_loop_iff:
  "i \<le> faults \<Longrightarrow> intersect_loop faults quorum rs i \<longleftrightarrow>
    faults < i + int (length (filter (\<lambda>(r, _). map_of quorum r \<noteq> None) rs))"
  by (induction faults quorum rs i rule: intersect_loop.induct) auto

lemma copied_keys:
  "map_of (fold (\<lambda>(replica, _) q. AList.update replica True q) v q) r \<noteq> None \<longleftrightarrow>
    map_of q r \<noteq> None \<or> r \<in> fst ` set (v :: (string \<times> bool) list)"
  by (induction v arbitrary: q) (auto split: prod.splits)

lemma first_quorum_cases:
  "(\<forall>(k, v) \<in> set kvs. int (length v) < 2 * faults + 1) \<and> first_quorum faults kvs = ('''', []) \<or>
    (\<exists>k v. (k, v) \<in> set kvs \<and> 2 * faults + 1 \<le> int (length v) \<and>
      first_quorum faults kvs = (k, fold (\<lambda>(replica, _) q. AList.update replica True q) v []))"
proof (induction kvs)
  case (Cons kv kvs)
  obtain k v where kv: "kv = (k, v)" by fastforce
  show ?case
  proof (cases "2 * faults + 1 \<le> int (length v)")
    case True
    then have "first_quorum faults (kv # kvs) = (k, fold (\<lambda>(replica, _) q. AList.update replica True q) v [])"
      by (simp add: kv)
    with True kv show ?thesis by (intro disjI2 exI [of _ k] exI [of _ v]) simp
  next
    case False
    then have "first_quorum faults (kv # kvs) = first_quorum faults kvs" by (simp add: kv)
    with Cons False kv show ?thesis by auto
  qed
qed simp

lemma findIntersection_spec:
  assumes perm: "set (ord new) = set new" and new: "votes_wf new" and old: "votes_wf old"
    and "0 \<le> faults"
  shows "(quorums faults new = {} \<longrightarrow> findIntersection ord new old faults =
      (False, if map_of old '''' = None then Some errDifferentQuorum else None)) \<and>
    (quorums faults new \<noteq> {} \<longrightarrow> (\<exists>k \<in> quorums faults new. findIntersection ord new old faults =
      (if map_of old k = None then (False, Some errDifferentQuorum)
       else (faults < int (card (voters new k \<inter> voters old k)), None))))"
proof -
  note set = perm
  have inner: "inner_map k new = v" if "(k, v) \<in> set new" for k v
    using new that by (simp add: votes_wf_def inner_map_def)
  have quorum: "k \<in> quorums faults new \<longleftrightarrow> 2 * faults + 1 \<le> int (length v)" if "(k, v) \<in> set new" for k v
    using that inner [OF that] card_voters [OF new, of k] by (force simp: quorums_def)
  show ?thesis
    using first_quorum_cases [of "ord new" faults]
  proof (elim disjE exE conjE)
    assume none: "\<forall>(k, v) \<in> set (ord new). int (length v) < 2 * faults + 1"
      and fq: "first_quorum faults (ord new) = ('''', [])"
    have "quorums faults new = {}"
    proof (rule equals0I)
      fix k assume k: "k \<in> quorums faults new"
      then obtain v where v: "(k, v) \<in> set new" by (auto simp: quorums_def)
      with k quorum have "2 * faults + 1 \<le> int (length v)" by blast
      moreover have "int (length v) < 2 * faults + 1" using none v set by auto
      ultimately show False by simp
    qed
    moreover have "\<not> intersect_loop faults [] v 0" for v
      using assms(4) by (simp add: intersect_loop_iff split_beta)
    ultimately show ?thesis
      using fq by (simp add: findIntersection_def split: option.split)
  next
    fix k v
    assume kv: "(k, v) \<in> set (ord new)" "2 * faults + 1 \<le> int (length v)"
      and fq: "first_quorum faults (ord new) = (k, fold (\<lambda>(replica, _) q. AList.update replica True q) v [])"
    let ?q = "fold (\<lambda>(replica, _) q. AList.update replica True q) v []"
    have k: "(k, v) \<in> set new" "k \<in> quorums faults new" using kv set quorum by auto
    have "findIntersection ord new old faults =
      (if map_of old k = None then (False, Some errDifferentQuorum)
       else (faults < int (card (voters new k \<inter> voters old k)), None))"
    proof (cases "map_of old k")
      case (Some old_k)
      have q: "map_of ?q r \<noteq> None \<longleftrightarrow> r \<in> voters new k" for r
        using copied_keys [of v "[]" r] inner [OF k(1)] by (simp add: voters_def)
      have ok: "inner_map k old = old_k" "distinct (map fst old_k)"
        using Some votes_wf_inner [OF old, of k] by (simp_all add: inner_map_def)
      have "length (filter (\<lambda>(r, _). r \<in> voters new k) old_k) = card (voters new k \<inter> voters old k)"
      proof -
        have "distinct (map fst (filter (\<lambda>(r, _). r \<in> voters new k) old_k))"
          using ok(2) by (rule distinct_map_filter)
        moreover have "set (map fst (filter (\<lambda>(r, _). r \<in> voters new k) old_k)) = voters new k \<inter> voters old k"
          using ok(1) by (force simp: voters_def)
        ultimately show ?thesis by (metis distinct_card length_map)
      qed
      then show ?thesis
        using Some fq assms(4) by (simp add: findIntersection_def intersect_loop_iff q del: not_None_eq)
    qed (use fq in \<open>simp add: findIntersection_def\<close>)
    with k(2) show ?thesis by auto
  qed
qed

text \<open>
  C8: \<open>findIntersection\<close>, whatever the order in which Go visits the map. With no block that 2 f + 1
  replicas voted for in the new round it finds nothing, and reports a different quorum unless the
  empty block was voted for in the old round. Otherwise it picks such a block: with no vote for it
  in the old round it reports a different quorum, else it answers whether more than f replicas
  voted for it in both.
\<close>

theorem find_intersection:
  assumes "set (ord new) = set new" and "votes_wf new" and "votes_wf old" and "0 \<le> faults"
  shows "(quorums faults new = {} \<longrightarrow> findIntersection ord new old faults =
      (False, if map_of old '''' = None then Some errDifferentQuorum else None)) \<and>
    (quorums faults new \<noteq> {} \<longrightarrow> (\<exists>k \<in> quorums faults new. findIntersection ord new old faults =
      (if map_of old k = None then (False, Some errDifferentQuorum)
       else (faults < int (card (voters new k \<inter> voters old k)), None))))"
  by (rule findIntersection_spec [of ord new old faults, OF assms])

text \<open>
  Two quorums among 3 f + 1 replicas meet, so when each replica is recorded for one block only
  there is at most one block with a quorum.
\<close>

lemma quorum_unique:
  assumes "k \<in> quorums faults m" and "k' \<in> quorums faults m"
    and S: "finite S" "voters m k \<union> voters m k' \<subseteq> S" "int (card S) \<le> 3 * faults + 1" and "0 \<le> faults"
    and once: "\<And>r. r \<in> voters m k \<Longrightarrow> r \<in> voters m k' \<Longrightarrow> k = k'"
  shows "k = k'"
proof (rule ccontr)
  assume "k \<noteq> k'"
  then have "voters m k \<inter> voters m k' = {}" using once by blast
  moreover have "finite (voters m k)" "finite (voters m k')" by (simp_all add: voters_def)
  ultimately have "card (voters m k) + card (voters m k') = card (voters m k \<union> voters m k')"
    by (simp add: card_Un_disjoint)
  also have "\<dots> \<le> card S" by (rule card_mono [OF S(1,2)])
  finally show False
    using assms(1,2,6) S(3) by (simp add: quorums_def)
qed

text \<open>
  C28: when at most 3 f + 1 replicas are recorded in the new round, each for one block, the result
  does not depend on the order of the \<open>range\<close> loop.
\<close>

theorem find_intersection_deterministic:
  assumes "set (ord new) = set new" and "set (ord' new) = set new" and "votes_wf new" and "votes_wf old"
    and "0 \<le> faults" and "finite S" and "\<forall>k. voters new k \<subseteq> S" and "int (card S) \<le> 3 * faults + 1"
    and once: "\<forall>k k'. voters new k \<inter> voters new k' \<noteq> {} \<longrightarrow> k = k'"
  shows "findIntersection ord new old faults = findIntersection ord' new old faults"
proof (cases "quorums faults new = {}")
  case True
  then show ?thesis
    using findIntersection_spec [of ord new old faults, OF assms(1,3,4,5)] findIntersection_spec [of ord' new old faults, OF assms(2,3,4,5)] by simp
next
  case False
  obtain k where k: "k \<in> quorums faults new" "findIntersection ord new old faults =
      (if map_of old k = None then (False, Some errDifferentQuorum)
       else (faults < int (card (voters new k \<inter> voters old k)), None))"
    using findIntersection_spec [of ord new old faults, OF assms(1,3,4,5)] False by blast
  obtain k' where k': "k' \<in> quorums faults new" "findIntersection ord' new old faults =
      (if map_of old k' = None then (False, Some errDifferentQuorum)
       else (faults < int (card (voters new k' \<inter> voters old k')), None))"
    using findIntersection_spec [of ord' new old faults, OF assms(2,3,4,5)] False by blast
  have "k = k'"
    by (rule quorum_unique [OF k(1) k'(1) assms(6) _ assms(8,5)]) (use assms(7) once in blast)+
  with k k' show ?thesis by simp
qed

section \<open>The vote counts of a world\<close>

definition vote_ref :: "('c \<Rightarrow> 'e lib_state) \<Rightarrow> 'c world \<Rightarrow> int \<Rightarrow> addr option" where
  "vote_ref \<alpha> w r =
     (case lvars (\<alpha> (ctx w)) ''voteCount'' of
        Some (VVoteCounts m) \<Rightarrow> (case vote_maps w m of Some vm \<Rightarrow> map_of vm r | None \<Rightarrow> None)
      | _ \<Rightarrow> None)"

definition votes_at :: "('c \<Rightarrow> 'e lib_state) \<Rightarrow> 'c world \<Rightarrow> int \<Rightarrow> testCaseOneVoteCount" where
  "votes_at \<alpha> w r =
     (case vote_ref \<alpha> w r of
        Some v \<Rightarrow> (case vote_counts w v of Some c \<Rightarrow> c | None \<Rightarrow> newTestCaseOneVoteCount)
      | None \<Rightarrow> newTestCaseOneVoteCount)"

definition votes_ok :: "('c \<Rightarrow> 'e lib_state) \<Rightarrow> 'c world \<Rightarrow> bool" where
  "votes_ok \<alpha> w \<longleftrightarrow>
     (\<exists>m vm. lvars (\<alpha> (ctx w)) ''voteCount'' = Some (VVoteCounts m) \<and> vote_maps w m = Some vm) \<and>
     (\<forall>r v. vote_ref \<alpha> w r = Some v \<longrightarrow> v < next_addr w \<and> vote_counts w v \<noteq> None) \<and>
     (\<forall>r r' v. vote_ref \<alpha> w r = Some v \<longrightarrow> vote_ref \<alpha> w r' = Some v \<longrightarrow> r = r')"

lemma votes_frame:
  assumes "lvars (\<alpha> (ctx w')) ''voteCount'' = lvars (\<alpha> (ctx w)) ''voteCount''"
    and "vote_maps w' = vote_maps w" and "vote_counts w' = vote_counts w" and "next_addr w \<le> next_addr w'"
  shows "vote_ref \<alpha> w' = vote_ref \<alpha> w" and "votes_at \<alpha> w' = votes_at \<alpha> w"
    and "votes_ok \<alpha> w \<Longrightarrow> votes_ok \<alpha> w'"
proof -
  show ref: "vote_ref \<alpha> w' = vote_ref \<alpha> w"
    using assms(1,2) by (intro ext) (simp add: vote_ref_def split: option.split var_value.split)
  then show "votes_at \<alpha> w' = votes_at \<alpha> w"
    using assms(3) by (intro ext) (simp add: votes_at_def split: option.split)
  show "votes_ok \<alpha> w \<Longrightarrow> votes_ok \<alpha> w'"
    using ref assms by (fastforce simp: votes_ok_def)
qed

lemma get_votes:
  assumes lib: "testlib_spec L \<alpha>" and ok: "votes_ok \<alpha> w"
  shows "\<exists>v w'. getTestCaseOneVoteCount L r w = Some (v, w') \<and> votes_ok \<alpha> w' \<and>
    vote_ref \<alpha> w' r = Some v \<and> vote_counts w' v = Some (votes_at \<alpha> w r) \<and>
    votes_at \<alpha> w' = votes_at \<alpha> w \<and> ctx w' = ctx w \<and> tmsgs w' = tmsgs w \<and>
    (\<forall>r' v'. vote_ref \<alpha> w r' = Some v' \<longrightarrow> vote_ref \<alpha> w' r' = Some v')"
proof -
  from ok obtain m vm where m: "lvars (\<alpha> (ctx w)) ''voteCount'' = Some (VVoteCounts m)"
    "vote_maps w m = Some vm" by (auto simp: votes_ok_def)
  then have ref: "vote_ref \<alpha> w = map_of vm" by (simp add: vote_ref_def fun_eq_iff)
  show ?thesis
  proof (cases "map_of vm r")
    case (Some v)
    with ok ref have "vote_counts w v \<noteq> None" by (simp add: votes_ok_def)
    then obtain c where "vote_counts w v = Some c" by blast
    with m ref Some ok show ?thesis
      by (intro exI [of _ v] exI [of _ w])
        (simp add: getTestCaseOneVoteCount_def vote_map_addr_def vars_specD [OF lib] votes_at_def)
  next
    case None
    let ?v = "next_addr w"
    let ?w' = "w\<lparr>vote_counts := (vote_counts w)(?v \<mapsto> newTestCaseOneVoteCount),
      vote_maps := (vote_maps w)(m \<mapsto> AList.update r ?v vm), next_addr := Suc ?v\<rparr>"
    have ref': "vote_ref \<alpha> ?w' = (vote_ref \<alpha> w)(r \<mapsto> ?v)"
      using m by (simp add: vote_ref_def fun_eq_iff)
    have old: "v < ?v \<and> vote_counts w v \<noteq> None" if "map_of vm r' = Some v" for r' v
      using ok that ref by (simp add: votes_ok_def)
    have fresh: "map_of vm r' \<noteq> Some ?v" for r' using old by blast
    have "votes_ok \<alpha> ?w'"
      unfolding votes_ok_def ref' using ok m old ref fresh
      by (auto simp: votes_ok_def less_Suc_eq split: if_splits)
    moreover have "votes_at \<alpha> ?w' = votes_at \<alpha> w"
    proof
      fix r'
      show "votes_at \<alpha> ?w' r' = votes_at \<alpha> w r'"
        using None old [of r'] ref by (cases "r' = r") (auto simp: votes_at_def ref' split: option.split)
    qed
    moreover have "votes_at \<alpha> w r = newTestCaseOneVoteCount"
      using None ref by (simp add: votes_at_def)
    ultimately show ?thesis
      using m None ref ref'
      by (intro exI [of _ ?v] exI [of _ ?w'])
        (simp add: getTestCaseOneVoteCount_def vote_map_addr_def vars_specD [OF lib] Let_def)
  qed
qed

lemma put_votes:
  assumes ok: "votes_ok \<alpha> w" and r: "vote_ref \<alpha> w r = Some v"
  shows "votes_ok \<alpha> (w\<lparr>vote_counts := (vote_counts w)(v \<mapsto> c)\<rparr>)"
    and "votes_at \<alpha> (w\<lparr>vote_counts := (vote_counts w)(v \<mapsto> c)\<rparr>) = (votes_at \<alpha> w)(r := c)"
    and "vote_ref \<alpha> (w\<lparr>vote_counts := (vote_counts w)(v \<mapsto> c)\<rparr>) = vote_ref \<alpha> w"
proof -
  let ?w' = "w\<lparr>vote_counts := (vote_counts w)(v \<mapsto> c)\<rparr>"
  show ref: "vote_ref \<alpha> ?w' = vote_ref \<alpha> w"
    by (intro ext) (simp add: vote_ref_def split: option.split var_value.split)
  show "votes_ok \<alpha> ?w'" using ok by (auto simp: votes_ok_def ref)
  have inj: "vote_ref \<alpha> w r' = Some v \<Longrightarrow> r' = r" for r' using ok r by (auto simp: votes_ok_def)
  show "votes_at \<alpha> ?w' = (votes_at \<alpha> w)(r := c)"
  proof
    fix r'
    show "votes_at \<alpha> ?w' r' = ((votes_at \<alpha> w)(r := c)) r'"
    proof (cases "vote_ref \<alpha> w r' = Some v")
      case True
      then have "r' = r" by (rule inj)
      with r show ?thesis by (simp add: votes_at_def ref)
    next
      case False
      with r have "r' \<noteq> r" by blast
      with False show ?thesis
        by (cases "vote_ref \<alpha> w r'") (simp_all add: votes_at_def ref)
    qed
  qed
qed

lemma set_votes:
  assumes lib: "testlib_spec L \<alpha>" and ok: "votes_ok \<alpha> w" and r: "vote_ref \<alpha> w r = Some v"
  shows "\<exists>w'. setTestCaseOneVoteCount L v r w = Some w' \<and> votes_ok \<alpha> w' \<and> vote_ref \<alpha> w' = vote_ref \<alpha> w \<and>
    vote_counts w' = vote_counts w \<and> votes_at \<alpha> w' = votes_at \<alpha> w \<and> \<alpha> (ctx w') = \<alpha> (ctx w) \<and> tmsgs w' = tmsgs w"
proof -
  from ok obtain m vm where m: "lvars (\<alpha> (ctx w)) ''voteCount'' = Some (VVoteCounts m)"
    "vote_maps w m = Some vm" by (auto simp: votes_ok_def)
  then have ref: "vote_ref \<alpha> w = map_of vm" by (simp add: vote_ref_def fun_eq_iff)
  let ?w' = "set_var L ''voteCount'' (VVoteCounts m)
    (w\<lparr>vote_maps := (vote_maps w)(m \<mapsto> AList.update r v vm)\<rparr>)"
  have vars: "\<alpha> (ctx ?w') = \<alpha> (ctx w)"
    using m(1) by (simp add: vars_specD [OF lib] fun_upd_idem)
  have upd: "map_of (AList.update r v vm) = map_of vm"
    using r ref by (simp add: fun_upd_idem)
  have ref': "vote_ref \<alpha> ?w' = vote_ref \<alpha> w"
    using m vars upd by (simp add: vote_ref_def fun_eq_iff)
  have "votes_ok \<alpha> ?w'"
    using ok m vars by (auto simp: votes_ok_def ref')
  moreover have "votes_at \<alpha> ?w' = votes_at \<alpha> w"
    by (intro ext) (simp add: votes_at_def ref' split: option.split)
  ultimately show ?thesis
    using m ref' vars by (intro exI [of _ ?w'])
      (simp add: setTestCaseOneVoteCount_def vote_map_addr_def vars_specD(1) [OF lib])
qed

section \<open>The quota of precommits\<close>

text \<open>
  How many precommits of round 0 were let through to each recipient: a tally, which the gates in
  front of the recipients count on.
\<close>

definition tally :: "(string \<Rightarrow> int) \<Rightarrow> string \<Rightarrow> int" where
  "tally s k = s k"

definition tally_up :: "string \<Rightarrow> (string \<Rightarrow> int) \<Rightarrow> string \<Rightarrow> int" where
  "tally_up k s = s(k := s k + 1)"

interpretation tallies: quota tally tally_up
  by unfold_locales (simp_all add: tally_def tally_up_def)

definition precommits_to :: "testCaseOneVoteCount \<Rightarrow> string \<Rightarrow> int" where
  "precommits_to c k = delivered_to (type_name Precommit) k (delivered c)"

lemma inner_map_update [simp]: "inner_map k (AList.update k x m) = x"
  by (simp add: inner_map_def)

lemma inner_map_ensure [simp]: "inner_map k (ensure_key k [] m) = inner_map k m"
  by (simp add: inner_map_def ensure_key_def split: option.split)

lemma map_of_ensure: "map_of (ensure_key k d m) = (map_of m)(k \<mapsto> (case map_of m k of None \<Rightarrow> d | Some x \<Rightarrow> x))"
  by (auto simp: ensure_key_def fun_eq_iff split: option.split)

lemma delivered_to_touch [simp]: "delivered_to ty k (touch_delivered ty to ds) = delivered_to ty k ds"
  by (simp add: delivered_to_def touch_delivered_def map_of_ensure split: option.split)

lemma delivered_to_set [simp]:
  "delivered_to ty k (set_delivered ty to c ds) = (if k = to then c else delivered_to ty k ds)"
  by (simp add: delivered_to_def set_delivered_def)

text \<open>The filter on one precommit of round 0 is the gate in front of its recipient.\<close>

lemma sanity_round0_step:
  assumes lib: "testlib_spec L \<alpha>" and c: "carries L w e m a t" and t: "MsgType t = Precommit" "Round t = Some 0"
    and part: "lvars (\<alpha> (ctx w)) ''partition'' = Some (VPartition (Some P))" "part_is T P ''faulty'' fs"
    and f: "lvars (\<alpha> (ctx w)) ''faults'' = Some (VInt f)" and ok: "votes_ok \<alpha> w"
  defines "g \<equiv> gate tally tally_up (\<lambda>k. if k \<in> ID ` set fs then 2 * f - 1 else 2 * f) (To t)
    (precommits_to (votes_at \<alpha> w 0))"
  shows "\<exists>w'. sanity_round0 L e w = Some ((if fst g then [Some m] else [], True), w') \<and>
    precommits_to (votes_at \<alpha> w' 0) = snd g \<and> votes_ok \<alpha> w' \<and> tmsgs w' = tmsgs w \<and> \<alpha> (ctx w') = \<alpha> (ctx w)"
proof -
  obtain v w1 where w1: "getTestCaseOneVoteCount L 0 w = Some (v, w1)" "votes_ok \<alpha> w1"
    "vote_ref \<alpha> w1 0 = Some v" "vote_counts w1 v = Some (votes_at \<alpha> w 0)" "ctx w1 = ctx w" "tmsgs w1 = tmsgs w"
    using get_votes [OF lib ok, of 0] by (elim exE conjE) (rule that)
  obtain p where p: "Partition_GetPart (Some P) ''faulty'' = Some (Some p)"
    "\<And>i. Part_Contains (Some p) i = Some (i \<in> ID ` set fs)"
    using part(2) by (auto simp: part_is_def)
  have reads: "sanity_getPartition L w1 = Some (Some P)" "int_var L ''faults'' w1 = f"
    using part(1) f w1(5) by (simp_all add: sanity_getPartition_def int_var_def vars_specD [OF lib])
  let ?c = "votes_at \<alpha> w 0" and ?ty = "type_name Precommit"
  let ?ds1 = "touch_delivered ?ty (To t) (delivered ?c)"
  let ?ds2 = "set_delivered ?ty (To t) (precommits_to ?c (To t) + 1) ?ds1"
  let ?w2 = "w1\<lparr>vote_counts := (vote_counts w1)(v \<mapsto> ?c\<lparr>delivered := ?ds1\<rparr>)\<rparr>"
  let ?w3 = "?w2\<lparr>vote_counts := (vote_counts ?w2)(v \<mapsto> ?c\<lparr>delivered := ?ds2\<rparr>)\<rparr>"
  have ds1: "precommits_to (?c\<lparr>delivered := ?ds1\<rparr>) = precommits_to ?c"
    by (rule ext) (simp add: precommits_to_def)
  have ds2: "precommits_to (?c\<lparr>delivered := ?ds2\<rparr>) = tally_up (To t) (precommits_to ?c)"
    by (rule ext) (simp add: precommits_to_def tally_up_def)
  have w2: "votes_ok \<alpha> ?w2" "votes_at \<alpha> ?w2 0 = ?c\<lparr>delivered := ?ds1\<rparr>" "vote_ref \<alpha> ?w2 0 = Some v"
    by (rule put_votes(1) [OF w1(2,3)]) (simp_all only: put_votes(2,3) [OF w1(2,3)] fun_upd_same w1(3))
  have w3: "votes_ok \<alpha> ?w3" "votes_at \<alpha> ?w3 0 = ?c\<lparr>delivered := ?ds2\<rparr>" "vote_ref \<alpha> ?w3 0 = Some v"
    by (rule put_votes(1) [OF w2(1,3)]) (simp_all only: put_votes(2,3) [OF w2(1,3)] fun_upd_same w2(3))
  obtain w4 where w4: "setTestCaseOneVoteCount L v 0 ?w3 = Some w4" "votes_ok \<alpha> w4"
    "votes_at \<alpha> w4 = votes_at \<alpha> ?w3" "\<alpha> (ctx w4) = \<alpha> (ctx w)" "tmsgs w4 = tmsgs w"
    using set_votes [OF lib w3(1,3)] w1(5,6) by auto
  let ?pass = "tally (precommits_to ?c) (To t) < (if To t \<in> ID ` set fs then 2 * f - 1 else 2 * f)"
  have run: "sanity_round0 L e w = (if ?pass then Some (([Some m], True), w4) else Some (([], True), ?w2))"
  proof -
    have ds: "delivered_to ?ty (To t) ?ds1 = precommits_to ?c (To t)" by (simp add: precommits_to_def)
    have pass: "(if To t \<in> ID ` set fs then precommits_to ?c (To t) < 2 * f - 1
        else precommits_to ?c (To t) \<le> 2 * f - 1) = ?pass"
      by (simp add: tally_def)
    show ?thesis
      unfolding sanity_round0_def carries_message_of [OF c] option.case prod.case carriesD(4) [OF c]
        Option.bind.bind_lunit t w1(1,4) reads p Let_def ds pass w4(1)
      by simp
  qed
  show ?thesis
  proof (cases ?pass)
    case True
    then have "g = (True, tally_up (To t) (precommits_to ?c))" by (simp add: g_def gate_def)
    with True run w3(2) w4 ds2 show ?thesis by (intro exI [of _ w4]) simp
  next
    case False
    then have "g = (False, precommits_to ?c)" by (simp add: g_def gate_def)
    with False run w2 ds1 w1(5,6) show ?thesis by (intro exI [of _ ?w2]) simp
  qed
qed

text \<open>
  C13: the filter on any sequence of precommits of round 0, from the state the setup leaves. It
  returns on each and delivers exactly the first 2 f - 1 to a faulty recipient and the first 2 f
  to any other; the rest are dropped.
\<close>

theorem sanity_precommit_quota:
  assumes "testlib_spec L \<alpha>"
    and "\<forall>e \<in> set es. \<exists>a t. carries L w e (msg e) a t \<and> MsgType t = Precommit \<and> Round t = Some 0 \<and> To t = to e"
    and "lvars (\<alpha> (ctx w)) ''partition'' = Some (VPartition (Some P))" and "part_is T P ''faulty'' fs"
    and "lvars (\<alpha> (ctx w)) ''faults'' = Some (VInt f)"
    and "lvars (\<alpha> (ctx w)) ''voteCount'' = Some (VVoteCounts m)" and "vote_maps w m = Some []"
  shows "\<exists>outs w'. outputs (sanity_round0 L) es w = Some (outs, w') \<and> length outs = length es \<and>
    (\<forall>i < length es. outs ! i =
      (if int (count_list (map to (take i es)) (to (es ! i))) <
          (if to (es ! i) \<in> ID ` set fs then 2 * f - 1 else 2 * f)
       then ([Some (msg (es ! i))], True) else ([], True)))"
proof -
  let ?lim = "\<lambda>k. if k \<in> ID ` set fs then 2 * f - 1 else 2 * f"
  let ?I = "\<lambda>w1. votes_ok \<alpha> w1 \<and> tmsgs w1 = tmsgs w \<and> \<alpha> (ctx w1) = \<alpha> (ctx w)"
  have new: "votes_ok \<alpha> w" "votes_at \<alpha> w 0 = newTestCaseOneVoteCount"
    using assms(6,7) by (simp_all add: votes_ok_def votes_at_def vote_ref_def)
  have zero: "precommits_to (votes_at \<alpha> w 0) = (\<lambda>_. 0)"
    by (rule ext) (simp add: new(2) precommits_to_def newTestCaseOneVoteCount_def delivered_to_def inner_map_def)
  obtain bs s' where g: "gate_run tally tally_up ?lim (map to es) (precommits_to (votes_at \<alpha> w 0)) = (bs, s')"
    by fastforce
  note bs = tallies.gate_answers [OF g]
  have step: "\<exists>w2. sanity_round0 L e w1 =
      Some ((if fst (gate tally tally_up ?lim (to e) (precommits_to (votes_at \<alpha> w1 0))) then [Some (msg e)] else [], True), w2) \<and>
      precommits_to (votes_at \<alpha> w2 0) = snd (gate tally tally_up ?lim (to e) (precommits_to (votes_at \<alpha> w1 0))) \<and> ?I w2"
    if e: "e \<in> set es" and I: "?I w1" for e w1
  proof -
    from e assms(2) obtain a t where c: "carries L w e (msg e) a t" "MsgType t = Precommit"
      "Round t = Some 0" "To t = to e" by blast
    with I have c': "carries L w1 e (msg e) a t"
      using carries_keep [OF assms(1), of w1 w] by simp
    have vars: "lvars (\<alpha> (ctx w1)) ''partition'' = Some (VPartition (Some P))"
      "lvars (\<alpha> (ctx w1)) ''faults'' = Some (VInt f)" "votes_ok \<alpha> w1"
      using I assms(3,5) by simp_all
    from sanity_round0_step [OF assms(1) c' c(2,3) vars(1) assms(4) vars(2,3)] I c(4)
    show ?thesis by auto
  qed
  have "\<exists>w'. outputs (sanity_round0 L) es w =
      Some (map (\<lambda>(b, e). (if b then [Some (msg e)] else [], True)) (zip bs es), w') \<and> ?I w' \<and>
      precommits_to (votes_at \<alpha> w' 0) = s'"
    by (rule outputs_gate [where E = "set es" and key = to]) (rule step, use new(1) g in simp_all)
  then obtain w' where run: "outputs (sanity_round0 L) es w =
      Some (map (\<lambda>(b, e). (if b then [Some (msg e)] else [], True)) (zip bs es), w')"
    by blast
  have len: "length bs = length es" using bs by simp
  show ?thesis
  proof (intro exI conjI allI impI)
    show "outputs (sanity_round0 L) es w =
      Some (map (\<lambda>(b, e). (if b then [Some (msg e)] else [], True)) (zip bs es), w')" by (rule run)
    show "length (map (\<lambda>(b, e). (if b then [Some (msg e)] else [], True)) (zip bs es)) = length es"
      using len by simp
    show "map (\<lambda>(b, e). (if b then [Some (msg e)] else [], True)) (zip bs es) ! i =
      (if int (count_list (map to (take i es)) (to (es ! i))) < ?lim (to (es ! i))
       then ([Some (msg (es ! i))], True) else ([], True))" if "i < length es" for i
      using bs that len by (simp add: zero tally_def take_map)
  qed
qed

section \<open>The quorum condition\<close>

text \<open>The votes after a prevote of round \<open>r\<close> for block \<open>k\<close> by \<open>frm\<close> has been recorded.\<close>

definition votes_after :: "(int \<Rightarrow> testCaseOneVoteCount) \<Rightarrow> int \<Rightarrow> string \<Rightarrow> string \<Rightarrow> int \<Rightarrow> testCaseOneVoteCount" where
  "votes_after V r k frm = V(r := (V r)\<lparr>recorded := record_vote k frm (recorded (V r))\<rparr>)"

lemma record_prevote_spec:
  assumes lib: "testlib_spec L \<alpha>" and ok: "votes_ok \<alpha> w"
  shows "\<exists>v w'. record_prevote L r k frm w = Some (v, w') \<and> votes_ok \<alpha> w' \<and> vote_ref \<alpha> w' r = Some v \<and>
    votes_at \<alpha> w' = votes_after (votes_at \<alpha> w) r k frm \<and> \<alpha> (ctx w') = \<alpha> (ctx w) \<and> tmsgs w' = tmsgs w"
proof -
  obtain v w1 where w1: "getTestCaseOneVoteCount L r w = Some (v, w1)" "votes_ok \<alpha> w1"
    "vote_ref \<alpha> w1 r = Some v" "vote_counts w1 v = Some (votes_at \<alpha> w r)" "votes_at \<alpha> w1 = votes_at \<alpha> w"
    "ctx w1 = ctx w" "tmsgs w1 = tmsgs w"
    using get_votes [OF lib ok, of r] by (elim exE conjE) (rule that)
  let ?c = "(votes_at \<alpha> w r)\<lparr>recorded := record_vote k frm (recorded (votes_at \<alpha> w r))\<rparr>"
  let ?w2 = "w1\<lparr>vote_counts := (vote_counts w1)(v \<mapsto> ?c)\<rparr>"
  have w2: "votes_ok \<alpha> ?w2" "votes_at \<alpha> ?w2 = (votes_at \<alpha> w)(r := ?c)" "vote_ref \<alpha> ?w2 r = Some v"
    by (rule put_votes(1) [OF w1(2,3)]) (simp_all only: put_votes(2,3) [OF w1(2,3)] w1(3,5))
  obtain w3 where "setTestCaseOneVoteCount L v r ?w2 = Some w3" "votes_ok \<alpha> w3" "vote_ref \<alpha> w3 = vote_ref \<alpha> ?w2"
    "votes_at \<alpha> w3 = votes_at \<alpha> ?w2" "\<alpha> (ctx w3) = \<alpha> (ctx ?w2)" "tmsgs w3 = tmsgs ?w2"
    using set_votes [OF lib w2(1,3)] by (elim exE conjE) (rule that)
  with w1 w2 show ?thesis
    by (intro exI [of _ v] exI [of _ w3]) (simp add: record_prevote_def votes_after_def)
qed

lemma compare_rounds_spec:
  assumes lib: "testlib_spec L \<alpha>" and ok: "votes_ok \<alpha> w" and r: "vote_ref \<alpha> w r = Some v"
    and res_def: "res = findIntersection ord (recorded (votes_at \<alpha> w r)) (recorded (votes_at \<alpha> w 0)) f"
  shows "\<exists>w'. compare_rounds ord L f v w = Some (fst res, w') \<and> votes_ok \<alpha> w' \<and>
    votes_at \<alpha> w' = votes_at \<alpha> w \<and> tmsgs w' = tmsgs w \<and>
    lvars (\<alpha> (ctx w')) = (if fst res then (lvars (\<alpha> (ctx w)))(''QuorumIntersection'' \<mapsto> VBool True)
      else lvars (\<alpha> (ctx w))) \<and> lcap (\<alpha> (ctx w')) = lcap (\<alpha> (ctx w)) \<and> lreplicas (\<alpha> (ctx w')) = lreplicas (\<alpha> (ctx w)) \<and>
    (laborted (\<alpha> (ctx w')) \<longleftrightarrow> laborted (\<alpha> (ctx w)) \<or> snd res = Some errDifferentQuorum)"
proof -
  obtain v0 w1 where w1: "getTestCaseOneVoteCount L 0 w = Some (v0, w1)" "votes_ok \<alpha> w1"
    "vote_ref \<alpha> w1 0 = Some v0" "vote_counts w1 v0 = Some (votes_at \<alpha> w 0)" "votes_at \<alpha> w1 = votes_at \<alpha> w"
    "ctx w1 = ctx w" "tmsgs w1 = tmsgs w" "vote_ref \<alpha> w1 r = Some v"
    using get_votes [OF lib ok, of 0] r by blast
  have "vote_counts w1 v \<noteq> None" using w1(2,8) by (simp add: votes_ok_def)
  then have v: "vote_counts w1 v = Some (votes_at \<alpha> w r)"
    using w1(5,8) by (auto simp: votes_at_def fun_eq_iff dest!: spec [of _ r])
  let ?w2 = "if snd res = Some errDifferentQuorum then abort_test L w1 else w1"
  let ?w3 = "if fst res then set_var L ''QuorumIntersection'' (VBool True) ?w2 else ?w2"
  have run: "compare_rounds ord L f v w = Some (fst res, ?w3)"
    unfolding compare_rounds_def w1(1) by (simp add: w1(4) v res_def split_beta Let_def)
  have obs: "tmsgs ?w3 = tmsgs w" "lvars (\<alpha> (ctx ?w3)) = (if fst res
      then (lvars (\<alpha> (ctx w)))(''QuorumIntersection'' \<mapsto> VBool True) else lvars (\<alpha> (ctx w)))"
    "lcap (\<alpha> (ctx ?w3)) = lcap (\<alpha> (ctx w))"
    "lreplicas (\<alpha> (ctx ?w3)) = lreplicas (\<alpha> (ctx w))"
    "laborted (\<alpha> (ctx ?w3)) \<longleftrightarrow> laborted (\<alpha> (ctx w)) \<or> snd res = Some errDifferentQuorum"
    using w1(6,7) by (auto simp: vars_specD [OF lib] context_specD [OF lib])
  have frame: "lvars (\<alpha> (ctx ?w3)) ''voteCount'' = lvars (\<alpha> (ctx w1)) ''voteCount''"
    "vote_maps ?w3 = vote_maps w1" "vote_counts ?w3 = vote_counts w1" "next_addr w1 \<le> next_addr ?w3"
    using obs(2) w1(6) by (auto simp: abort_test_def)
  show ?thesis
    using run obs votes_frame(3) [OF frame w1(2)] votes_frame(2) [OF frame] w1(5)
    by (intro exI [of _ ?w3]) simp
qed

lemma inner_record_vote:
  "inner_map k' (record_vote k frm m) =
    (if k' = k then AList.update frm True (inner_map k m) else inner_map k' m)"
  by (auto simp: record_vote_def Let_def inner_map_def ensure_key_def split: option.splits)

lemma voters_record_vote:
  "voters (record_vote k frm m) k' = (if k' = k then insert frm (voters m k) else voters m k')"
  by (simp add: voters_def inner_record_vote AList.dom_update)

lemma recorded_wf: "votes_wf m \<Longrightarrow> votes_wf (record_vote k frm m)"
  by (auto simp: votes_wf_def inner_record_vote) (simp add: record_vote_def Let_def ensure_key_def)

lemma record_and_compare:
  assumes lib: "testlib_spec L \<alpha>" and ok: "votes_ok \<alpha> w"
    and V: "V = votes_after (votes_at \<alpha> w) r k frm"
    and res: "res = findIntersection ord (recorded (V r)) (recorded (V 0)) f"
  shows "\<exists>w'. do { (v, w1) \<leftarrow> record_prevote L r k frm w;
        (if r \<noteq> 0 then compare_rounds ord L f v w1 else Some (False, w1)) } = Some (r \<noteq> 0 \<and> fst res, w') \<and>
    votes_ok \<alpha> w' \<and> votes_at \<alpha> w' = V \<and> tmsgs w' = tmsgs w \<and>
    lvars (\<alpha> (ctx w')) = (if r \<noteq> 0 \<and> fst res then (lvars (\<alpha> (ctx w)))(''QuorumIntersection'' \<mapsto> VBool True)
      else lvars (\<alpha> (ctx w))) \<and> lcap (\<alpha> (ctx w')) = lcap (\<alpha> (ctx w)) \<and> lreplicas (\<alpha> (ctx w')) = lreplicas (\<alpha> (ctx w)) \<and>
    (laborted (\<alpha> (ctx w')) \<longleftrightarrow> laborted (\<alpha> (ctx w)) \<or> r \<noteq> 0 \<and> snd res = Some errDifferentQuorum)"
proof -
  obtain v w1 where w1: "record_prevote L r k frm w = Some (v, w1)" "votes_ok \<alpha> w1" "vote_ref \<alpha> w1 r = Some v"
    "votes_at \<alpha> w1 = V" "\<alpha> (ctx w1) = \<alpha> (ctx w)" "tmsgs w1 = tmsgs w"
    using record_prevote_spec [OF lib ok, of r k frm, folded V] by (elim exE conjE) (rule that)
  show ?thesis
  proof (cases "r = 0")
    case True
    with w1 show ?thesis by (intro exI [of _ w1]) simp
  next
    case False
    from res have "res = findIntersection ord (recorded (votes_at \<alpha> w1 r)) (recorded (votes_at \<alpha> w1 0)) f"
      by (simp add: w1(4))
    from compare_rounds_spec [OF lib w1(2,3) this] False w1 show ?thesis by auto
  qed
qed

lemma quorumCond_result:
  assumes lib: "testlib_spec L \<alpha>" and ok: "votes_ok \<alpha> w"
    and run: "quorumCond ord T L e w = Some (b, w')"
  shows "b = False \<and> w' = w \<or> (\<exists>r k frm V. V = votes_after (votes_at \<alpha> w) r k frm \<and>
    votes_ok \<alpha> w' \<and> votes_at \<alpha> w' = V \<and>
    b = (r \<noteq> 0 \<and> fst (findIntersection ord (recorded (V r)) (recorded (V 0)) (int_var L ''faults'' w))) \<and>
    lvars (\<alpha> (ctx w')) = (if b then (lvars (\<alpha> (ctx w)))(''QuorumIntersection'' \<mapsto> VBool True)
      else lvars (\<alpha> (ctx w))) \<and> lcap (\<alpha> (ctx w')) = lcap (\<alpha> (ctx w)) \<and> lreplicas (\<alpha> (ctx w')) = lreplicas (\<alpha> (ctx w)))"
proof (cases "b = False \<and> w' = w")
  case False
  with run obtain a where a: "GetMessageFromEvent L e w = Some a"
    by (cases "GetMessageFromEvent L e w") (auto simp: quorumCond_def)
  from run a obtain t ff where t: "tmsgs w a = Some t" "\<exists>ptn part. sanity_getPartition L w = Some ptn \<and>
      Partition_GetPart ptn ''faulty'' = Some part \<and> Part_Contains part (From t) = Some ff"
    by (auto simp: quorumCond_def Option.bind_eq_Some_conv)
  with run a False have "\<not> ff" "MsgType t = Prevote"
    by (auto simp: quorumCond_def split: if_split_asm)
  with run a t obtain r blk where rb: "Round t = Some r" "GetVoteBlockIDS T t = Some blk"
    by (auto simp: quorumCond_def Let_def Option.bind_eq_Some_conv)
  obtain k where k: "k = (case blk of Some x \<Rightarrow> x | None \<Rightarrow> '''')" by blast
  from run a t \<open>\<not> ff\<close> \<open>MsgType t = Prevote\<close> rb have
    "do { (v, w1) \<leftarrow> record_prevote L r k (From t) w;
        (if r \<noteq> 0 then compare_rounds ord L (int_var L ''faults'' w) v w1 else Some (False, w1)) } = Some (b, w')"
    by (auto simp: quorumCond_def Let_def k)
  moreover obtain V where V: "V = votes_after (votes_at \<alpha> w) r k (From t)" by blast
  obtain res where res: "res = findIntersection ord (recorded (V r)) (recorded (V 0)) (int_var L ''faults'' w)"
    by blast
  ultimately show ?thesis
    using record_and_compare [OF lib ok V res] V res by (intro disjI2 exI [of _ r] exI [of _ k] exI [of _ "From t"] exI [of _ V]) auto
qed blast

text \<open>A prevote of an honest sender: it is recorded, and in a later round compared with round 0.\<close>

lemma quorumCond_honest:
  assumes lib: "testlib_spec L \<alpha>" and c: "carries L w e m a t" and t: "MsgType t = Prevote" "Round t = Some r"
      "GetVoteBlockIDS T t = Some blk"
    and part: "lvars (\<alpha> (ctx w)) ''partition'' = Some (VPartition (Some P))" "part_is T P ''faulty'' fs"
      "From t \<notin> ID ` set fs"
    and f: "lvars (\<alpha> (ctx w)) ''faults'' = Some (VInt f)" and ok: "votes_ok \<alpha> w"
    and V: "V = votes_after (votes_at \<alpha> w) r (case blk of Some b \<Rightarrow> b | None \<Rightarrow> '''') (From t)"
    and res: "res = findIntersection ord (recorded (V r)) (recorded (V 0)) f"
  shows "\<exists>w'. quorumCond ord T L e w = Some (r \<noteq> 0 \<and> fst res, w') \<and>
    votes_ok \<alpha> w' \<and> votes_at \<alpha> w' = V \<and> tmsgs w' = tmsgs w \<and>
    lvars (\<alpha> (ctx w')) = (if r \<noteq> 0 \<and> fst res then (lvars (\<alpha> (ctx w)))(''QuorumIntersection'' \<mapsto> VBool True)
      else lvars (\<alpha> (ctx w))) \<and> lcap (\<alpha> (ctx w')) = lcap (\<alpha> (ctx w)) \<and> lreplicas (\<alpha> (ctx w')) = lreplicas (\<alpha> (ctx w)) \<and>
    (laborted (\<alpha> (ctx w')) \<longleftrightarrow> laborted (\<alpha> (ctx w)) \<or> r \<noteq> 0 \<and> snd res = Some errDifferentQuorum)"
proof -
  obtain p where p: "Partition_GetPart (Some P) ''faulty'' = Some (Some p)"
    "\<And>i. Part_Contains (Some p) i = Some (i \<in> ID ` set fs)"
    using part(2) by (auto simp: part_is_def)
  have reads: "sanity_getPartition L w = Some (Some P)" "int_var L ''faults'' w = f"
    using part(1) f by (simp_all add: sanity_getPartition_def int_var_def vars_specD [OF lib])
  have "quorumCond ord T L e w = do {
      (v, w1) \<leftarrow> record_prevote L r (case blk of Some b \<Rightarrow> b | None \<Rightarrow> '''') (From t) w;
      (if r \<noteq> 0 then compare_rounds ord L f v w1 else Some (False, w1)) }"
    using t p part(3) carriesD [OF c] by (simp add: quorumCond_def reads Let_def)
  with record_and_compare [OF lib ok V res] show ?thesis by (simp only:)
qed


section \<open>Runs\<close>

lemma common_ChangeVoteToNil_quiet:
  assumes "testlib_spec L \<alpha>" and "common_ChangeVoteToNil T J L e w = Some (out, w')"
  shows "keeps \<alpha> K w w'"
  using assms(2)
  by (auto simp: common_ChangeVoteToNil_def
      intro: frames keeps_trans [OF keeps_ChangeVoteToNil keeps_Marshal]
        keeps_replace_message [OF assms(1) keeps_ChangeVoteToNil]
      split: if_splits option.splits Option.bind_splits sum.splits prod.splits)

lemma sanity_round0_result:
  assumes lib: "testlib_spec L \<alpha>" and ok: "votes_ok \<alpha> w" and run: "sanity_round0 L e w = Some (out, w')"
  shows "votes_ok \<alpha> w' \<and> (\<forall>r. recorded (votes_at \<alpha> w' r) = recorded (votes_at \<alpha> w r)) \<and>
    \<alpha> (ctx w') = \<alpha> (ctx w)"
proof -
  obtain v w1 where w1: "getTestCaseOneVoteCount L 0 w = Some (v, w1)" "votes_ok \<alpha> w1"
    "vote_ref \<alpha> w1 0 = Some v" "vote_counts w1 v = Some (votes_at \<alpha> w 0)" "votes_at \<alpha> w1 = votes_at \<alpha> w"
    "ctx w1 = ctx w"
    using get_votes [OF lib ok, of 0] by (elim exE conjE) (rule that)
  let ?put = "\<lambda>ds. w1\<lparr>vote_counts := (vote_counts w1)(v \<mapsto> (votes_at \<alpha> w 0)\<lparr>delivered := ds\<rparr>)\<rparr>"
  have put: "votes_ok \<alpha> (?put ds)" "vote_ref \<alpha> (?put ds) 0 = Some v"
    "recorded (votes_at \<alpha> (?put ds) r) = recorded (votes_at \<alpha> w r)" "\<alpha> (ctx (?put ds)) = \<alpha> (ctx w)" for ds r
  proof -
    show "votes_ok \<alpha> (?put ds)" by (rule put_votes(1) [OF w1(2,3)])
    show "vote_ref \<alpha> (?put ds) 0 = Some v" by (simp only: put_votes(3) [OF w1(2,3)] w1(3))
    show "recorded (votes_at \<alpha> (?put ds) r) = recorded (votes_at \<alpha> w r)"
      unfolding put_votes(2) [OF w1(2,3)] w1(5) by simp
    show "\<alpha> (ctx (?put ds)) = \<alpha> (ctx w)" by (simp add: w1(6))
  qed
  from run consider "w' = w" | ds where "w' = ?put ds"
    | ds where "setTestCaseOneVoteCount L v 0 (?put ds) = Some w'"
    unfolding sanity_round0_def Let_def
    by (elim message_filterE) (auto simp: Option.bind_eq_Some_conv w1(1,4) split: if_split_asm)
  then show ?thesis
  proof cases
    case 1
    with ok show ?thesis by simp
  next
    case 2
    with put show ?thesis by simp
  next
    case 3
    with set_votes [OF lib put(1,2), of ds] put show ?thesis by auto
  qed
qed

lemma sanity_one_setup:
  assumes lib: "testlib_spec L \<alpha>" and run: "Setup T L [setupVoteCount L] w0 = Some w"
  shows "votes_ok \<alpha> w" and "votes_at \<alpha> w r = newTestCaseOneVoteCount"
    and "lvars (\<alpha> (ctx w)) ''faults'' = Some (VInt ((lcap (\<alpha> (ctx w0)) - 1) sdiv 3))"
    and "lcap (\<alpha> (ctx w)) = lcap (\<alpha> (ctx w0))"
proof -
  from run obtain p where w: "w = the (setupVoteCount L (set_var L ''partition'' (VPartition p)
      (the (addFN L w0))))"
    by (auto simp: Setup_def DefaultOptions_def common_partition_def addFN_def setupVoteCount_def Let_def
        Option.bind_eq_Some_conv)
  have "lvars (\<alpha> (ctx w)) ''voteCount'' = Some (VVoteCounts (next_addr w0))" "vote_maps w (next_addr w0) = Some []"
    by (simp_all add: w setupVoteCount_def addFN_def Let_def vars_specD [OF lib])
  then have "vote_ref \<alpha> w r = None" for r by (simp add: vote_ref_def)
  with \<open>lvars (\<alpha> (ctx w)) ''voteCount'' = _\<close> \<open>vote_maps w _ = _\<close>
  show "votes_ok \<alpha> w" "votes_at \<alpha> w r = newTestCaseOneVoteCount"
    by (simp_all add: votes_ok_def votes_at_def)
  show "lvars (\<alpha> (ctx w)) ''faults'' = Some (VInt ((lcap (\<alpha> (ctx w0)) - 1) sdiv 3))"
    "lcap (\<alpha> (ctx w)) = lcap (\<alpha> (ctx w0))"
    by (simp_all add: w setupVoteCount_def addFN_def Let_def vars_specD [OF lib] context_specD [OF lib])
qed

lemma IsVoteFromPart_same: "IsVoteFromPart T L l e w = Some (b, w') \<Longrightarrow> w' = w"
  unfolding IsVoteFromPart_def
  by (auto simp: Option.bind_eq_Some_conv split: option.split_asm if_split_asm)

text \<open>What success means: more than f replicas voted in a later round for a block they also voted
  for in round 0, a quorum of the later round.\<close>

definition intersected :: "int \<Rightarrow> (int \<Rightarrow> testCaseOneVoteCount) \<Rightarrow> bool" where
  "intersected f V \<longleftrightarrow> (\<exists>r k. r \<noteq> 0 \<and> 2 * f + 1 \<le> int (card (voters (recorded (V r)) k)) \<and>
     f < int (card (voters (recorded (V r)) k \<inter> voters (recorded (V 0)) k)))"

definition one_inv :: "('c \<Rightarrow> 'e lib_state) \<Rightarrow> int \<Rightarrow> labels \<Rightarrow> string \<Rightarrow> 'c world \<Rightarrow> bool" where
  "one_inv \<alpha> f lb s w \<longleftrightarrow> votes_ok \<alpha> w \<and> (\<forall>r. votes_wf (recorded (votes_at \<alpha> w r))) \<and>
     lvars (\<alpha> (ctx w)) ''faults'' = Some (VInt f) \<and>
     (s = SuccessStateLabel lb \<longrightarrow> lvars (\<alpha> (ctx w)) ''QuorumIntersection'' = Some (VBool True) \<and>
       intersected f (votes_at \<alpha> w))"

lemma one_inv_frame:
  assumes "one_inv \<alpha> f lb s w" and "keeps \<alpha> {} w w' \<or> scheduler_step \<alpha> w w'"
  shows "one_inv \<alpha> f lb s w'"
proof -
  have "lvars (\<alpha> (ctx w')) = lvars (\<alpha> (ctx w))" "vote_maps w' = vote_maps w" "vote_counts w' = vote_counts w"
    "next_addr w \<le> next_addr w'"
    using assms(2) by (auto simp: keeps_def scheduler_step_def)
  with votes_frame [of \<alpha> w' w] assms(1) show ?thesis by (simp add: one_inv_def)
qed

lemma one_inv_edge:
  assumes lib: "testlib_spec L \<alpha>" and inv: "one_inv \<alpha> f lb s w" and "0 \<le> f"
    and ord: "\<And>m. set (ord m) = set m" and run: "quorumCond ord T L e w = Some (b, w')"
    and "s \<noteq> SuccessStateLabel lb"
  shows "one_inv \<alpha> f lb (if b then SuccessStateLabel lb else s) w'"
proof -
  have ok: "votes_ok \<alpha> w" "\<And>r. votes_wf (recorded (votes_at \<alpha> w r))" "int_var L ''faults'' w = f"
    "lvars (\<alpha> (ctx w)) ''faults'' = Some (VInt f)"
    using inv by (auto simp: one_inv_def int_var_def vars_specD [OF lib])
  from quorumCond_result [OF lib ok(1) run] show ?thesis
  proof (elim disjE exE conjE)
    assume "b = False" "w' = w"
    with inv show ?thesis by simp
  next
    fix r k frm V
    assume V: "V = votes_after (votes_at \<alpha> w) r k frm" "votes_ok \<alpha> w'" "votes_at \<alpha> w' = V"
      and b: "b = (r \<noteq> 0 \<and> fst (findIntersection ord (recorded (V r)) (recorded (V 0)) (int_var L ''faults'' w)))"
      and vars: "lvars (\<alpha> (ctx w')) = (if b then (lvars (\<alpha> (ctx w)))(''QuorumIntersection'' \<mapsto> VBool True)
        else lvars (\<alpha> (ctx w)))"
    have wf: "votes_wf (recorded (V q))" for q
      using ok(2) by (simp add: V(1) votes_after_def recorded_wf)
    have "intersected f V" if b
    proof -
      from b that ok(3) have r: "r \<noteq> 0" "fst (findIntersection ord (recorded (V r)) (recorded (V 0)) f)" by auto
      then obtain k' where "k' \<in> quorums f (recorded (V r))"
        "f < int (card (voters (recorded (V r)) k' \<inter> voters (recorded (V 0)) k'))"
        using findIntersection_spec [of ord "recorded (V r)" "recorded (V 0)" f, OF ord wf wf \<open>0 \<le> f\<close>]
        by (auto split: if_splits)
      with r(1) show ?thesis by (auto simp: intersected_def quorums_def)
    qed
    with V(2,3) wf vars ok(4) assms(6) show ?thesis by (simp add: one_inv_def)
  qed
qed


end
