(* ===== verification/Sanity_Two.thy ===== *)
theory Sanity_Two
  imports Sanity_One
begin

text \<open>
  The tests \<open>testcases/sanity/two.go\<close> and \<open>three.go\<close>: the quota of votes they let through to a
  recipient, the changed proposal, and why their assertions cannot hold.
\<close>

section \<open>The quota of votes\<close>

text \<open>The two files have the same filter, up to the order of two reads.\<close>

lemma countAndDeliver_same: "sanity_three_countAndDeliver L = sanity_two_countAndDeliver L"
  by (intro ext) (simp only: sanity_three_countAndDeliver_def sanity_two_countAndDeliver_def Let_def)

lemma vote_count_key_inject [simp]: "vote_count_key i = vote_count_key j \<longleftrightarrow> i = j"
  by (simp add: vote_count_key_def)

lemma vote_count_key_faults [simp]: "vote_count_key i \<noteq> ''faults''" "''faults'' \<noteq> vote_count_key i"
  by (simp_all add: vote_count_key_def)

definition counted :: "('c \<Rightarrow> 'e lib_state) \<Rightarrow> 'c world \<Rightarrow> string \<Rightarrow> int" where
  "counted \<alpha> w i = (case lvars (\<alpha> (ctx w)) (vote_count_key i) of Some (VCounter c) \<Rightarrow> c | _ \<Rightarrow> 0)"

definition counters_ok :: "('c \<Rightarrow> 'e lib_state) \<Rightarrow> 'c world \<Rightarrow> bool" where
  "counters_ok \<alpha> w \<longleftrightarrow> (\<forall>i. lvars (\<alpha> (ctx w)) (vote_count_key i) = None \<or>
     (\<exists>c. lvars (\<alpha> (ctx w)) (vote_count_key i) = Some (VCounter c)))"

lemma count_and_deliver_step:
  assumes lib: "testlib_spec L \<alpha>" and c: "carries L w e m a t"
    and f: "lvars (\<alpha> (ctx w)) ''faults'' = Some (VInt f)" and ok: "counters_ok \<alpha> w"
  defines "g \<equiv> gate tally tally_up (\<lambda>_. 2 * f - 1) (To t) (counted \<alpha> w)"
  shows "\<exists>w'. sanity_two_countAndDeliver L e w = Some ((if fst g then [Some m] else [], True), w') \<and>
    counted \<alpha> w' = snd g \<and> counters_ok \<alpha> w' \<and> tmsgs w' = tmsgs w \<and>
    lmessage (\<alpha> (ctx w')) = lmessage (\<alpha> (ctx w)) \<and> lvars (\<alpha> (ctx w')) ''faults'' = Some (VInt f)"
proof -
  let ?k = "vote_count_key (To t)" and ?n = "counted \<alpha> w (To t)"
  let ?w1 = "ensure_counter L ?k w"
  have w1: "lvars (\<alpha> (ctx ?w1)) = (lvars (\<alpha> (ctx w)))(?k \<mapsto> VCounter ?n)" "tmsgs ?w1 = tmsgs w"
    "lmessage (\<alpha> (ctx ?w1)) = lmessage (\<alpha> (ctx w))"
    using ok by (auto simp: ensure_counter_def vars_specD [OF lib] counted_def counters_ok_def
      fun_upd_idem dest!: spec [of _ "To t"])
  have val: "Counter_Value L (ctx ?w1) ?k = Some ?n"
    by (simp add: vars_specD [OF lib] w1(1))
  have f1: "int_var L ''faults'' w = f" using f by (simp add: int_var_def vars_specD [OF lib])
  note unf = sanity_two_countAndDeliver_def carries_message_of [OF c] carriesD(4) [OF c] f1 val Let_def
  have other: "counted \<alpha> w' i = counted \<alpha> w i" if "lvars (\<alpha> (ctx w')) = (lvars (\<alpha> (ctx w)))(?k \<mapsto> x)" "i \<noteq> To t"
    for w' :: "'b world" and i x using that by (simp add: counted_def)
  show ?thesis
  proof (cases "?n < 2 * f - 1")
    case True
    obtain cx where cx: "Counter_Incr L (ctx ?w1) ?k = Some cx"
      "\<alpha> cx = (\<alpha> (ctx ?w1))\<lparr>lvars := (lvars (\<alpha> (ctx ?w1)))(?k \<mapsto> VCounter (?n + 1))\<rparr>"
      by (rule Counter_Incr_Some [OF lib, of "ctx ?w1" ?k ?n]) (simp_all add: w1(1))
    let ?w' = "?w1\<lparr>ctx := cx\<rparr>"
    have g: "g = (True, tally_up (To t) (counted \<alpha> w))"
      using True by (simp add: g_def gate_def tally_def)
    have "sanity_two_countAndDeliver L e w = Some (([Some m], True), ?w')"
      using True cx(1) by (simp add: unf)
    moreover have vars: "lvars (\<alpha> (ctx ?w')) = (lvars (\<alpha> (ctx w)))(?k \<mapsto> VCounter (?n + 1))"
      by (simp add: cx(2) w1(1))
    moreover have "counted \<alpha> ?w' = tally_up (To t) (counted \<alpha> w)"
    proof
      fix i show "counted \<alpha> ?w' i = tally_up (To t) (counted \<alpha> w) i"
        using other [OF vars, of i] vars by (cases "i = To t") (simp_all add: tally_up_def counted_def)
    qed
    ultimately show ?thesis
      using g ok f w1(2,3) cx(2) by (intro exI [of _ ?w']) (simp add: counters_ok_def)
  next
    case False
    have g: "g = (False, counted \<alpha> w)" using False by (simp add: g_def gate_def tally_def)
    have "sanity_two_countAndDeliver L e w = Some (([], True), ?w1)" using False by (simp add: unf)
    moreover have "counted \<alpha> ?w1 = counted \<alpha> w"
    proof
      fix i show "counted \<alpha> ?w1 i = counted \<alpha> w i"
        using other [OF w1(1), of i] w1(1) by (cases "i = To t") (simp_all add: counted_def)
    qed
    ultimately show ?thesis
      using g ok f w1 by (intro exI [of _ ?w1]) (simp add: counters_ok_def)
  qed
qed

text \<open>
  C12: the filters \<open>countAndDeliver\<close>, on any sequence of events with messages: they return on each,
  deliver exactly the first 2 f - 1 messages to each recipient and drop the others.
\<close>

theorem count_and_deliver_quota:
  assumes "testlib_spec L \<alpha>"
    and "count = sanity_two_countAndDeliver L \<or> count = sanity_three_countAndDeliver L"
    and "\<forall>e \<in> set es. \<exists>a t. carries L w e (msg e) a t \<and> To t = to e"
    and "lvars (\<alpha> (ctx w)) ''faults'' = Some (VInt f)"
    and "\<forall>i. lvars (\<alpha> (ctx w)) (vote_count_key i) = None"
  shows "\<exists>outs w'. outputs count es w = Some (outs, w') \<and> length outs = length es \<and>
    (\<forall>i < length es. outs ! i =
      (if int (count_list (map to (take i es)) (to (es ! i))) < 2 * f - 1
       then ([Some (msg (es ! i))], True) else ([], True)))"
proof -
  have same: "count = sanity_two_countAndDeliver L" using assms(2) by (auto simp: countAndDeliver_same)
  let ?I = "\<lambda>w1. counters_ok \<alpha> w1 \<and> tmsgs w1 = tmsgs w \<and> lmessage (\<alpha> (ctx w1)) = lmessage (\<alpha> (ctx w)) \<and>
    lvars (\<alpha> (ctx w1)) ''faults'' = Some (VInt f)"
  have new: "counters_ok \<alpha> w" using assms(5) by (simp add: counters_ok_def)
  have zero: "counted \<alpha> w = (\<lambda>_. 0)" using assms(5) by (simp add: counted_def fun_eq_iff)
  obtain bs s' where g: "gate_run tally tally_up (\<lambda>_. 2 * f - 1) (map to es) (counted \<alpha> w) = (bs, s')"
    by fastforce
  note bs = tallies.gate_answers [OF g]
  have step: "\<exists>w2. count e w1 =
      Some ((if fst (gate tally tally_up (\<lambda>_. 2 * f - 1) (to e) (counted \<alpha> w1)) then [Some (msg e)] else [], True), w2) \<and>
      counted \<alpha> w2 = snd (gate tally tally_up (\<lambda>_. 2 * f - 1) (to e) (counted \<alpha> w1)) \<and> ?I w2"
    if e: "e \<in> set es" and I: "?I w1" for e w1
  proof -
    from e assms(3) obtain a t where c: "carries L w e (msg e) a t" "To t = to e" by blast
    with I have c': "carries L w1 e (msg e) a t"
      using carries_keep [OF assms(1), of w1 w] by simp
    from I have "counters_ok \<alpha> w1" "lvars (\<alpha> (ctx w1)) ''faults'' = Some (VInt f)" by simp_all
    from count_and_deliver_step [OF assms(1) c' this(2,1)] I c(2) show ?thesis by (auto simp: same)
  qed
  have "\<exists>w'. outputs count es w =
      Some (map (\<lambda>(b, e). (if b then [Some (msg e)] else [], True)) (zip bs es), w') \<and> ?I w' \<and> counted \<alpha> w' = s'"
    by (rule outputs_gate [where E = "set es" and key = to]) (rule step, use new assms(4) g in simp_all)
  then obtain w' where run: "outputs count es w =
      Some (map (\<lambda>(b, e). (if b then [Some (msg e)] else [], True)) (zip bs es), w')"
    by blast
  have len: "length bs = length es" using bs by simp
  show ?thesis
  proof (intro exI conjI allI impI)
    show "outputs count es w =
      Some (map (\<lambda>(b, e). (if b then [Some (msg e)] else [], True)) (zip bs es), w')" by (rule run)
    show "length (map (\<lambda>(b, e). (if b then [Some (msg e)] else [], True)) (zip bs es)) = length es"
      using len by simp
    show "map (\<lambda>(b, e). (if b then [Some (msg e)] else [], True)) (zip bs es) ! i =
      (if int (count_list (map to (take i es)) (to (es ! i))) < 2 * f - 1
       then ([Some (msg (es ! i))], True) else ([], True))" if "i < length es" for i
      using bs that len by (simp add: zero tally_def take_map)
  qed
qed

section \<open>The assertions\<close>

text \<open>The variables the assertions read and no code of the two tests writes.\<close>

definition unwritten :: "string set" where
  "unwritten = {''Committed'', ''CommitBlockID'', ''CurRound''}"

definition dont_deliver_spec :: "('e, 'c) handler \<Rightarrow> bool" where
  "dont_deliver_spec h \<longleftrightarrow> (\<forall>e w. h e w = Some (([], True), w))"

lemma keys_written [simp]: "round_key r \<notin> unwritten" "replica_key f r \<notin> unwritten" "vote_count_key i \<notin> unwritten"
  by (simp_all add: unwritten_def round_key_def replica_key_def vote_count_key_def)

lemma ensure_counter_frame:
  assumes "testlib_spec L \<alpha>" and "key \<in> K"
  shows "writes_only \<alpha> K w (ensure_counter L key w)"
    and "lreplicas (\<alpha> (ctx (ensure_counter L key w))) = lreplicas (\<alpha> (ctx w))"
  using assms(2) by (auto simp: writes_only_def ensure_counter_def vars_specD [OF assms(1)])

lemma Counter_Incr_frame:
  assumes "testlib_spec L \<alpha>" and "Counter_Incr L (ctx w) key = Some c" and "key \<in> K"
  shows "writes_only \<alpha> K w (w\<lparr>ctx := c\<rparr>)" and "lreplicas (\<alpha> c) = lreplicas (\<alpha> (ctx w))"
  using vars_specD(9) [OF assms(1), of "ctx w" key] assms(2,3)
  by (auto simp: writes_only_def split: option.splits var_value.splits)

definition round_keys :: "string set" where
  "round_keys = range round_key \<union> {replica_key f q | f q. True}"

lemma round_keysI [simp]: "round_key r \<in> round_keys" "replica_key f r \<in> round_keys"
  by (auto simp: round_keys_def)

lemma RoundReached_frame:
  assumes lib: "testlib_spec L \<alpha>" and run: "RoundReached L r e w = Some (b, w')"
  shows "writes_only \<alpha> round_keys w w'" and "lreplicas (\<alpha> (ctx w')) = lreplicas (\<alpha> (ctx w))"
proof -
  let ?w1 = "ensure_counter L (round_key r) w"
  have w1: "writes_only \<alpha> round_keys w ?w1" "lreplicas (\<alpha> (ctx ?w1)) = lreplicas (\<alpha> (ctx w))"
    by (rule ensure_counter_frame [OF lib round_keysI(1)])+
  from run consider "w' = ?w1" | f q c where "w' = ensure_counter L (round_key q)
      (set_var L (replica_key f q) (VBool True) ?w1)\<lparr>ctx := c\<rparr>"
    "Counter_Incr L (ctx (ensure_counter L (round_key q) (set_var L (replica_key f q) (VBool True) ?w1)))
      (round_key q) = Some c"
    unfolding RoundReached_def Let_def
    by (auto simp: Option.bind_eq_Some_conv split: if_split_asm option.split_asm)
  then have "writes_only \<alpha> round_keys w w' \<and> lreplicas (\<alpha> (ctx w')) = lreplicas (\<alpha> (ctx w))"
  proof cases
    case 1
    with w1 show ?thesis by simp
  next
    case 2
    let ?w2 = "set_var L (replica_key f q) (VBool True) ?w1"
    have w2: "writes_only \<alpha> round_keys ?w1 ?w2" "lreplicas (\<alpha> (ctx ?w2)) = lreplicas (\<alpha> (ctx ?w1))"
      by (rule set_var_writes [OF lib]) (simp_all add: vars_specD [OF lib])
    let ?w3 = "ensure_counter L (round_key q) ?w2"
    have w3: "writes_only \<alpha> round_keys ?w2 ?w3" "lreplicas (\<alpha> (ctx ?w3)) = lreplicas (\<alpha> (ctx ?w2))"
      by (rule ensure_counter_frame [OF lib round_keysI(1)])+
    note w4 = Counter_Incr_frame [OF lib 2(2) round_keysI(1)]
    from writes_only_trans [OF writes_only_trans [OF writes_only_trans [OF w1(1) w2(1)] w3(1)] w4(1)]
    show ?thesis using w1(2) w2(2) w3(2) w4(2) by (simp add: 2(1))
  qed
  then show "writes_only \<alpha> round_keys w w'" "lreplicas (\<alpha> (ctx w')) = lreplicas (\<alpha> (ctx w))" by simp_all
qed

lemma unwritten_RoundReached:
  assumes "testlib_spec L \<alpha>" and "RoundReached L r e w = Some (b, w')"
  shows "writes_only \<alpha> (- unwritten) w w'"
  by (rule writes_only_mono [OF RoundReached_frame(1) [OF assms]]) (auto simp: round_keys_def)

lemma countAndDeliver_frame:
  assumes lib: "testlib_spec L \<alpha>" and run: "sanity_two_countAndDeliver L e w = Some (out, w')"
  shows "writes_only \<alpha> (range vote_count_key) w w'" and "lreplicas (\<alpha> (ctx w')) = lreplicas (\<alpha> (ctx w))"
proof -
  from run consider "w' = w" | i where "w' = ensure_counter L (vote_count_key i) w"
    | i c where "w' = ensure_counter L (vote_count_key i) w\<lparr>ctx := c\<rparr>"
      "Counter_Incr L (ctx (ensure_counter L (vote_count_key i) w)) (vote_count_key i) = Some c"
    unfolding sanity_two_countAndDeliver_def Let_def
    by (auto simp: Option.bind_eq_Some_conv split: if_split_asm option.split_asm)
  then have "writes_only \<alpha> (range vote_count_key) w w' \<and> lreplicas (\<alpha> (ctx w')) = lreplicas (\<alpha> (ctx w))"
  proof cases
    case 3
    have w1: "writes_only \<alpha> (range vote_count_key) w (ensure_counter L (vote_count_key i) w)"
      "lreplicas (\<alpha> (ctx (ensure_counter L (vote_count_key i) w))) = lreplicas (\<alpha> (ctx w))"
      by (rule ensure_counter_frame [OF lib rangeI])+
    note w2 = Counter_Incr_frame [OF lib 3(2) rangeI [of vote_count_key i]]
    from writes_only_trans [OF w1(1) w2(1)] w1(2) w2(2) show ?thesis by (simp add: 3(1))
  qed (auto simp: ensure_counter_frame [OF lib rangeI])
  then show "writes_only \<alpha> (range vote_count_key) w w'" "lreplicas (\<alpha> (ctx w')) = lreplicas (\<alpha> (ctx w))"
    by simp_all
qed

lemma unwritten_countAndDeliver:
  assumes "testlib_spec L \<alpha>" and "sanity_two_countAndDeliver L e w = Some (out, w')"
  shows "writes_only \<alpha> (- unwritten) w w'"
  by (rule writes_only_mono [OF countAndDeliver_frame(1) [OF assms]]) auto

lemma sanity_changeProposal_quiet:
  assumes "testlib_spec L \<alpha>" and "sanity_changeProposal T J L e w = Some (out, w')"
  shows "keeps \<alpha> K w w'"
  using assms(2)
  by (auto simp: sanity_changeProposal_def Let_def
      intro: frames keeps_trans [OF keeps_ChangeProposalBlockID keeps_Marshal]
        keeps_replace_message [OF assms(1) keeps_ChangeProposalBlockID]
      split: if_splits option.splits Option.bind_splits sum.splits prod.splits)

lemma unwritten_recordProposal:
  assumes "testlib_spec L \<alpha>" and "recordProposal T L e w = Some (out, w')"
  shows "writes_only \<alpha> (- unwritten) w w'"
proof -
  have "writes_only \<alpha> (- unwritten) w (set_var L ''oldProposal'' v w)" for v
    by (rule set_var_writes [OF assms(1)]) (simp add: unwritten_def)
  with assms(2) show ?thesis
    by (auto simp: recordProposal_def Option.bind_eq_Some_conv split: option.splits)
qed

lemma condition_same:
  "cond_IsMessageSend L e w = Some (b, w') \<Longrightarrow> w' = w"
  "IsCommit L e w = Some (b, w') \<Longrightarrow> w' = w"
  "IsMessageFromRound L r e w = Some (b, w') \<Longrightarrow> w' = w"
  "IsMessageType L ty e w = Some (b, w') \<Longrightarrow> w' = w"
  "IsVoteFromFaulty T L e w = Some (b, w') \<Longrightarrow> w' = w"
  by (auto simp: cond_IsMessageSend_def IsCommit_def IsMessageFromRound_def IsMessageType_def
      IsVoteFromFaulty_def Option.bind_eq_Some_conv dest: IsVoteFromPart_same split: option.splits event_type.splits)

lemma IsToPart_same: "IsToPart L l e w = Some (b, w') \<Longrightarrow> w' = w"
  unfolding IsToPart_def by (auto simp: Option.bind_eq_Some_conv split: option.split_asm)

lemma unwritten_Setup:
  assumes lib: "testlib_spec L \<alpha>" and run: "Setup T L opts w0 = Some w" and "opts = [] \<or> opts = [threeSetup T L]"
  shows "writes_only \<alpha> (- unwritten) w0 w"
  using run assms(3)
  by (auto simp: Setup_def DefaultOptions_def addFN_def common_partition_def threeSetup_def Let_def
      Option.bind_eq_Some_conv writes_only_def unwritten_def vars_specD [OF lib])

text \<open>
  C27: the assertions of the tests \<open>WrongProposal\<close> and \<open>LockedValueCheck\<close> read the variables
  \<open>Committed\<close> and \<open>CommitBlockID\<close>, which no code sets: in every schedule and every state, the
  successful one too, they are false.
\<close>

theorem sanity_assertions_fail:
  assumes "testlib_spec L \<alpha>" and "dont_deliver_spec dont_deliver"
    and "tc = sanity_TwoTestCase T J L lb \<or> tc = sanity_ThreeTestCase dont_deliver T J L lb"
    and "\<forall>k \<in> unwritten. lvars (\<alpha> (ctx w0)) k = None"
    and "run \<alpha> (StartStateLabel lb) tc w0 s w"
  shows "tc_assert tc s w = Some False"
proof -
  have "writes_only \<alpha> (- unwritten) w0 w"
    using assms(5)
  proof (induction rule: run_invariant)
    case (start w)
    then have "\<exists>opts. Setup T L opts w0 = Some w \<and> (opts = [] \<or> opts = [threeSetup T L])"
      using assms(3) by (auto simp: sanity_TwoTestCase_def sanity_ThreeTestCase_def)
    then show ?case using unwritten_Setup [OF assms(1)] by blast
  next
    case (edge s w c s' e b w')
    then have "c = IsCommit L \<or> (\<exists>r. c = RoundReached L r)"
      using assms(3) by (auto simp: sanity_TwoTestCase_def sanity_ThreeTestCase_def)
    then have "writes_only \<alpha> (- unwritten) w w'"
      using edge(3) unwritten_RoundReached [OF assms(1)] by (auto dest: condition_same(2))
    with edge(1) show ?case by (rule writes_only_trans)
  next
    case (guard s w g c e b w')
    then consider "c = cond_IsMessageSend L" | "c = IsVoteFromFaulty T L" | r where "c = IsMessageFromRound L r"
      | ty where "c = IsMessageType L ty" | l where "c = IsToPart L l"
      using assms(3) by (auto simp: sanity_TwoTestCase_def sanity_ThreeTestCase_def)
    then have "w' = w"
      using guard(4) by cases (auto dest: condition_same IsToPart_same)
    with guard(1) show ?case by simp
  next
    case (handler s w g e out w')
    then consider "common_ChangeVoteToNil T J L e w = Some (out, w')" | "sanity_two_countAndDeliver L e w = Some (out, w')"
      | "sanity_changeProposal T J L e w = Some (out, w')" | "recordProposal T L e w = Some (out, w')"
      | "dont_deliver e w = Some (out, w')"
      using assms(3) by (auto simp: sanity_TwoTestCase_def sanity_ThreeTestCase_def countAndDeliver_same)
    then have "writes_only \<alpha> (- unwritten) w w'"
    proof cases
      case 1
      then show ?thesis by (intro keeps_writes common_ChangeVoteToNil_quiet [OF assms(1)])
    next
      case 2
      then show ?thesis by (rule unwritten_countAndDeliver [OF assms(1)])
    next
      case 3
      then show ?thesis by (intro keeps_writes sanity_changeProposal_quiet [OF assms(1)])
    next
      case 4
      then show ?thesis by (rule unwritten_recordProposal [OF assms(1)])
    next
      case 5
      then show ?thesis using assms(2) by (simp add: dont_deliver_spec_def)
    qed
    with handler(1) show ?case by (rule writes_only_trans)
  next
    case (scheduler s w w')
    then show ?case using scheduler_step_writes writes_only_trans by blast
  qed
  then have "lvars (\<alpha> (ctx w)) ''Committed'' = None" "lvars (\<alpha> (ctx w)) ''CommitBlockID'' = None"
    using assms(4) writes_onlyD [of \<alpha> "- unwritten" w0 w] by (simp_all add: unwritten_def)
  then show ?thesis
    using assms(3) by (auto simp: sanity_TwoTestCase_def sanity_ThreeTestCase_def vars_specD [OF assms(1)])
qed

end
