(* ===== verification/Sanity_Returns.thy ===== *)
theory Sanity_Returns
  imports Sanity_Two Returns
begin

text \<open>
  The tests \<open>QuorumIntersection\<close>, \<open>WrongProposal\<close> and \<open>LockedValueCheck\<close> never panic with 3 f + 1
  usable replicas: in every state that a schedule can reach the conditions and the guards return on
  every event, and so does each handler on an event that its guards let through.
\<close>

section \<open>What the setups establish\<close>

definition parts_ok :: "'k tendermint \<Rightarrow> ('c \<Rightarrow> 'e lib_state) \<Rightarrow> replica list \<Rightarrow> 'c world \<Rightarrow> bool" where
  "parts_ok T \<alpha> rs w \<longleftrightarrow>
     (\<exists>P fs. lvars (\<alpha> (ctx w)) ''partition'' = Some (VPartition (Some P)) \<and> part_is T P ''faulty'' fs) \<and>
     (\<exists>f. lvars (\<alpha> (ctx w)) ''faults'' = Some (VInt f)) \<and> lreplicas (\<alpha> (ctx w)) = rs"

text \<open>The counters of \<open>RoundReached\<close> and of the recipients hold what their readers expect.\<close>

definition counts_ok :: "'k tendermint \<Rightarrow> ('c \<Rightarrow> 'e lib_state) \<Rightarrow> replica list \<Rightarrow> 'c world \<Rightarrow> bool" where
  "counts_ok T \<alpha> rs w \<longleftrightarrow> parts_ok T \<alpha> rs w \<and> round_counters_ok (\<alpha> (ctx w)) \<and> counters_ok \<alpha> w"

lemma parts_ok_frame:
  assumes "parts_ok T \<alpha> rs w" and "writes_only \<alpha> K w w'" and "''partition'' \<notin> K" and "''faults'' \<notin> K"
    and "lreplicas (\<alpha> (ctx w')) = lreplicas (\<alpha> (ctx w))"
  shows "parts_ok T \<alpha> rs w'"
  using assms by (simp add: parts_ok_def writes_only_def)

lemma vote_count_key_round_keys [simp]: "vote_count_key i \<notin> round_keys" "''partition'' \<notin> round_keys" "''faults'' \<notin> round_keys"
  by (auto simp: round_keys_def vote_count_key_def round_key_def replica_key_def)

lemma rounds_frame:
  assumes "round_counters_ok s" and "\<And>k. k \<in> round_keys \<Longrightarrow> lvars s' k = lvars s k"
  shows "round_counters_ok s'"
proof -
  have seen: "seen s' = seen s" by (rule ext) (simp add: seen_def assms(2))
  show ?thesis using assms unfolding round_counters_ok_def seen by simp
qed

lemma counts_ok_frame:
  assumes "counts_ok T \<alpha> rs w" and "writes_only \<alpha> K w w'" and "lreplicas (\<alpha> (ctx w')) = lreplicas (\<alpha> (ctx w))"
    and "K \<inter> (round_keys \<union> range vote_count_key \<union> {''partition'', ''faults''}) = {}"
  shows "counts_ok T \<alpha> rs w'"
proof -
  have same: "lvars (\<alpha> (ctx w')) k = lvars (\<alpha> (ctx w)) k" if "k \<in> round_keys \<union> range vote_count_key" for k
    by (rule writes_onlyD [OF assms(2)]) (use that assms(4) in blast)
  have "parts_ok T \<alpha> rs w'"
    by (rule parts_ok_frame [OF _ assms(2) _ _ assms(3)]) (use assms(1,4) in \<open>auto simp: counts_ok_def\<close>)
  moreover have "round_counters_ok (\<alpha> (ctx w'))"
    by (rule rounds_frame) (use assms(1) same in \<open>auto simp: counts_ok_def\<close>)
  moreover have "counters_ok \<alpha> w'"
    using assms(1) by (simp add: counts_ok_def counters_ok_def same)
  ultimately show ?thesis by (simp add: counts_ok_def)
qed

text \<open>A fresh context has no counters.\<close>

lemma fresh_counts:
  assumes "\<And>k. k \<notin> {''n'', ''faults'', ''partition''} \<Longrightarrow> lvars (\<alpha> (ctx w)) k = None"
  shows "round_counters_ok (\<alpha> (ctx w))" and "counters_ok \<alpha> w"
proof -
  have keys: "lvars (\<alpha> (ctx w)) (round_key q) = None" "lvars (\<alpha> (ctx w)) (replica_key f q) = None"
    "lvars (\<alpha> (ctx w)) (vote_count_key i) = None" for q f i
    by (rule assms, simp add: round_key_def replica_key_def vote_count_key_def)+
  then show "round_counters_ok (\<alpha> (ctx w))" by (simp add: round_counters_ok_def seen_def)
  from keys(3) show "counters_ok \<alpha> w" by (simp add: counters_ok_def)
qed

lemma common_setup_ok:
  assumes lib: "testlib_spec L \<alpha>" and fit: "replicas_fit T (lreplicas (\<alpha> (ctx w0))) (lcap (\<alpha> (ctx w0)))"
  shows "\<exists>w. Setup T L [] w0 = Some w \<and> parts_ok T \<alpha> (lreplicas (\<alpha> (ctx w0))) w \<and>
    lcap (\<alpha> (ctx w)) = lcap (\<alpha> (ctx w0)) \<and>
    (\<forall>k. k \<notin> {''n'', ''faults'', ''partition''} \<longrightarrow> lvars (\<alpha> (ctx w)) k = lvars (\<alpha> (ctx w0)) k)"
proof -
  let ?rs = "lreplicas (\<alpha> (ctx w0))" and ?f = "(lcap (\<alpha> (ctx w0)) - 1) sdiv 3"
  have fits: "store_ok T ?rs (lcap (\<alpha> (ctx w0)))" "4 \<le> length ?rs" "length ?rs mod 3 = 1"
    using fit by (auto simp: replicas_fit_def)
  obtain w p where w: "Setup T L [] w0 = Some w" "byzantine_parts T ?rs 1 ?f ''h'' ''faulty'' ''rest'' p"
    "\<alpha> (ctx w) = (\<alpha> (ctx w0))\<lparr>lvars := (lvars (\<alpha> (ctx w0)))(''n'' \<mapsto> VInt (lcap (\<alpha> (ctx w0))),
      ''faults'' \<mapsto> VInt ?f, ''partition'' \<mapsto> VPartition p)\<rparr>"
    using Setup_result [OF lib fits(1)] by blast
  with fits(2,3) show ?thesis by (auto simp: byzantine_parts_def parts_ok_def)
qed

lemma three_setup_ok:
  assumes lib: "testlib_spec L \<alpha>" and fit: "replicas_fit T (lreplicas (\<alpha> (ctx w))) (lcap (\<alpha> (ctx w)))"
    and "lvars (\<alpha> (ctx w)) ''faults'' = Some (VInt f)"
  shows "\<exists>w'. threeSetup T L w = Some w' \<and> parts_ok T \<alpha> (lreplicas (\<alpha> (ctx w))) w' \<and> writes_only \<alpha> {''partition''} w w'"
proof -
  let ?rs = "lreplicas (\<alpha> (ctx w))" and ?cap = "lcap (\<alpha> (ctx w))"
  let ?f = "(?cap - 1) sdiv 3"
  have fits: "store_ok T ?rs ?cap" "4 \<le> length ?rs" "length ?rs mod 3 = 1" "?cap = int (length ?rs)"
    using fit by (auto simp: replicas_fit_def store_ok_def)
  have "?f = (?cap - 1) div 3" by (rule sdiv_nonneg) (use fits(2,4) in linarith)
  moreover have "int (length ?rs) mod 3 = 1" using fits(3) by presburger
  moreover have "0 < f + 1 \<and> 0 < 2 * f - 1 \<and> (f + 1) + (2 * f - 1) + 1 = n"
    if "f = (n - 1) div 3" "4 \<le> n" "n mod 3 = 1" for f n :: int
    using that by presburger
  ultimately have sizes: "0 < ?f + 1" "0 < 2 * ?f - 1" "(?f + 1) + (2 * ?f - 1) + 1 = ?cap"
    using fits(2,4) by auto
  obtain P where P: "CreatePartition T (NewGenericPartitioner ?cap ?rs) [?f + 1, 2 * ?f - 1, 1]
      [''toLock'', ''toNotLock'', ''faulty''] = Some (Inr P)"
    "part_is T P ''faulty'' (drop (nat (?f + 1) + nat (2 * ?f - 1)) ?rs)"
    using three_parts [OF fits(1) sizes(1,2) zero_less_one sizes(3), of "''toLock''" "''toNotLock''" "''faulty''"] by auto
  let ?w' = "set_var L ''partition'' (VPartition (Some P)) w"
  have "threeSetup T L w = Some ?w'"
    using P(1) by (simp add: threeSetup_def create_partition_def context_specD [OF lib] Let_def Partition_String_def)
  moreover have "parts_ok T \<alpha> ?rs ?w'" using P(2) assms(3) by (auto simp: parts_ok_def vars_specD [OF lib])
  ultimately show ?thesis using set_var_writes [OF lib, of "''partition''" "{''partition''}"] by blast
qed

section \<open>Conditions and guards return\<close>

lemma guards_return:
  assumes lib: "testlib_spec L \<alpha>" and ok: "parts_ok T \<alpha> rs w" and pool: "pool_ok L w"
  shows "IsVoteFromFaulty T L e w \<noteq> None" and "IsMessageFromRound L r e w \<noteq> None"
    and "IsMessageType L ty e w \<noteq> None" and "IsToPart L l e w \<noteq> None"
    and "IsCommit L e w \<noteq> None" and "cond_IsMessageSend L e w \<noteq> None"
proof -
  obtain P fs where P: "lvars (\<alpha> (ctx w)) ''partition'' = Some (VPartition (Some P))" "part_is T P ''faulty'' fs"
    using ok by (auto simp: parts_ok_def)
  have "IsVoteFromFaulty T L e w \<noteq> None \<and> IsMessageFromRound L r e w \<noteq> None \<and> IsMessageType L ty e w \<noteq> None \<and>
    IsToPart L l e w \<noteq> None"
  proof (cases "GetMessageFromEvent L e w")
    case None
    then show ?thesis
      by (auto simp: IsVoteFromFaulty_def IsVoteFromPart_def IsMessageFromRound_def IsMessageType_def IsToPart_def
          message_of_def GetMessageFromEvent_def ex_bool split: option.splits)
  next
    case (Some a)
    obtain m t q where t: "carries L w e m a t" "Round t = Some q" by (rule pool_event [OF pool Some])
    note cd = carriesD [OF t(1)]
    have "IsVoteFromFaulty T L e w \<noteq> None"
      using is_vote_from_part [OF lib cd(3,4,5) P] by simp
    then show ?thesis
      using cd t(2) P(1)
      by (simp add: IsMessageFromRound_def IsMessageType_def IsToPart_def common_getPartition_def vars_specD [OF lib]
          Partition_GetPart_def Part_Contains_def ex_bool split: option.split)
  qed
  then show "IsVoteFromFaulty T L e w \<noteq> None" "IsMessageFromRound L r e w \<noteq> None" "IsMessageType L ty e w \<noteq> None"
    "IsToPart L l e w \<noteq> None" by simp_all
  show "IsCommit L e w \<noteq> None" "cond_IsMessageSend L e w \<noteq> None"
    by (simp_all add: IsCommit_def cond_IsMessageSend_def ex_bool split: event_type.split)
qed

lemma quorumCond_returns:
  assumes lib: "testlib_spec L \<alpha>" and parts: "parts_ok T \<alpha> rs w" and ok: "votes_ok \<alpha> w" and pool: "pool_ok L w"
  shows "quorumCond ord T L e w \<noteq> None"
proof (cases "GetMessageFromEvent L e w")
  case None
  then show ?thesis by (simp add: quorumCond_def)
next
  case (Some a)
  obtain m t r where t: "carries L w e m a t" "Round t = Some r" by (rule pool_event [OF pool Some])
  note cd = carriesD [OF t(1)]
  obtain P fs f where P: "lvars (\<alpha> (ctx w)) ''partition'' = Some (VPartition (Some P))" "part_is T P ''faulty'' fs"
    and f: "lvars (\<alpha> (ctx w)) ''faults'' = Some (VInt f)"
    using parts by (auto simp: parts_ok_def)
  show ?thesis
  proof (cases "MsgType t = Prevote \<and> From t \<notin> ID ` set fs")
    case True
    then obtain b where "GetVoteBlockIDS T t = Some b" using vote_block_total [OF cd(5)] by blast
    with True quorumCond_honest [OF lib t(1) _ t(2) _ P _ f ok refl refl] show ?thesis by blast
  next
    case False
    obtain p where p: "Partition_GetPart (Some P) ''faulty'' = Some (Some p)"
      "\<And>i. Part_Contains (Some p) i = Some (i \<in> ID ` set fs)"
      using P(2) by (auto simp: part_is_def)
    show ?thesis
      using False P(1) p cd(4) by (auto simp: quorumCond_def Some sanity_getPartition_def vars_specD [OF lib] Let_def)
  qed
qed

section \<open>Handlers return\<close>

lemma common_ChangeVoteToNil_returns:
  assumes lib: "testlib_spec L \<alpha>" and ok: "parts_ok T \<alpha> rs w" and fit: "replicas_fit T rs cap" and pool: "pool_ok L w"
  shows "common_ChangeVoteToNil T J L e w \<noteq> None"
proof (cases "IsMessageSend L e \<and> GetMessageFromEvent L e w \<noteq> None")
  case False
  then show ?thesis
    by (auto simp: common_ChangeVoteToNil_def GetMessageFromEvent_def split: option.splits)
next
  case send: True
  then obtain a where "GetMessageFromEvent L e w = Some a" by blast
  then obtain m t r where t: "carries L w e m a t" "Round t = Some r" by (rule pool_event [OF pool])
  note cd = carriesD [OF t(1)]
  show ?thesis
  proof (cases "MsgType t = Prevote \<or> MsgType t = Precommit")
    case False
    then show ?thesis using send cd by (simp add: common_ChangeVoteToNil_def)
  next
    case True
    then obtain v where "inner_vote t = Some v" using well_typed_vote [OF cd(5)] by blast
    then have val: "GetVoteValidator t = Some (Some (pv_ValidatorAddress v))"
      using True inner_vote_GetVote by (auto simp: GetVoteValidator_def)
    have rs: "Replicas_Iter L (ctx w) = rs" using ok by (simp add: parts_ok_def context_specD [OF lib])
    obtain res where res: "find_validator T rs (pv_ValidatorAddress v) = Some res"
      using find_validator_total [of rs T "pv_ValidatorAddress v"] fit by (auto simp: replicas_fit_def store_ok_def)
    note unf = common_ChangeVoteToNil_def cd(1,2,4) val rs res
    show ?thesis
    proof (cases res)
      case None
      then show ?thesis using send True by (auto simp: unf)
    next
      case (Some rep)
      have "rep \<in> set rs" by (rule find_validator_Some(1) [OF res [unfolded Some]])
      with fit have "usable T rep" "Info rep ''chain_id'' \<noteq> Some InfoOther" by (auto simp: replicas_fit_def store_ok_def)
      from forge_and_marshal [OF cd(5,4) this, of nil_block_id J] obtain x err w1 where
        cv: "ChangeVoteToNil T (Some rep) a w = Some ((x, err), w1)"
        "err = None \<longrightarrow> x = Some a \<and> (\<exists>out w2. Marshal T J a w1 = Some (out, w2))"
        unfolding ChangeVoteToNil_def by blast
      show ?thesis
        using send True cv Some by (cases err) (auto simp: unf split: sum.split prod.split)
    qed
  qed
qed

lemma countAndDeliver_returns:
  assumes lib: "testlib_spec L \<alpha>" and ok: "parts_ok T \<alpha> rs w" "counters_ok \<alpha> w" and pool: "pool_ok L w"
  shows "\<exists>out w'. sanity_two_countAndDeliver L e w = Some (out, w') \<and> counters_ok \<alpha> w'"
proof (cases "message_of L e w")
  case None
  then show ?thesis using ok(2) by (simp add: sanity_two_countAndDeliver_def ex_bool)
next
  case (Some ma)
  obtain m a where ma: "ma = (m, a)" by fastforce
  obtain t r where t: "carries L w e m a t" using pool_message [OF pool] Some ma by metis
  obtain f where "lvars (\<alpha> (ctx w)) ''faults'' = Some (VInt f)" using ok(1) by (auto simp: parts_ok_def)
  from count_and_deliver_step [OF lib t this ok(2)] show ?thesis by blast
qed

lemma sanity_round0_returns:
  assumes lib: "testlib_spec L \<alpha>" and parts: "parts_ok T \<alpha> rs w" and ok: "votes_ok \<alpha> w" and pool: "pool_ok L w"
  shows "sanity_round0 L e w \<noteq> None"
proof (cases "message_of L e w")
  case None
  then show ?thesis by (simp add: sanity_round0_def)
next
  case (Some ma)
  obtain m a where ma: "ma = (m, a)" by fastforce
  obtain t r where t: "carries L w e m a t" "Round t = Some r" using pool_message [OF pool] Some ma by metis
  obtain P fs f where P: "lvars (\<alpha> (ctx w)) ''partition'' = Some (VPartition (Some P))" "part_is T P ''faulty'' fs"
    and f: "lvars (\<alpha> (ctx w)) ''faults'' = Some (VInt f)"
    using parts by (auto simp: parts_ok_def)
  show ?thesis
  proof (cases "MsgType t = Precommit \<and> r = 0")
    case True
    from sanity_round0_step [OF lib t(1) _ _ P f ok] True t(2) show ?thesis by auto
  next
    case False
    then show ?thesis using carries_message_of [OF t(1)] carriesD(4) [OF t(1)] t(2) by (auto simp: sanity_round0_def)
  qed
qed

lemma recordProposal_returns:
  assumes "pool_ok L w"
  shows "recordProposal T L e w \<noteq> None"
proof (cases "message_of L e w")
  case None
  then show ?thesis by (simp add: recordProposal_def)
next
  case (Some ma)
  obtain m a where ma: "ma = (m, a)" by fastforce
  obtain t r where t: "carries L w e m a t" using pool_message [OF assms] Some ma by metis
  have "\<exists>b. GetProposalBlockIDS T t = Some b"
    using proposal_block_total [OF carriesD(5) [OF t]]
    by (cases "MsgType t = Proposal") (auto simp: GetProposalBlockIDS_def GetProposalBlockID_def)
  then show ?thesis using carries_message_of [OF t] carriesD(4) [OF t] by (auto simp: recordProposal_def)
qed

text \<open>The changed proposal: only a proposal is safe to change, and only with a registered sender.\<close>

lemma changeProposal_returns:
  assumes lib: "testlib_spec L \<alpha>" and ok: "parts_ok T \<alpha> rs w" and fit: "replicas_fit T rs cap" and heard: "heard L rs w"
    and ty: "IsMessageType L Proposal e w = Some (True, w')"
  shows "sanity_changeProposal T J L e w \<noteq> None"
proof (cases "message_of L e w")
  case None
  then show ?thesis by (simp add: sanity_changeProposal_def)
next
  case (Some ma)
  obtain m a where ma: "ma = (m, a)" by fastforce
  obtain t r where t: "carries L w e m a t" "From t \<in> ID ` set rs" using heard_message [OF heard] Some ma by metis
  note cd = carriesD [OF t(1)]
  have "MsgType t = Proposal" using ty cd by (simp add: IsMessageType_def)
  then obtain q where q: "GetProposal (Data t) = Some q" using well_typed_proposal [OF cd(5)] by blast
  obtain rep where rep: "rep \<in> set rs" "ID rep = From t" using t(2) by auto
  have "lreplicas (\<alpha> (ctx w)) = rs" using ok by (simp add: parts_ok_def)
  note found = replica_found [OF lib this fit rep(1), unfolded rep(2)]
  obtain pk where pk: "GetPrivKey T (Some rep) = Some pk" "pk \<noteq> Inr None"
    using GetPrivKey_Some found(2) unfolding usable_def by metis
  have "\<exists>cid. GetChainID (Some rep) = Some cid"
    using found(3) by (auto simp: GetChainID_def split: option.split info_value.split)
  then obtain cid where cid: "GetChainID (Some rep) = Some cid" by blast
  have "\<exists>res err w1. ChangeProposalBlockID T (Some rep) a w = Some ((res, err), w1) \<and>
      (err = None \<longrightarrow> res = Some a \<and> (\<exists>t. tmsgs w1 a = Some t))"
    using pk cid cd(4) q
    by (cases pk; cases cid)
      (auto simp: ChangeProposalBlockID_def Let_def put_proposal_def put_tmsg_def split: sum.split)
  then obtain res err w1 where cp: "ChangeProposalBlockID T (Some rep) a w = Some ((res, err), w1)"
    "err = None \<longrightarrow> res = Some a \<and> (\<exists>out w2. Marshal T J a w1 = Some (out, w2))"
    using Marshal_total by blast
  show ?thesis
    using cp found(1) carries_message_of [OF t(1)] cd(4)
    by (cases err) (auto simp: sanity_changeProposal_def Let_def split: sum.split prod.split)
qed

section \<open>Runs of the test of quorum intersection\<close>

lemma one_ok_setup:
  assumes lib: "testlib_spec L \<alpha>" and fit: "replicas_fit T (lreplicas (\<alpha> (ctx w0))) (lcap (\<alpha> (ctx w0)))"
  shows "\<exists>w. Setup T L [setupVoteCount L] w0 = Some w \<and> parts_ok T \<alpha> (lreplicas (\<alpha> (ctx w0))) w \<and> votes_ok \<alpha> w"
proof -
  obtain w1 where w1: "Setup T L [] w0 = Some w1" "parts_ok T \<alpha> (lreplicas (\<alpha> (ctx w0))) w1"
    using common_setup_ok [OF lib fit] by blast
  obtain w2 where w2: "setupVoteCount L w1 = Some w2" "lreplicas (\<alpha> (ctx w2)) = lreplicas (\<alpha> (ctx w1))"
    "writes_only \<alpha> {''voteCount''} w1 w2"
    by (simp add: setupVoteCount_def Let_def vars_specD [OF lib] writes_only_def)
  have run: "Setup T L [setupVoteCount L] w0 = Some w2"
    using w1(1) w2(1) by (subst Setup_options) simp
  moreover have "parts_ok T \<alpha> (lreplicas (\<alpha> (ctx w0))) w2"
    by (rule parts_ok_frame [OF w1(2) w2(3) _ _ w2(2)]) simp_all
  ultimately show ?thesis using sanity_one_setup(1) [OF lib run] by blast
qed

lemma one_ok_run:
  assumes lib: "testlib_spec L \<alpha>" and fit: "replicas_fit T (lreplicas (\<alpha> (ctx w0))) (lcap (\<alpha> (ctx w0)))"
    and run: "run \<alpha> start (sanity_OneTestCase ord T J L lb) w0 s w"
  shows "parts_ok T \<alpha> (lreplicas (\<alpha> (ctx w0))) w \<and> votes_ok \<alpha> w"
proof -
  let ?rs = "lreplicas (\<alpha> (ctx w0))"
  have quiet: "parts_ok T \<alpha> ?rs w' \<and> votes_ok \<alpha> w'"
    if ok: "parts_ok T \<alpha> ?rs w \<and> votes_ok \<alpha> w" and k: "keeps \<alpha> {} w w' \<or> scheduler_step \<alpha> w w'" for w w'
  proof -
    have same: "lvars (\<alpha> (ctx w')) = lvars (\<alpha> (ctx w))" "lreplicas (\<alpha> (ctx w')) = lreplicas (\<alpha> (ctx w))"
      "vote_maps w' = vote_maps w" "vote_counts w' = vote_counts w" "next_addr w \<le> next_addr w'"
      using k by (auto simp: keeps_def scheduler_step_def)
    with ok votes_frame(3) [of \<alpha> w' w] show ?thesis by (simp add: parts_ok_def)
  qed
  from run show ?thesis
  proof (induction rule: run_invariant)
    case (start w)
    then show ?case using one_ok_setup [OF lib fit] by (auto simp: sanity_OneTestCase_def)
  next
    case (edge s w c s' e b w')
    then have ok: "parts_ok T \<alpha> ?rs w" "votes_ok \<alpha> w" and "quorumCond (ord e w) T L e w = Some (b, w')"
      by (auto simp: sanity_OneTestCase_def)
    from quorumCond_result [OF lib ok(2) this(3)] ok have "votes_ok \<alpha> w'"
      "\<And>k. k \<noteq> ''QuorumIntersection'' \<Longrightarrow> lvars (\<alpha> (ctx w')) k = lvars (\<alpha> (ctx w)) k"
      "lreplicas (\<alpha> (ctx w')) = lreplicas (\<alpha> (ctx w))"
      by (auto split: if_splits)
    with ok(1) show ?case by (simp add: parts_ok_def)
  next
    case (guard s w g c e b w')
    then have "w' = w"
      by (auto simp: sanity_OneTestCase_def dest: condition_same)
    with guard(1) show ?case by simp
  next
    case (handler s w g e out w')
    then consider "common_ChangeVoteToNil T J L e w = Some (out, w')" | "sanity_round0 L e w = Some (out, w')"
      by (auto simp: sanity_OneTestCase_def)
    then show ?case
    proof cases
      case 1
      then show ?thesis using quiet [OF handler(1)] common_ChangeVoteToNil_quiet [OF lib] by blast
    next
      case 2
      with sanity_round0_result [OF lib _ 2] handler(1) show ?thesis by (simp add: parts_ok_def)
    qed
  next
    case (scheduler s w w')
    then show ?case using quiet by blast
  qed
qed

section \<open>Runs of the tests of a wrong proposal and of a locked value\<close>

lemma two_ok_setup:
  assumes lib: "testlib_spec L \<alpha>" and fit: "replicas_fit T (lreplicas (\<alpha> (ctx w0))) (lcap (\<alpha> (ctx w0)))"
    and fresh: "lvars (\<alpha> (ctx w0)) = Map.empty" and opts: "opts = [] \<or> opts = [threeSetup T L]"
  shows "\<exists>w. Setup T L opts w0 = Some w \<and> counts_ok T \<alpha> (lreplicas (\<alpha> (ctx w0))) w"
proof -
  obtain w1 where w1: "Setup T L [] w0 = Some w1" "parts_ok T \<alpha> (lreplicas (\<alpha> (ctx w0))) w1"
    "lcap (\<alpha> (ctx w1)) = lcap (\<alpha> (ctx w0))"
    "\<And>k. k \<notin> {''n'', ''faults'', ''partition''} \<Longrightarrow> lvars (\<alpha> (ctx w1)) k = None"
    using common_setup_ok [OF lib fit] fresh by auto
  show ?thesis
  proof (cases "opts = []")
    case True
    with w1 fresh_counts [of \<alpha> w1] show ?thesis by (simp add: counts_ok_def)
  next
    case False
    with opts have three: "opts = [threeSetup T L]" by blast
    obtain f where f: "lvars (\<alpha> (ctx w1)) ''faults'' = Some (VInt f)" and rs: "lreplicas (\<alpha> (ctx w1)) = lreplicas (\<alpha> (ctx w0))"
      using w1(2) by (auto simp: parts_ok_def)
    obtain w2 where w2: "threeSetup T L w1 = Some w2" "parts_ok T \<alpha> (lreplicas (\<alpha> (ctx w0))) w2"
      "writes_only \<alpha> {''partition''} w1 w2"
      using three_setup_ok [OF lib _ f] fit rs w1(3) by auto
    have "lvars (\<alpha> (ctx w2)) k = None" if "k \<notin> {''n'', ''faults'', ''partition''}" for k
      using writes_onlyD [OF w2(3), of k] w1(4) [OF that] that by simp
    with fresh_counts [of \<alpha> w2] w2 w1(1) show ?thesis
      unfolding three by (subst Setup_options) (simp add: counts_ok_def)
  qed
qed

lemma counters_ok_Incr:
  assumes lib: "testlib_spec L \<alpha>" and "counters_ok \<alpha> w" and "Counter_Incr L (ctx w) key = Some c"
  shows "counters_ok \<alpha> (w\<lparr>ctx := c\<rparr>)"
proof -
  obtain n where "lvars (\<alpha> c) = (lvars (\<alpha> (ctx w)))(key \<mapsto> VCounter n)"
    using vars_specD(9) [OF lib, of "ctx w" key] assms(3) by (auto split: option.splits var_value.splits)
  with assms(2) show ?thesis by (simp add: counters_ok_def)
qed

lemma counts_ok_delivered:
  assumes lib: "testlib_spec L \<alpha>" and ok: "counts_ok T \<alpha> rs w"
    and run: "sanity_two_countAndDeliver L e w = Some (out, w')"
  shows "counts_ok T \<alpha> rs w'"
proof -
  note frame = countAndDeliver_frame [OF lib run]
  have "parts_ok T \<alpha> rs w'"
    by (rule parts_ok_frame [OF _ frame(1) _ _ frame(2)]) (use ok in \<open>auto simp: counts_ok_def vote_count_key_def\<close>)
  moreover have "round_counters_ok (\<alpha> (ctx w'))"
  proof (rule rounds_frame)
    show "round_counters_ok (\<alpha> (ctx w))" using ok by (simp add: counts_ok_def)
    show "lvars (\<alpha> (ctx w')) k = lvars (\<alpha> (ctx w)) k" if "k \<in> round_keys" for k
      by (rule writes_onlyD [OF frame(1)]) (use that vote_count_key_round_keys in blast)
  qed
  moreover have ensured: "counters_ok \<alpha> (ensure_counter L key w)" for key
    using ok by (simp add: counts_ok_def counters_ok_def ensure_counter_def vars_specD [OF lib])
  moreover have "counters_ok \<alpha> w'"
  proof -
    have "counters_ok \<alpha> w" using ok by (simp add: counts_ok_def)
    with run show ?thesis
      unfolding sanity_two_countAndDeliver_def Let_def
      by (auto simp: Option.bind_eq_Some_conv split: if_split_asm option.split_asm intro!: counters_ok_Incr [OF lib] ensured)
  qed
  ultimately show ?thesis by (simp add: counts_ok_def)
qed

lemma counts_ok_recorded:
  assumes lib: "testlib_spec L \<alpha>" and ok: "counts_ok T \<alpha> rs w" and run: "recordProposal T L e w = Some (out, w')"
  shows "counts_ok T \<alpha> rs w'"
proof -
  have "writes_only \<alpha> {''oldProposal''} w w' \<and> lreplicas (\<alpha> (ctx w')) = lreplicas (\<alpha> (ctx w))"
    using run set_var_writes [OF lib, of "''oldProposal''" "{''oldProposal''}"]
    by (auto simp: recordProposal_def Option.bind_eq_Some_conv vars_specD [OF lib] split: option.splits)
  then show ?thesis
    by (intro counts_ok_frame [OF ok, of "{''oldProposal''}"])
      (auto simp: round_keys_def round_key_def replica_key_def vote_count_key_def)
qed

lemma two_ok_run:
  assumes lib: "testlib_spec L \<alpha>" and fit: "replicas_fit T (lreplicas (\<alpha> (ctx w0))) (lcap (\<alpha> (ctx w0)))"
    and fresh: "lvars (\<alpha> (ctx w0)) = Map.empty" and dont: "dont_deliver_spec dont_deliver"
    and tc: "tc = sanity_TwoTestCase T J L lb \<or> tc = sanity_ThreeTestCase dont_deliver T J L lb"
    and run: "run \<alpha> start tc w0 s w"
  shows "counts_ok T \<alpha> (lreplicas (\<alpha> (ctx w0))) w"
proof -
  let ?ok = "counts_ok T \<alpha> (lreplicas (\<alpha> (ctx w0)))"
  have quiet: "?ok w'" if "?ok w" "keeps \<alpha> {} w w' \<or> scheduler_step \<alpha> w w'" for w w'
  proof (rule counts_ok_frame [OF that(1)])
    show "writes_only \<alpha> {} w w'" "lreplicas (\<alpha> (ctx w')) = lreplicas (\<alpha> (ctx w))"
      using that(2) by (auto simp: keeps_def scheduler_step_def writes_only_def)
  qed simp
  from run show ?thesis
  proof (induction rule: run_invariant)
    case (start w)
    then have "\<exists>opts. Setup T L opts w0 = Some w \<and> (opts = [] \<or> opts = [threeSetup T L])"
      using tc by (auto simp: sanity_TwoTestCase_def sanity_ThreeTestCase_def)
    then show ?case using two_ok_setup [OF lib fit fresh] by fastforce
  next
    case (edge s w c s' e b w')
    then consider "c = IsCommit L" | r where "c = RoundReached L r"
      using tc by (auto simp: sanity_TwoTestCase_def sanity_ThreeTestCase_def)
    then show ?case
    proof cases
      case 1
      with edge(1,3) show ?thesis by (auto dest: condition_same(2))
    next
      case 2
      have r: "RoundReached L r e w = Some (b, w')" using edge(3) 2 by simp
      note frame = RoundReached_frame [OF lib r]
      have "parts_ok T \<alpha> (lreplicas (\<alpha> (ctx w0))) w'"
        by (rule parts_ok_frame [OF _ frame(1) _ _ frame(2)]) (use edge(1) in \<open>simp_all add: counts_ok_def\<close>)
      moreover have "round_counters_ok (\<alpha> (ctx w'))"
        by (rule RoundReached_counters [OF lib _ r]) (use edge(1) in \<open>simp add: counts_ok_def\<close>)
      moreover have "counters_ok \<alpha> w'"
        using edge(1) by (simp add: counts_ok_def counters_ok_def writes_onlyD [OF frame(1)])
      ultimately show ?thesis by (simp add: counts_ok_def)
    qed
  next
    case (guard s w g c e b w')
    then consider "c = cond_IsMessageSend L" | "c = IsVoteFromFaulty T L" | r where "c = IsMessageFromRound L r"
      | ty where "c = IsMessageType L ty" | l where "c = IsToPart L l"
      using tc by (auto simp: sanity_TwoTestCase_def sanity_ThreeTestCase_def)
    then have "w' = w"
      using guard(4) by cases (auto dest: condition_same IsToPart_same)
    with guard(1) show ?case by simp
  next
    case (handler s w g e out w')
    then consider "common_ChangeVoteToNil T J L e w = Some (out, w')" | "sanity_changeProposal T J L e w = Some (out, w')"
      | "sanity_two_countAndDeliver L e w = Some (out, w')" | "recordProposal T L e w = Some (out, w')"
      | "dont_deliver e w = Some (out, w')"
      using tc by (auto simp: sanity_TwoTestCase_def sanity_ThreeTestCase_def countAndDeliver_same)
    then show ?case
    proof cases
      case 3
      then show ?thesis using counts_ok_delivered [OF lib handler(1)] by blast
    next
      case 4
      then show ?thesis using counts_ok_recorded [OF lib handler(1)] by blast
    next
      case 5
      with handler(1) dont show ?thesis by (simp add: dont_deliver_spec_def)
    qed (use quiet [OF handler(1)] common_ChangeVoteToNil_quiet [OF lib] sanity_changeProposal_quiet [OF lib] in blast)+
  next
    case (scheduler s w w')
    then show ?case using quiet by blast
  qed
qed

section \<open>No panics\<close>

text \<open>Everything a test case runs on an event: conditions and guards, and what the guards let through.\<close>

definition returns_on :: "('e, 'c) test_case \<Rightarrow> 'e \<Rightarrow> 'c world \<Rightarrow> bool" where
  "returns_on tc e w \<longleftrightarrow> (\<forall>(s1, c, s2) \<in> set (tc_edges tc). c e w \<noteq> None) \<and>
     (\<forall>g \<in> set (tc_handlers tc). (\<forall>c \<in> set (guards g). c e w \<noteq> None) \<and>
        ((\<forall>c \<in> set (guards g). \<exists>w'. c e w = Some (True, w')) \<longrightarrow> handler_of g e w \<noteq> None))"

lemma heard_pool: "heard L rs w \<Longrightarrow> pool_ok L w"
  unfolding pool_ok_def by (metis carriesD(4,5) heard_event)

lemma one_returns:
  assumes lib: "testlib_spec L \<alpha>" and ok: "parts_ok T \<alpha> rs w" "votes_ok \<alpha> w" and fit: "replicas_fit T rs cap"
    and pool: "pool_ok L w"
  shows "returns_on (sanity_OneTestCase ord T J L lb) e w"
  using quorumCond_returns [OF lib ok pool, of "ord e w" e] guards_return(1,6) [OF lib ok(1) pool, of e]
    common_ChangeVoteToNil_returns [OF lib ok(1) fit pool, of J e] sanity_round0_returns [OF lib ok pool, of e]
  by (simp add: returns_on_def sanity_OneTestCase_def)

lemma two_returns:
  assumes lib: "testlib_spec L \<alpha>" and counts: "counts_ok T \<alpha> rs w" and fit: "replicas_fit T rs cap"
    and heard: "heard L rs w" and dont: "dont_deliver_spec dont_deliver"
    and tc: "tc = sanity_TwoTestCase T J L lb \<or> tc = sanity_ThreeTestCase dont_deliver T J L lb"
  shows "returns_on tc e w"
proof -
  note pool = heard_pool [OF heard]
  have ok: "parts_ok T \<alpha> rs w" "round_counters_ok (\<alpha> (ctx w))" "counters_ok \<alpha> w"
    using counts by (auto simp: counts_ok_def)
  have reached: "RoundReached L r e w \<noteq> None" for r
    using RoundReached_step [OF lib pool ok(2), of r e] by auto
  have counted: "sanity_two_countAndDeliver L e w \<noteq> None"
    using countAndDeliver_returns [OF lib ok(1,3) pool, of e] by auto
  have changed: "\<exists>w'. IsMessageType L Proposal e w = Some (True, w') \<Longrightarrow> sanity_changeProposal T J L e w \<noteq> None"
    by (elim exE) (rule changeProposal_returns [OF lib ok(1) fit heard])
  have kept: "dont_deliver e w \<noteq> None" using dont by (simp add: dont_deliver_spec_def)
  note guards = guards_return [OF lib ok(1) pool]
  note all = guards reached counted changed kept common_ChangeVoteToNil_returns [OF lib ok(1) fit pool]
    recordProposal_returns [OF pool]
  from tc show ?thesis
    by (elim disjE) (simp_all add: returns_on_def sanity_TwoTestCase_def sanity_ThreeTestCase_def countAndDeliver_same
        all del: not_None_eq)
qed

text \<open>
  C20: the tests \<open>QuorumIntersection\<close>, \<open>WrongProposal\<close> and \<open>LockedValueCheck\<close>, with a fresh context
  and 3 f + 1 replicas (f at least 1) that can sign. Their setup returns; and in whatever state a
  schedule leads to, as long as the messages in flight came from the parser and from registered
  replicas, every condition and every guard returns on every event, and every handler on the events
  its guards let through.
\<close>

theorem sanity_never_panics:
  assumes "testlib_spec L \<alpha>" and "replicas_fit T (lreplicas (\<alpha> (ctx w0))) (lcap (\<alpha> (ctx w0)))"
    and "lvars (\<alpha> (ctx w0)) = Map.empty" and "dont_deliver_spec dont_deliver"
    and "tc \<in> {sanity_OneTestCase ord T J L lb, sanity_TwoTestCase T J L lb, sanity_ThreeTestCase dont_deliver T J L lb}"
  shows "tc_setup tc w0 \<noteq> None \<and>
    (\<forall>s w e. run \<alpha> (StartStateLabel lb) tc w0 s w \<longrightarrow> heard L (lreplicas (\<alpha> (ctx w0))) w \<longrightarrow> returns_on tc e w)"
proof (cases "tc = sanity_OneTestCase ord T J L lb")
  case True
  have "tc_setup tc w0 \<noteq> None"
    using one_ok_setup [OF assms(1,2)] by (auto simp: True sanity_OneTestCase_def)
  then show ?thesis
    using one_ok_run [OF assms(1,2)] one_returns [OF assms(1) _ _ assms(2)] heard_pool unfolding True by blast
next
  case False
  with assms(5) have tc: "tc = sanity_TwoTestCase T J L lb \<or> tc = sanity_ThreeTestCase dont_deliver T J L lb" by blast
  then have "\<exists>opts. tc_setup tc w0 = Setup T L opts w0 \<and> (opts = [] \<or> opts = [threeSetup T L])"
    by (auto simp: sanity_TwoTestCase_def sanity_ThreeTestCase_def)
  then have "tc_setup tc w0 \<noteq> None"
    using two_ok_setup [OF assms(1-3)] by (metis option.distinct(1))
  then show ?thesis
    using two_ok_run [OF assms(1-4) tc] two_returns [OF assms(1) _ assms(2) _ assms(4) tc] by blast
qed

end
