(* ===== verification/Run_Witnesses.thy ===== *)
theory Run_Witnesses
  imports Witnesses Rskip_Runs Small_Tests LockedValue_Returns Sanity_Returns
begin

text \<open>
  The properties of the runs of the round-skip test, the locked-value tests and the sanity tests,
  and of the test of block times, applied to the sample instances.
\<close>

section \<open>The round-skip test\<close>

text \<open>The scheduler takes the first message into its pool.\<close>

definition with_pool :: "sample_context world \<Rightarrow> sample_context world" where
  "with_pool w = w\<lparr>ctx := (ctx w)\<lparr>sc_pool := [(''m1'', sample_message)]\<rparr>\<rparr>"

lemma scheduler_step_pool: "scheduler_step observe_sample w (with_pool w)"
  unfolding scheduler_step_def
  by (intro exI [of _ "\<lambda>e. map_of (sc_messages (ctx w)) (ev_message e)"]
      exI [of _ "map_of [(''m1'', sample_message)]"] exI [of _ "sc_ended (ctx w)"] conjI)
    (simp_all add: with_pool_def observe_sample_def)


theorem rskip_never_panics_witness:
  "\<exists>w. rskip_setupFunc sample_T sample_L (sample_world []) = Some w \<and>
    (\<exists>out. rskip_changeVoteFilter sample_T sample_J sample_L 1 2 sample_send w = Some out) \<and>
    (\<exists>out. deliverDelayedFilter sample_L sample_send w = Some out) \<and>
    (\<exists>out. rskip_roundReached sample_L 2 sample_send w = Some out)"
proof -
  let ?tc = "rskip_OneTestcase sample_T sample_J sample_L sample_labels 1 2" and ?w0 = "sample_world []"
  have fit: "replicas_fit sample_T (lreplicas (observe_sample (ctx ?w0))) (lcap (observe_sample (ctx ?w0)))"
    by (simp add: replicas_fit_def sample_store) (simp add: sample_replicas_def sample_replica_def)
  have fresh: "lvars (observe_sample (ctx ?w0)) ''roundCount'' = None" by simp
  note all = rskip_never_panics [OF sample_library fit fresh, where lb = sample_labels and J = sample_J and height = 1 and round = 2]
  then obtain w where w: "tc_setup ?tc ?w0 = Some w"
    "run observe_sample (StartStateLabel sample_labels) ?tc ?w0 (StartStateLabel sample_labels) w" by blast
  have store: "store_ok sample_T sample_replicas (lcap (observe_sample (ctx ?w0)))" by (simp add: sample_store)
  have su: "rskip_setupFunc sample_T sample_L ?w0 = Some w"
    using w(1) by (simp add: rskip_OneTestcase_def)
  then have kept: "lmessage (observe_sample (ctx w)) = lmessage (observe_sample (ctx ?w0))" "tmsgs w = tmsgs ?w0"
    using rskip_setup_ok [OF sample_library store] by simp_all
  have "pool_ok sample_L w"
    using sample_pool [of "[]"] kept
    by (simp add: pool_ok_def GetMessageFromEvent_eq context_specD(1) [OF sample_library])
  with all w(2) have "\<forall>(s1, c, s2) \<in> set (tc_edges ?tc). \<exists>out. c sample_send w = Some out"
    "\<forall>g \<in> set (tc_handlers ?tc). \<exists>out. handler_of g sample_send w = Some out"
    by blast+
  with su show ?thesis by (simp add: rskip_OneTestcase_def)
qed

section \<open>The locked-value tests\<close>

theorem lv_never_panics_witness:
  "\<exists>w. run observe_sample ''start'' (lv_Three sample_T sample_J sample_L sample_labels) (sample_world []) ''start'' w \<and>
    lv_faultyVoteFilter sample_T sample_J sample_L sample_send w \<noteq> None \<and>
    lv_three_round0 sample_T sample_L sample_send w \<noteq> None \<and>
    lv_valueLockedCond sample_T sample_L sample_receive w \<noteq> None"
proof -
  let ?tc = "lv_Three sample_T sample_J sample_L sample_labels" and ?w0 = "sample_world []"
  have fit: "replicas_fit sample_T (lreplicas (observe_sample (ctx ?w0))) (lcap (observe_sample (ctx ?w0)))"
    by (simp add: replicas_fit_def sample_store) (simp add: sample_replicas_def sample_replica_def)
  have fresh: "lvars (observe_sample (ctx ?w0)) k = None" for k by simp
  have tc: "?tc \<in> {lv_One sample_T sample_J sample_L sample_labels, lv_Two sample_T sample_J sample_L sample_labels, ?tc}"
    by simp
  note all = lv_never_panics [OF sample_library fit fresh tc]
  then obtain w where w: "tc_setup ?tc ?w0 = Some w" by blast
  then have run: "run observe_sample (StartStateLabel sample_labels) ?tc ?w0 ''start'' w"
    using run_start [of ?tc ?w0 w observe_sample "''start''"] by (simp add: sample_labels_def)
  have "lmessage (observe_sample (ctx w)) = lmessage (observe_sample (ctx ?w0))" "tmsgs w = tmsgs ?w0"
    using w by (auto simp: lv_Three_def lv_testCaseThreeSetup_def Option.bind_eq_Some_conv Let_def vars_specD [OF sample_library])
  then have pool: "pool_ok sample_L w"
    using sample_pool [of "[]"] by (simp add: pool_ok_def GetMessageFromEvent_eq context_specD(1) [OF sample_library])
  have start: "StartStateLabel sample_labels = ''start''" by (simp add: sample_labels_def)
  have handlers: "handler_of g sample_send w \<noteq> None" if "g \<in> set (tc_handlers ?tc)" for g
    using all run pool that by blast
  have edges: "c sample_receive w \<noteq> None" if "(s1, c, s2) \<in> set (tc_edges ?tc)" for s1 c s2
    using all run pool that by blast
  have "lv_faultyVoteFilter sample_T sample_J sample_L sample_send w \<noteq> None"
    using handlers [of "Handler (lv_faultyVoteFilter sample_T sample_J sample_L)"] by (simp add: lv_Three_def)
  moreover have "lv_three_round0 sample_T sample_L sample_send w \<noteq> None"
    using handlers [of "Handler (lv_three_round0 sample_T sample_L)"] by (simp add: lv_Three_def)
  moreover have "lv_valueLockedCond sample_T sample_L sample_receive w \<noteq> None"
    using edges [of "''start''" "lv_valueLockedCond sample_T sample_L" "''lockedValue''"] by (simp add: lv_Three_def start)
  ultimately show ?thesis using run unfolding start by blast
qed

section \<open>The sanity tests\<close>

lemma sample_heard: "heard sample_L sample_replicas (sample_world vars)"
  by (auto simp: heard_def GetParsedMessage_def world_of_def sample_L_def sample_message_def sample_proposal_message_def
      sample_again_def sample_tmsg_parsed sample_proposal_parsed sample_replicas_def sample_tmsg_def [THEN arg_cong [of _ _ From]]
      sample_proposal_tmsg_def [THEN arg_cong [of _ _ From]] split: if_splits option.splits parsed_message.splits)

theorem sanity_never_panics_witness:
  "\<exists>w. run observe_sample ''start'' (sanity_TwoTestCase sample_T sample_J sample_L sample_labels) (sample_world []) ''start'' w \<and>
    RoundReached sample_L 1 sample_send w \<noteq> None \<and> IsVoteFromFaulty sample_T sample_L sample_send w = Some (True, w) \<and>
    common_ChangeVoteToNil sample_T sample_J sample_L sample_send w \<noteq> None"
proof -
  let ?tc = "sanity_TwoTestCase sample_T sample_J sample_L sample_labels" and ?w0 = "sample_world []"
  let ?no = "\<lambda>e w. Some (([], True), w)"
  have fit: "replicas_fit sample_T (lreplicas (observe_sample (ctx ?w0))) (lcap (observe_sample (ctx ?w0)))"
    by (simp add: replicas_fit_def sample_store) (simp add: sample_replicas_def sample_replica_def)
  have fresh: "lvars (observe_sample (ctx ?w0)) = Map.empty" by simp
  have no: "dont_deliver_spec ?no" by (simp add: dont_deliver_spec_def)
  have tc: "?tc \<in> {sanity_OneTestCase (\<lambda>_ _. rev) sample_T sample_J sample_L sample_labels, ?tc,
      sanity_ThreeTestCase ?no sample_T sample_J sample_L sample_labels}"
    by simp
  note all = sanity_never_panics [OF sample_library fit fresh no tc]
  then obtain w where w: "tc_setup ?tc ?w0 = Some w" by blast
  have start: "StartStateLabel sample_labels = ''start''" by (simp add: sample_labels_def)
  have run: "run observe_sample (StartStateLabel sample_labels) ?tc ?w0 ''start'' w"
    using run_start [OF w, of observe_sample "''start''"] by (simp add: start)
  obtain p where setup_w: "w = ?w0\<lparr>ctx := ctx w\<rparr>" "lvars (observe_sample (ctx w)) ''partition'' = Some (VPartition p)"
    "byzantine_parts sample_T sample_replicas 1 1 ''h'' ''faulty'' ''rest'' p"
    "lmessage (observe_sample (ctx w)) = lmessage (observe_sample (ctx ?w0))"
    "lpool (observe_sample (ctx w)) = lpool (observe_sample (ctx ?w0))"
    using Setup_result [OF sample_library, of sample_T ?w0] w
    by (auto simp: sanity_TwoTestCase_def sample_store)
  have tmsgs: "tmsgs w = tmsgs ?w0" using arg_cong [OF setup_w(1), of tmsgs] by simp
  obtain P where P: "p = Some P" "part_is sample_T P ''faulty'' [sample_r2]"
    using setup_w(3) by (auto simp: byzantine_parts_def sample_replicas_def sample_r2_def)
  note event = carriesD [OF iffD2 [OF carries_keep [OF sample_library setup_w(4) tmsgs] sample_carries(1)]]
  have "votes_of_part sample_T sample_tmsg [sample_r2]"
    by (simp add: votes_of_part_def sample_tmsg_parsed sample_r2_def sample_address sample_vote_def) (simp add: sample_tmsg_def)
  with is_vote_from_part [OF sample_library event(3,4,5) setup_w(2) [unfolded P(1)] P(2)]
  have guard: "IsVoteFromFaulty sample_T sample_L sample_send w = Some (True, w)" by simp
  have "heard sample_L sample_replicas w"
    using sample_heard [of "[]"] setup_w(4,5) tmsgs unfolding heard_def context_specD(1,2) [OF sample_library] by simp
  then have ok: "returns_on ?tc sample_send w" using all run by simp
  then have "RoundReached sample_L 1 sample_send w \<noteq> None"
    by (simp add: returns_on_def sanity_TwoTestCase_def del: not_None_eq)
  moreover have "common_ChangeVoteToNil sample_T sample_J sample_L sample_send w \<noteq> None"
    using ok guard by (simp add: returns_on_def sanity_TwoTestCase_def cond_IsMessageSend_def del: not_None_eq)
  ultimately show ?thesis using run guard unfolding start by blast
qed

section \<open>The test of block times\<close>

theorem bft_votes_a_day_later_witness:
  "\<exists>w' c bs. bft_changeVoteFilter sample_T sample_J sample_L sample_send
      (world_at (sample_vote_in Precommit 0) [sample_r2] []) =
      Some (([Some (fst (NewMessage sample_L c sample_message bs))], True), w') \<and>
    timed_vote_bytes sample_T sample_J sample_verify sample_r2 (sample_vote_in Precommit 0) (24 * Hour) bs"
proof -
  let ?t = "sample_vote_in Precommit 0"
  let ?w = "world_at ?t [sample_r2] []"
  have t: "from_parser ?t" using sample_vote_in_parsed(2) by simp
  have pool: "lpool (observe_sample (ctx ?w)) (MessageID sample_L sample_send) = Some sample_message"
    "GetParsedMessage (Some sample_message) = Some 0" "tmsgs ?w 0 = Some ?t" "IsMessageSend sample_L sample_send"
    by (simp_all add: sample_message_def GetParsedMessage_def)
  have reps: "\<forall>r \<in> set (lreplicas (observe_sample (ctx ?w))). usable sample_T r \<and> Info r ''chain_id'' \<noteq> Some InfoOther"
    by (simp add: sample_r2_def sample_usable) (simp add: sample_replica_def)
  have v: "pv_Timestamp v = 5" if "inner_vote ?t = Some v" for v
    using that by (auto simp: sample_vote_in_def inner_vote_def vote_message_def sample_vote_def)
  obtain bs w2 where mar: "Marshal sample_T sample_J 0 (put_vote 0 ?t sample_later_vote ?w) = Some (Inr bs, w2)"
    using sample_later(2) [OF pool(3)] by blast
  have found: "find (\<lambda>r. ID r = msg_From sample_message) (lreplicas (observe_sample (ctx ?w))) = Some sample_r2"
    by (simp add: sample_message_def sample_r2_def)
  have ty: "MsgType ?t = Precommit" by simp
  from bft_votes_a_day_later [OF sample_library sample_signing sample_conversion sample_codec_spec sample_json
      pool(4,1,2,3) t reps] found ty v sample_later(1) [OF pool(3)] mar
  have "\<exists>w'. bft_changeVoteFilter sample_T sample_J sample_L sample_send ?w =
      Some (([Some (fst (NewMessage sample_L (ctx w2) sample_message bs))], True), w') \<and>
    timed_vote_bytes sample_T sample_J sample_verify sample_r2 ?t (24 * Hour) bs"
    by (auto simp: Hour_def Second_def)
  then show ?thesis by blast
qed

end
