(* ===== verification/HigherProp.thy ===== *)
theory HigherProp
  imports Sanity
begin

text \<open>
  The test case \<open>testcases/sanity/higherProp.go\<close>: a replica that locked a value must move to a
  later proposal when it is proposed again with a proof-of-lock round.
\<close>

section \<open>Definitions\<close>

definition hp_getFaultyReplica :: "('e, 'c) testlib \<Rightarrow> 'c world \<Rightarrow> replica option option" where
  "hp_getFaultyReplica L w =
     (case Vars_Get L (ctx w) ''faultyReplica'' of Some (VReplica r) \<Rightarrow> Some r | _ \<Rightarrow> None)"

text \<open>
  \<open>for _, r := range h.ReplicaSet.Iter()\<close> keeps the last id in the order the map is listed, which
  \<open>ord\<close> gives, and the empty id when there is none.
\<close>

definition hp_last_replica :: "(string list \<Rightarrow> string list) \<Rightarrow> part option \<Rightarrow> string option" where
  "hp_last_replica ord part = do {
     h \<leftarrow> part;
     Some (foldl (\<lambda>_ r. r) '''' (ReplicaSet_Iter ord (ReplicaSet h))) }"

text \<open>The filter ends in one of two forged votes, sent in the same way.\<close>

definition hp_send_vote :: "'k tendermint \<Rightarrow> json \<Rightarrow> ('e, 'c) testlib \<Rightarrow> message \<Rightarrow>
    ((addr option \<times> go_error option) \<times> 'c world) option \<Rightarrow> ((message option list \<times> bool) \<times> 'c world) option" where
  "hp_send_vote T J L message res = do {
     ((newVote, err), w1) \<leftarrow> res;
     (if err \<noteq> None then Some (([], False), w1)
      else do {
        a' \<leftarrow> newVote;
        (newMsgB, w2) \<leftarrow> Marshal T J a' w1;
        (case newMsgB of
           Inl _ \<Rightarrow> Some (([], False), w2)
         | Inr bs \<Rightarrow>
             (case NewMessage L (ctx w2) message bs of (m', c) \<Rightarrow>
                Some (([Some m'], True), w2\<lparr>ctx := c\<rparr>))) }) }"

definition hp_faultyFilter :: "'k tendermint \<Rightarrow> json \<Rightarrow> ('e, 'c) testlib \<Rightarrow> ('e, 'c) handler" where
  "hp_faultyFilter T J L e w =
     (case message_of L e w of
        None \<Rightarrow> Some (([], False), w)
      | Some (message, a) \<Rightarrow> do {
          tMsg \<leftarrow> tmsgs w a;
          (if MsgType tMsg \<noteq> Prevote \<and> MsgType tMsg \<noteq> Precommit then Some (([], False), w)
           else do {
             faulty \<leftarrow> hp_getFaultyReplica L w;
             fromFaulty \<leftarrow> IsVoteFrom T tMsg faulty;
             (if \<not> fromFaulty then Some (([], False), w)
              else do {
                ptn \<leftarrow> sanity_getPartition L w;
                rest \<leftarrow> Partition_GetPart ptn ''rest'';
                let replica = Replicas_Get L (ctx w) (From tMsg);
                let newProposal = Vars_Get L (ctx w) ''newProposalBlockID'';
                toRest \<leftarrow> (if newProposal \<noteq> None then Part_Contains rest (To tMsg) else Some False);
                (if toRest \<and> MsgType tMsg = Prevote then do {
                   block \<leftarrow> (case newProposal of Some (VBlockID b) \<Rightarrow> Some b | _ \<Rightarrow> None);
                   hp_send_vote T J L message (ChangeVote T replica a block w) }
                 else hp_send_vote T J L message (ChangeVoteToNil T replica a w)) }) }) })"

definition hp_round0 :: "(string list \<Rightarrow> string list) \<Rightarrow> 'k tendermint \<Rightarrow> ('e, 'c) testlib \<Rightarrow> ('e, 'c) handler" where
  "hp_round0 ord T L e w =
     (case message_of L e w of
        None \<Rightarrow> Some (([], False), w)
      | Some (message, a) \<Rightarrow> do {
          tMsg \<leftarrow> tmsgs w a;
          round \<leftarrow> Round tMsg;
          (if round \<noteq> 0 then Some (([], False), w)
           else do {
             blockIDS \<leftarrow> (if MsgType tMsg = Proposal then GetProposalBlockIDS T tMsg else Some None);
             let w1 = (case blockIDS of Some b \<Rightarrow> set_var L ''oldProposal'' (VString b) w | None \<Rightarrow> w);
             (if MsgType tMsg \<noteq> Prevote then Some (([Some message], True), w1)
              else do {
                ptn \<leftarrow> sanity_getPartition L w1;
                h \<leftarrow> Partition_GetPart ptn ''honestDelayed'';
                hID \<leftarrow> hp_last_replica ord h;
                fromH \<leftarrow> IsVoteFrom T tMsg (Replicas_Get L (ctx w1) hID);
                Some (if fromH then ([], True) else ([Some message], True), w1) }) }) })"

text \<open>A block id that does not convert reads as the empty text and the nil pointer.\<close>

definition hp_block_text :: "string option \<Rightarrow> string" where
  "hp_block_text b = (case b of Some s \<Rightarrow> s | None \<Rightarrow> '''')"

definition hp_propFilter :: "'k tendermint \<Rightarrow> ('e, 'c) testlib \<Rightarrow> ('e, 'c) handler" where
  "hp_propFilter T L e w =
     (case message_of L e w of
        None \<Rightarrow> Some (([], False), w)
      | Some (message, a) \<Rightarrow> do {
          tMsg \<leftarrow> tmsgs w a;
          (if MsgType tMsg \<noteq> Proposal then Some (([], False), w)
           else do {
             round \<leftarrow> Round tMsg;
             blockIDS \<leftarrow> map_option hp_block_text (GetProposalBlockIDS T tMsg);
             (if round = 0 then
                Some (([Some message], True), set_var L ''oldProposal'' (VString blockIDS) w)
              else if blockIDS \<noteq> string_var L ''oldProposal'' w then do {
                blockID \<leftarrow> GetProposalBlockID T tMsg;
                Some (([Some message], True), set_var L ''newProposalBlockID'' (VBlockID blockID)
                  (set_var L ''newProposal'' (VString blockIDS) w)) }
              else Some (([], True), w)) }) })"

text \<open>The message is taken from the pool by its id.\<close>

definition hp_valueLockedCond :: "'k tendermint \<Rightarrow> ('e, 'c) testlib \<Rightarrow> ('e, 'c) condition" where
  "hp_valueLockedCond T L e w =
     (if \<not> IsMessageReceive L e then Some (False, w)
      else case MessagePool_Get L (ctx w) (MessageID L e) of
        None \<Rightarrow> Some (False, w)
      | Some message \<Rightarrow> (case GetParsedMessage (Some message) of
        None \<Rightarrow> Some (False, w)
      | Some a \<Rightarrow> do {
          tMsg \<leftarrow> tmsgs w a;
          ptn \<leftarrow> sanity_getPartition L w;
          honestDelayed \<leftarrow> Partition_GetPart ptn ''honestDelayed'';
          toDelayed \<leftarrow> (if MsgType tMsg = Prevote then Part_Contains honestDelayed (To tMsg)
                        else Some False);
          (if \<not> toDelayed then Some (False, w)
           else do {
             fI \<leftarrow> Vars_Get L (ctx w) ''faults'';
             faults \<leftarrow> (case fI of VInt f \<Rightarrow> Some f | _ \<Rightarrow> None);
             voteBlockID \<leftarrow> GetVoteBlockIDS T tMsg;
             (if voteBlockID \<noteq> None \<and> Vars_GetString L (ctx w) ''oldProposal'' = voteBlockID then
                (let votes = int_var L ''prevotesSent'' w + 1
                 in Some (2 * faults \<le> votes, set_var L ''prevotesSent'' (VInt votes) w))
              else Some (False, w)) }) }))"

definition hp_diffPropSeen :: "'k tendermint \<Rightarrow> ('e, 'c) testlib \<Rightarrow> ('e, 'c) condition" where
  "hp_diffPropSeen T L e w =
     (case GetMessageFromEvent L e w of
        None \<Rightarrow> Some (False, w)
      | Some a \<Rightarrow> do {
          tMsg \<leftarrow> tmsgs w a;
          (if MsgType tMsg \<noteq> Proposal then Some (False, w)
           else do {
             blockIDS \<leftarrow> map_option hp_block_text (GetProposalBlockIDS T tMsg);
             (case Vars_GetString L (ctx w) ''oldProposal'' of
                None \<Rightarrow> Some (False, w)
              | Some oldProp \<Rightarrow>
                  if blockIDS \<noteq> oldProp then do {
                    blockID \<leftarrow> GetProposalBlockID T tMsg;
                    Some (True, set_var L ''newProposalBlockID'' (VBlockID blockID)
                      (set_var L ''newProposal'' (VString blockIDS) w)) }
                  else Some (False, w)) }) })"

definition hp_newPropSeen :: "'k tendermint \<Rightarrow> ('e, 'c) testlib \<Rightarrow> ('e, 'c) condition" where
  "hp_newPropSeen T L e w =
     (case GetMessageFromEvent L e w of
        None \<Rightarrow> Some (False, w)
      | Some a \<Rightarrow> do {
          tMsg \<leftarrow> tmsgs w a;
          (if MsgType tMsg \<noteq> Proposal then Some (False, w)
           else do {
             blockIDS \<leftarrow> map_option hp_block_text (GetProposalBlockIDS T tMsg);
             proposal \<leftarrow> GetProposal (Data tMsg);
             (if blockIDS = string_var L ''newProposal'' w \<and> pp_PolRound proposal \<noteq> -1
              then Some (True, set_var L ''newPropReproposeRound'' (VInt (sint (pp_Round proposal))) w)
              else Some (False, w)) }) })"

text \<open>\<open>hNewVote\<close> and \<open>hOldVote\<close> differ in the proposal they compare with.\<close>

definition hp_vote_for :: "(string list \<Rightarrow> string list) \<Rightarrow> string \<Rightarrow> 'k tendermint \<Rightarrow> ('e, 'c) testlib \<Rightarrow>
    ('e, 'c) condition" where
  "hp_vote_for ord key T L e w =
     (case GetMessageFromEvent L e w of
        None \<Rightarrow> Some (False, w)
      | Some a \<Rightarrow> do {
          tMsg \<leftarrow> tmsgs w a;
          ptn \<leftarrow> sanity_getPartition L w;
          h \<leftarrow> Partition_GetPart ptn ''honestDelayed'';
          hID \<leftarrow> hp_last_replica ord h;
          let hReplica = Replicas_Get L (ctx w) hID;
          round \<leftarrow> Round tMsg;
          let correctRound = int_var L ''newPropReproposeRound'' w;
          ofH \<leftarrow> (if MsgType tMsg \<noteq> Prevote then Some False else IsVoteFrom T tMsg hReplica);
          (if \<not> ofH then Some (False, w)
           else do {
             blockIDS \<leftarrow> map_option hp_block_text (GetVoteBlockIDS T tMsg);
             Some (blockIDS = string_var L key w \<and> round = correctRound, w) }) })"

definition hp_hNewVote :: "(string list \<Rightarrow> string list) \<Rightarrow> 'k tendermint \<Rightarrow> ('e, 'c) testlib \<Rightarrow> ('e, 'c) condition" where
  "hp_hNewVote ord T L = hp_vote_for ord ''newProposal'' T L"

definition hp_hOldVote :: "(string list \<Rightarrow> string list) \<Rightarrow> 'k tendermint \<Rightarrow> ('e, 'c) testlib \<Rightarrow> ('e, 'c) condition" where
  "hp_hOldVote ord T L = hp_vote_for ord ''oldProposal'' T L"

definition hp_rOldVote :: "'k tendermint \<Rightarrow> ('e, 'c) testlib \<Rightarrow> ('e, 'c) condition" where
  "hp_rOldVote T L e w =
     (case GetMessageFromEvent L e w of
        None \<Rightarrow> Some (False, w)
      | Some a \<Rightarrow> do {
          tMsg \<leftarrow> tmsgs w a;
          ptn \<leftarrow> sanity_getPartition L w;
          rest \<leftarrow> Partition_GetPart ptn ''rest'';
          fromRest \<leftarrow> (if MsgType tMsg = Precommit then Part_Contains rest (From tMsg) else Some False);
          (if fromRest then do {
             voteBlockID \<leftarrow> map_option hp_block_text (GetVoteBlockIDS T tMsg);
             Some (string_var L ''oldProposal'' w = voteBlockID, w) }
           else Some (False, w)) })"

definition higherPropSetup :: "(string list \<Rightarrow> string list) \<Rightarrow> 'k tendermint \<Rightarrow> ('e, 'c) testlib \<Rightarrow>
    'c world \<Rightarrow> 'c world option" where
  "higherPropSetup ord T L w = do {
     let faults = (Replicas_Cap L (ctx w) - 1) sdiv 3;
     p \<leftarrow> create_partition T L [faults, 1, 2 * faults] [''faulty'', ''honestDelayed'', ''rest''] w;
     faulty \<leftarrow> Partition_GetPart p ''faulty'';
     faultyReplicaID \<leftarrow> hp_last_replica ord faulty;
     let faultyReplica = Replicas_Get L (ctx w) faultyReplicaID;
     let w1 = set_var L ''faults'' (VInt faults) (set_var L ''partition'' (VPartition p)
       (set_var L ''faultyReplica'' (VReplica faultyReplica) w));
     _ \<leftarrow> Partition_String (\<lambda>x. x) (\<lambda>x. x) p;
     Some w1 }"

definition Minute :: int where
  "Minute = 60 * Second"

text \<open>The setup and each evaluation of a filter or condition may visit a replica set in an order of its own.\<close>

definition sanity_HigherProp :: "(string list \<Rightarrow> string list) \<Rightarrow> ('e \<Rightarrow> 'c world \<Rightarrow> string list \<Rightarrow> string list) \<Rightarrow> 'k tendermint \<Rightarrow> json \<Rightarrow> ('e, 'c) testlib \<Rightarrow>
    labels \<Rightarrow> ('e, 'c) test_case" where
  "sanity_HigherProp ord0 ord T J L lb = \<lparr>
     tc_name = ''HigherLockedRoundProp'',
     tc_timeout = 3 * Minute,
     tc_setup = higherPropSetup ord0 T L,
     tc_edges =
       [(StartStateLabel lb, hp_valueLockedCond T L, ''ValueLocked''),
        (''ValueLocked'', sanity_roundReached L 1, ''Round1''),
        (''Round1'', hp_diffPropSeen T L, ''DiffProposal''),
        (''DiffProposal'', hp_rOldVote T L, FailStateLabel lb),
        (''DiffProposal'', hp_newPropSeen T L, ''DiffProposalReproposed''),
        (''DiffProposalReproposed'', \<lambda>e w. hp_hNewVote (ord e w) T L e w, SuccessStateLabel lb),
        (''DiffProposalReproposed'', \<lambda>e w. hp_hOldVote (ord e w) T L e w, FailStateLabel lb)],
     tc_handlers = [Handler (hp_faultyFilter T J L), Handler (\<lambda>e w. hp_round0 (ord e w) T L e w), Handler (hp_propFilter T L)],
     tc_assert = (\<lambda>s w. Some (s = SuccessStateLabel lb))\<rparr>"

end
