(* ===== verification/HigherProp_Props.thy ===== *)
theory HigherProp_Props
  imports HigherProp LockedValue_Filters
begin

text \<open>
  The properties of \<open>testcases/sanity/higherProp.go\<close>: which votes of the faulty replica it forges,
  and which vote decides the test.
\<close>

section \<open>Forging the votes of the faulty replica\<close>

lemma hp_send_vote_spec:
  assumes tm: "signing_spec T verify" "conversion_spec T valid" "codec_spec T" "json_spec J"
    and c: "carries L w e m a t" "from_parser t"
    and rep: "usable T rep" "Info rep ''chain_id'' \<noteq> Some InfoOther"
  shows "\<exists>out w'. hp_send_vote T J L m (ChangeVote T (Some rep) a (Some b) w) = Some (out, w') \<and>
    replaced T J L verify m a t rep b w out"
  using send_forged [OF tm carriesD(4) [OF c(1)] c(2) rep, where L = L and m = m and b = b] unfolding hp_send_vote_def .

text \<open>
  C23: the filter of the faulty replica \<open>fr\<close>. A message that is not a vote of \<open>fr\<close> is left to the
  next handler. A vote of \<open>fr\<close> is replaced, or left to the next handler when signing or encoding
  reports an error: a prevote to one of the rest, once a new proposal is known, by the vote for the
  new proposal, any other by the vote for nil. The forged vote is signed with the key of the sender.
\<close>

theorem hp_faulty_filter:
  assumes lib: "testlib_spec L \<alpha>" and tm: "signing_spec T verify" "conversion_spec T valid"
      "codec_spec T" "json_spec J"
    and c: "carries L w e m a t" "from_parser t"
    and vars: "lvars (\<alpha> (ctx w)) ''faultyReplica'' = Some (VReplica (Some fr))"
      "lvars (\<alpha> (ctx w)) ''partition'' = Some (VPartition (Some P))" "part_is T P ''rest'' rest"
      "lvars (\<alpha> (ctx w)) ''newProposalBlockID'' = map_option (\<lambda>b. VBlockID (Some b)) new"
    and fr: "usable T fr"
    and rep: "find (\<lambda>r. ID r = From t) (lreplicas (\<alpha> (ctx w))) = Some rep" "usable T rep"
      "Info rep ''chain_id'' \<noteq> Some InfoOther"
  shows "if (MsgType t = Prevote \<or> MsgType t = Precommit) \<and>
      (\<exists>v. inner_vote t = Some v \<and> address_of T fr = Some (pv_ValidatorAddress v))
    then \<exists>out w'. hp_faultyFilter T J L e w = Some (out, w') \<and>
      replaced T J L verify m a t rep (case new of
          Some b \<Rightarrow> if MsgType t = Prevote \<and> To t \<in> ID ` set rest then b else nil_block_id
        | None \<Rightarrow> nil_block_id) w out
    else hp_faultyFilter T J L e w = Some (([], False), w)"
proof -
  note cd = carriesD [OF c(1)]
  obtain p where p: "Partition_GetPart (Some P) ''rest'' = Some (Some p)"
    "\<And>i. Part_Contains (Some p) i = Some (i \<in> ID ` set rest)"
    using vars(3) by (auto simp: part_is_def)
  have reads: "hp_getFaultyReplica L w = Some (Some fr)" "sanity_getPartition L w = Some (Some P)"
    "Replicas_Get L (ctx w) (From t) = Some rep"
    "Vars_Get L (ctx w) ''newProposalBlockID'' = map_option (\<lambda>b. VBlockID (Some b)) new"
    using vars rep(1)
    by (simp_all add: hp_getFaultyReplica_def sanity_getPartition_def vars_specD [OF lib] context_specD [OF lib])
  note unf = hp_faultyFilter_def carries_message_of [OF c(1)] cd(4) reads p(1) Let_def
  note send = hp_send_vote_spec [OF tm c rep(2,3)]
  show ?thesis
  proof (cases "MsgType t = Prevote \<or> MsgType t = Precommit")
    case False
    then show ?thesis by (simp add: unf)
  next
    case True
    then obtain v where v: "inner_vote t = Some v" using well_typed_vote [OF cd(5)] by blast
    have own: "IsVoteFrom T t (Some fr) = Some (address_of T fr = Some (pv_ValidatorAddress v))"
      by (rule IsVoteFrom_own [OF fr v])
    show ?thesis
    proof (cases "address_of T fr = Some (pv_ValidatorAddress v)")
      case False
      with True v own show ?thesis by (auto simp: unf)
    next
      case addr: True
      let ?b = "case new of
          Some b \<Rightarrow> if MsgType t = Prevote \<and> To t \<in> ID ` set rest then b else nil_block_id
        | None \<Rightarrow> nil_block_id"
      have "hp_faultyFilter T J L e w = hp_send_vote T J L m (ChangeVote T (Some rep) a (Some ?b) w)"
        using True own addr by (cases new) (auto simp: unf p(2) ChangeVoteToNil_def)
      with send [of ?b] True v addr show ?thesis by auto
    qed
  qed
qed

section \<open>The decisive vote\<close>

lemma foldl_last: "xs \<noteq> [] \<Longrightarrow> foldl (\<lambda>_ r. r) x xs = last xs"
  by (induction xs arbitrary: x) auto

lemma hp_last_single:
  assumes "part_is T P l [h]" and "\<And>xs. set (ord xs) = set xs"
  obtains p where "Partition_GetPart (Some P) l = Some (Some p)" and "hp_last_replica ord (Some p) = Some (ID h)"
proof -
  obtain p where p: "Partition_GetPart (Some P) l = Some (Some p)"
    "\<And>i. Part_Contains (Some p) i = Some (i = ID h)"
    using assms(1) by (auto simp: part_is_def)
  have "i \<in> fst ` set (replicas (ReplicaSet p)) \<longleftrightarrow> i = ID h" for i
    using p(2) [of i] by (simp add: Part_Contains_def ReplicaSet_Exists_def map_of_eq_None_iff)
  then have "set (ReplicaSet_Iter ord (ReplicaSet p)) = {ID h}"
    using assms(2) by (auto simp: ReplicaSet_Iter_def)
  note ids = this
  then have ne: "ReplicaSet_Iter ord (ReplicaSet p) \<noteq> []" by (metis insert_not_empty list.set(1))
  from last_in_set [OF ne] ids have "last (ReplicaSet_Iter ord (ReplicaSet p)) = ID h" by simp
  with ne have "hp_last_replica ord (Some p) = Some (ID h)"
    by (simp add: hp_last_replica_def foldl_last)
  with p(1) show ?thesis by (rule that)
qed

text \<open>
  C24: the conditions \<open>hNewVote\<close> and \<open>hOldVote\<close>, which decide the test, change nothing and hold
  exactly on a prevote of the replica under observation, whoever sends it, in the round in which
  the new proposal was proposed again, for the new or for the old proposal.
\<close>

theorem hp_decisive_vote:
  assumes lib: "testlib_spec L \<alpha>" and c: "carries L w e m a t" and r: "Round t = Some r"
    and w: "watching T \<alpha> h w" and ord: "\<And>xs. set (ord xs) = set xs"
    and vars: "lvars (\<alpha> (ctx w)) ''newProposal'' = Some (VString new)"
      "lvars (\<alpha> (ctx w)) ''oldProposal'' = Some (VString old)"
      "lvars (\<alpha> (ctx w)) ''newPropReproposeRound'' = Some (VInt q)"
    and cond: "(cond, block) = (hp_hNewVote ord T L, new) \<or> (cond, block) = (hp_hOldVote ord T L, old)"
  shows "cond e w = Some (MsgType t = Prevote \<and> r = q \<and>
    (\<exists>v. inner_vote t = Some v \<and> address_of T h = Some (pv_ValidatorAddress v)) \<and>
    (GetVoteBlockIDS T t = Some (Some block) \<or> GetVoteBlockIDS T t = Some None \<and> block = ''''), w)"
proof -
  note cd = carriesD [OF c]
  obtain P where P: "lvars (\<alpha> (ctx w)) ''partition'' = Some (VPartition (Some P))"
    "part_is T P ''honestDelayed'' [h]" "h \<in> set (lreplicas (\<alpha> (ctx w)))"
    "distinct (map ID (lreplicas (\<alpha> (ctx w))))" "usable T h"
    using w by (auto simp: watching_def)
  obtain p where p: "Partition_GetPart (Some P) ''honestDelayed'' = Some (Some p)"
    "hp_last_replica ord (Some p) = Some (ID h)"
    by (rule hp_last_single [OF P(2) ord]) (rule that)
  have reads: "sanity_getPartition L w = Some (Some P)" "Replicas_Get L (ctx w) (ID h) = Some h"
    "int_var L ''newPropReproposeRound'' w = q" "string_var L ''newProposal'' w = new"
    "string_var L ''oldProposal'' w = old"
    using P(1) vars find_by_ID [OF P(3,4)]
    by (simp_all add: sanity_getPartition_def int_var_def string_var_def vars_specD [OF lib] context_specD [OF lib])
  have vote: "hp_vote_for ord key T L e w = Some (MsgType t = Prevote \<and> r = q \<and>
      (\<exists>v. inner_vote t = Some v \<and> address_of T h = Some (pv_ValidatorAddress v)) \<and>
      (GetVoteBlockIDS T t = Some (Some (string_var L key w)) \<or>
        GetVoteBlockIDS T t = Some None \<and> string_var L key w = ''''), w)" for key
  proof (cases "MsgType t = Prevote")
    case False
    then show ?thesis
      using cd p r by (simp add: hp_vote_for_def reads Let_def)
  next
    case True
    then obtain v b where v: "inner_vote t = Some v" "GetVoteBlockIDS T t = Some b"
      using well_typed_vote [OF cd(5)] vote_block_total [OF cd(5)] by blast
    show ?thesis
      using True v cd p r IsVoteFrom_own [OF P(5) v(1)]
      by (cases b) (auto simp: hp_vote_for_def reads Let_def hp_block_text_def)
  qed
  from cond show ?thesis
    using vote by (elim disjE) (auto simp: hp_hNewVote_def hp_hOldVote_def reads)
qed

end
