(* ===== verification/Sanity_Witnesses.thy ===== *)
theory Sanity_Witnesses
  imports Samples Sanity_Two HigherProp_Props
begin

text \<open>
  The properties of the package \<open>testcases/sanity\<close> applied to the sample instances.
\<close>

section \<open>Quorum intersection\<close>

definition sample_votes :: votes_by_block where
  "sample_votes = [(''a'', [(''r1'', True)]), (''b'', [(''r2'', True), (''r3'', True), (''r4'', True)])]"

lemma sample_voters: "voters sample_votes k =
    (if k = ''a'' then {''r1''} else if k = ''b'' then {''r2'', ''r3'', ''r4''} else {})"
  by (auto simp: voters_def sample_votes_def inner_map_def) force+

lemma sample_votes_wf: "votes_wf sample_votes"
  by (auto simp: votes_wf_def sample_votes_def inner_map_def)

lemma sample_quorums: "quorums 1 sample_votes = {''b''}"
  by (auto simp: quorums_def sample_voters card_insert_if) (auto simp: sample_votes_def)

theorem find_intersection_witness: "findIntersection rev sample_votes sample_votes 1 = (True, None)"
proof -
  have "map_of sample_votes ''b'' \<noteq> None" by (simp add: sample_votes_def)
  then show ?thesis
    using find_intersection [of rev sample_votes sample_votes 1] sample_votes_wf
    by (auto simp: sample_quorums sample_voters card_insert_if)
qed

theorem find_intersection_deterministic_witness:
  "findIntersection rev sample_votes sample_votes 1 = findIntersection (\<lambda>m. m) sample_votes sample_votes 1"
  by (rule find_intersection_deterministic [where S = "{''r1'', ''r2'', ''r3'', ''r4''}"])
    (auto simp: sample_votes_wf sample_voters card_insert_if)

section \<open>Worlds with vote counts\<close>

definition counting :: "sample_context world \<Rightarrow> sample_context world" where
  "counting w = w\<lparr>vote_maps := [0 \<mapsto> []]\<rparr>"

lemma counting_simps [simp]:
  "ctx (counting w) = ctx w" "tmsgs (counting w) = tmsgs w" "vote_maps (counting w) 0 = Some []"
  by (simp_all add: counting_def)

lemma counting_carries:
  assumes "well_typed t"
  shows "carries sample_L (counting (world_at t rs vars)) sample_send sample_message 0 t"
  using world_at_carries(1) [OF assms, of rs vars] by (simp add: carries_def)

lemma sample_faulty_part:
  "\<exists>P. part_is sample_T P ''h'' [sample_replica ''r1'' ''k''] \<and> part_is sample_T P ''faulty'' [sample_r2] \<and>
    part_is sample_T P ''rest'' [sample_replica ''r3'' ''kkk'', sample_replica ''r4'' ''kkkk'']"
  using sample_parts [of "''h''" "''faulty''" "''rest''"]
  by (auto simp: sample_replicas_def numeral_2_eq_2 sample_r2_def)

theorem sanity_precommit_quota_witness:
  "\<exists>P w'. outputs (sanity_round0 sample_L) [sample_send, sample_send, sample_send]
      (counting (world_at (sample_vote_in Precommit 0) sample_replicas
        [(''partition'', VPartition (Some P)), (''faults'', VInt 1), (''voteCount'', VVoteCounts 0)])) =
    Some ([([Some sample_message], True), ([Some sample_message], True), ([], True)], w')"
proof -
  obtain P where P: "part_is sample_T P ''faulty'' [sample_r2]" using sample_faulty_part by blast
  let ?t = "sample_vote_in Precommit 0" and ?es = "[sample_send, sample_send, sample_send]"
  let ?vars = "[(''partition'', VPartition (Some P)), (''faults'', VInt 1), (''voteCount'', VVoteCounts 0)]"
  let ?w = "counting (world_at ?t sample_replicas ?vars)"
  have es: "\<forall>e \<in> set ?es. \<exists>a t. carries sample_L ?w e sample_message a t \<and> MsgType t = Precommit \<and>
      Round t = Some 0 \<and> To t = ''r3''"
    using counting_carries [OF sample_vote_in_parsed(1) [of Precommit 0], of sample_replicas ?vars]
      sample_vote_in_parsed(4) [of Precommit 0] by (auto intro!: exI)
  have vars: "lvars (observe_sample (ctx ?w)) ''partition'' = Some (VPartition (Some P))"
    "lvars (observe_sample (ctx ?w)) ''faults'' = Some (VInt 1)"
    "lvars (observe_sample (ctx ?w)) ''voteCount'' = Some (VVoteCounts 0)" "vote_maps ?w 0 = Some []"
    by simp_all
  have to: "''r3'' \<notin> ID ` set [sample_r2]" by (simp add: sample_r2_def)
  obtain outs w' where run: "outputs (sanity_round0 sample_L) ?es ?w = Some (outs, w')" "length outs = 3"
    "\<forall>i < 3. outs ! i = (if int (count_list (map (\<lambda>_. ''r3'') (take i ?es)) ''r3'') < 2
       then ([Some sample_message], True) else ([], True))"
    using sanity_precommit_quota [OF sample_library es vars(1) P vars(2,3,4)] to by auto
  have "outs = [outs ! 0, outs ! 1, outs ! 2]"
    using run(2) by (cases outs; cases "tl outs"; cases "tl (tl outs)") auto
  moreover have "outs ! 0 = ([Some sample_message], True)" "outs ! 1 = ([Some sample_message], True)"
    "outs ! 2 = ([], True)"
    using run(3) [rule_format, of 0] run(3) [rule_format, of 1] run(3) [rule_format, of 2]
    by (simp_all add: numeral_2_eq_2)
  ultimately have "outs = [([Some sample_message], True), ([Some sample_message], True), ([], True)]" by simp
  with run(1) show ?thesis by blast
qed

section \<open>A comparison that ends the test\<close>


section \<open>Two quotas\<close>

theorem count_and_deliver_quota_witness:
  "\<exists>w'. outputs (sanity_two_countAndDeliver sample_L) [sample_send, sample_send]
      (sample_world [(''faults'', VInt 1)]) =
    Some ([([Some sample_message], True), ([], True)], w')"
proof -
  let ?es = "[sample_send, sample_send]" and ?w = "sample_world [(''faults'', VInt 1)]"
  have es: "\<forall>e \<in> set ?es. \<exists>a t. carries sample_L ?w e sample_message a t \<and> To t = ''r3''"
    using sample_carries(1) [of sample_replicas "[(''faults'', VInt 1)]"] by (auto simp: sample_tmsg_def intro!: exI)
  have vars: "lvars (observe_sample (ctx ?w)) ''faults'' = Some (VInt 1)"
    "\<forall>i. lvars (observe_sample (ctx ?w)) (vote_count_key i) = None"
    by (simp_all add: vote_count_key_def)
  obtain outs w' where run: "outputs (sanity_two_countAndDeliver sample_L) ?es ?w = Some (outs, w')" "length outs = 2"
    "\<forall>i < 2. outs ! i = (if int (count_list (map (\<lambda>_. ''r3'') (take i ?es)) ''r3'') < 1
       then ([Some sample_message], True) else ([], True))"
    using count_and_deliver_quota [OF sample_library disjI1 [OF refl] es vars] by auto
  have "outs = [outs ! 0, outs ! 1]"
    using run(2) by (cases outs; cases "tl outs") auto
  moreover have "outs ! 0 = ([Some sample_message], True)" "outs ! 1 = ([], True)"
    using run(3) [rule_format, of 0] run(3) [rule_format, of 1] by simp_all
  ultimately have "outs = [([Some sample_message], True), ([], True)]" by simp
  with run(1) show ?thesis by blast
qed

section \<open>The votes of the faulty replica\<close>

theorem hp_faulty_filter_witness:
  "\<exists>P bs c w'. hp_faultyFilter sample_T sample_J sample_L sample_send
      (sample_world [(''faultyReplica'', VReplica (Some sample_r2)), (''partition'', VPartition (Some P)),
        (''newProposalBlockID'', VBlockID (Some sample_new_block))]) =
      Some (([Some (fst (NewMessage sample_L c sample_message bs))], True), w') \<and>
    vote_bytes sample_T sample_J sample_verify sample_r2 sample_tmsg sample_new_block bs"
proof -
  obtain P where P: "part_is sample_T P ''rest'' [sample_replica ''r3'' ''kkk'', sample_replica ''r4'' ''kkkk'']"
    using sample_faulty_part by blast
  let ?w = "sample_world [(''faultyReplica'', VReplica (Some sample_r2)), (''partition'', VPartition (Some P)),
        (''newProposalBlockID'', VBlockID (Some sample_new_block))]"
  have vars: "lvars (observe_sample (ctx ?w)) ''faultyReplica'' = Some (VReplica (Some sample_r2))"
    "lvars (observe_sample (ctx ?w)) ''partition'' = Some (VPartition (Some P))"
    "lvars (observe_sample (ctx ?w)) ''newProposalBlockID'' = map_option (\<lambda>b. VBlockID (Some b)) (Some sample_new_block)"
    by simp_all
  have rep: "usable sample_T sample_r2" "find (\<lambda>r. ID r = From sample_tmsg) (lreplicas (observe_sample (ctx ?w))) = Some sample_r2"
    "Info sample_r2 ''chain_id'' \<noteq> Some InfoOther"
    by (simp_all add: sample_r2_def sample_usable sample_replicas_def sample_tmsg_def) (simp add: sample_replica_def)
  have "MsgType sample_tmsg = Prevote" "To sample_tmsg = ''r3''" by (simp_all add: sample_tmsg_def)
  moreover have "inner_vote sample_tmsg = Some sample_vote \<and> address_of sample_T sample_r2 = Some (pv_ValidatorAddress sample_vote)"
    by (simp add: sample_tmsg_parsed sample_r2_def sample_address sample_vote_def)
  ultimately obtain out w' where "hp_faultyFilter sample_T sample_J sample_L sample_send ?w = Some (out, w')"
    "replaced sample_T sample_J sample_L sample_verify sample_message 0 sample_tmsg sample_r2 sample_new_block ?w out"
    using hp_faulty_filter [OF sample_library sample_signing sample_conversion sample_codec_spec sample_json
        sample_carries(1) sample_tmsg_parsed(1) vars(1,2) P vars(3) rep(1,2,1,3)]
    by auto
  with sample_replaced [OF this(2)] show ?thesis by fastforce
qed

theorem hp_decisive_vote_witness:
  "\<exists>P. hp_hNewVote rev sample_T sample_L sample_send
      (world_at (sample_vote_in Prevote 1) sample_replicas
        [(''partition'', VPartition (Some P)), (''newProposal'', VString [char_of (7 :: nat)]),
         (''oldProposal'', VString ''old''), (''newPropReproposeRound'', VInt 1)]) =
    Some (True, world_at (sample_vote_in Prevote 1) sample_replicas
        [(''partition'', VPartition (Some P)), (''newProposal'', VString [char_of (7 :: nat)]),
         (''oldProposal'', VString ''old''), (''newPropReproposeRound'', VInt 1)])"
proof -
  obtain P where P: "part_is sample_T P ''honestDelayed'' [sample_r2]"
    using sample_parts [of "''faulty''" "''honestDelayed''" "''rest''"]
    by (auto simp: sample_replicas_def numeral_2_eq_2 sample_r2_def)
  let ?t = "sample_vote_in Prevote 1"
  let ?w = "world_at ?t sample_replicas
        [(''partition'', VPartition (Some P)), (''newProposal'', VString [char_of (7 :: nat)]),
         (''oldProposal'', VString ''old''), (''newPropReproposeRound'', VInt 1)]"
  have watch: "watching sample_T observe_sample sample_r2 ?w"
    using P by (simp add: watching_def sample_replicas_def sample_usable sample_r2_def)
  note t = sample_vote_in_parsed [OF disjI1 [OF refl], where r = 1]
  have r: "Round ?t = Some 1" using t(4) by simp
  have vars: "lvars (observe_sample (ctx ?w)) ''newProposal'' = Some (VString [char_of (7 :: nat)])"
    "lvars (observe_sample (ctx ?w)) ''oldProposal'' = Some (VString ''old'')"
    "lvars (observe_sample (ctx ?w)) ''newPropReproposeRound'' = Some (VInt 1)" by simp_all
  have "\<exists>v. inner_vote ?t = Some v \<and> address_of sample_T sample_r2 = Some (pv_ValidatorAddress v)"
    using t(6) by (auto simp: sample_r2_def sample_address)
  with hp_decisive_vote [OF sample_library world_at_carries(1) [OF t(1)] r watch _ vars disjI1 [OF refl], of rev] t(5)
  show ?thesis by (intro exI [of _ P]) simp
qed

section \<open>A run of the test of a wrong proposal\<close>

lemma sample_pool_at: "well_typed t \<Longrightarrow> pool_ok sample_L (world_at t rs vars)"
  by (auto simp: pool_ok_def GetMessageFromEvent_eq GetParsedMessage_def world_at_def world_of_def sample_L_def
      sample_message_def sample_proposal_message_def sample_again_def
      sample_proposal_parsed split: if_splits option.splits parsed_message.splits)

definition sample_commit :: sample_event where
  "sample_commit = \<lparr>ev_send = False, ev_receive = False, ev_message = '''',
     ev_kind = GenericEventType ''Committing block'' Map.empty\<rparr>"

theorem sanity_assertions_fail_witness:
  "\<exists>w. run observe_sample ''start'' (sanity_TwoTestCase sample_T sample_J sample_L sample_labels)
      (world_at (sample_vote_in Prevote 1) [sample_r2] []) ''success'' w \<and>
    tc_assert (sanity_TwoTestCase sample_T sample_J sample_L sample_labels) ''success'' w = Some False"
proof -
  let ?tc = "sanity_TwoTestCase sample_T sample_J sample_L sample_labels" and ?t = "sample_vote_in Prevote 1"
  let ?w0 = "world_at ?t [sample_r2] []"
  note t = sample_vote_in_parsed [OF disjI1 [OF refl], where r = 1]
  have "store_ok sample_T (lreplicas (observe_sample (ctx ?w0))) (lcap (observe_sample (ctx ?w0)))"
    by (simp add: store_ok_def sample_r2_def sample_usable)
  from Setup_result [OF sample_library this] obtain w1 p where setup1: "Setup sample_T sample_L [] ?w0 = Some w1"
    "w1 = ?w0\<lparr>ctx := ctx w1\<rparr>" "observe_sample (ctx w1) = (observe_sample (ctx ?w0))\<lparr>lvars :=
      (lvars (observe_sample (ctx ?w0)))(''n'' \<mapsto> VInt (lcap (observe_sample (ctx ?w0))),
       ''faults'' \<mapsto> VInt ((lcap (observe_sample (ctx ?w0)) - 1) sdiv 3), ''partition'' \<mapsto> VPartition p)\<rparr>"
    by (elim exE conjE) (rule that)
  have "tmsgs w1 = tmsgs ?w0" by (subst setup1(2)) simp
  note w1 = setup1(1) this setup1(3)
  have start: "run observe_sample ''start'' ?tc ?w0 ''start'' w1"
    by (rule run_start) (simp add: sanity_TwoTestCase_def w1(1))
  have pool: "pool_ok sample_L w1"
    using sample_pool_at [OF t(1), of "[sample_r2]" "[]"] w1(2,3)
    by (simp add: pool_ok_def GetMessageFromEvent_eq context_specD(1) [OF sample_library])
  have vars: "lvars (observe_sample (ctx w1)) k = None" if "k \<noteq> ''n''" "k \<noteq> ''faults''" "k \<noteq> ''partition''" for k
    using that by (simp add: w1(3))
  have seen0: "seen (observe_sample (ctx w1)) q = {}" for q
    by (simp add: seen_def vars replica_key_def)
  have ok: "round_counters_ok (observe_sample (ctx w1))"
    by (rule round_counters_okI) (simp_all add: seen0 vars round_key_def)
  have "carries sample_L w1 sample_send sample_message 0 ?t"
    using world_at_carries(1) [OF t(1), of "[sample_r2]" "[]"] carries_keep [OF sample_library _ w1(2)] w1(3) by simp
  then have obs: "sent_round sample_L sample_send w1 = Some (''r2'', 1)"
    using t(4) by (simp add: sent_round_def carriesD)
  have n: "n_of (observe_sample (ctx w1)) = 1" by (simp add: n_of_def w1(3))
  from RoundReached_step [OF sample_library pool ok, of 1 sample_send] obtain w2 where
    w2: "RoundReached sample_L 1 sample_send w1 = Some (True, w2)"
    using obs n seen0 by auto
  have "run observe_sample ''start'' ?tc ?w0 ''round1'' w2"
    using run_edge [OF start, of "RoundReached sample_L 1" "''round1''" sample_send True w2] w2
    by (simp add: sanity_TwoTestCase_def sample_labels_def)
  from run_edge [OF this, of "IsCommit sample_L" "''success''" sample_commit True w2]
  have run: "run observe_sample ''start'' ?tc ?w0 ''success'' w2"
    by (simp add: sanity_TwoTestCase_def sample_labels_def IsCommit_def sample_L_def sample_commit_def)
  have "tc_assert ?tc ''success'' w2 = Some False"
    by (rule sanity_assertions_fail [OF sample_library _ disjI1 [OF refl], of "\<lambda>e w. Some (([], True), w)" ?w0])
      (use run in \<open>simp_all add: dont_deliver_spec_def unwritten_def sample_labels_def\<close>)
  with run show ?thesis by blast
qed

section \<open>A run of the test of quorum intersection\<close>

text \<open>
  Two replicas prevote for a block in round 0, and with a third they prevote for it in round 1.
\<close>

definition prevote :: "string \<Rightarrow> 32 word \<Rightarrow> tmessage" where
  "prevote f r = (sample_vote_in Prevote r)\<lparr>From := f\<rparr>"

lemma prevote_parsed: "well_typed (prevote f r)" "MsgType (prevote f r) = Prevote" "From (prevote f r) = f"
  "Round (prevote f r) = Some (sint r)"
  "GetVoteBlockIDS sample_T (prevote f r) = Some (Some [char_of (7 :: nat)])"
  using sample_vote_in_parsed(1,4,5) [of Prevote r]
  by (simp_all add: prevote_def Round_def HeightRound_def well_typed_def GetVoteBlockIDS_def GetVoteBlockID_def
      inner_vote_def split: option.splits)

definition ballots :: "(string \<times> 32 word) list" where
  "ballots = [(''r1'', 0), (''r3'', 0), (''r1'', 1), (''r3'', 1), (''r4'', 1)]"

definition ballot_world :: "sample_context world" where
  "ballot_world = (world_of sample_replicas [])
     \<lparr>tmsgs := (\<lambda>n. if n < 5 then Some (prevote (fst (ballots ! n)) (snd (ballots ! n))) else None)\<rparr>"

definition after_ballots :: "nat \<Rightarrow> int \<Rightarrow> testCaseOneVoteCount" where
  "after_ballots n = fold (\<lambda>(f, r) V. votes_after V (sint r) [char_of (7 :: nat)] f) (take n ballots)
     (\<lambda>_. newTestCaseOneVoteCount)"

definition ballots_ok :: "partition \<Rightarrow> nat \<Rightarrow> sample_context world \<Rightarrow> bool" where
  "ballots_ok P n w \<longleftrightarrow> votes_ok observe_sample w \<and> votes_at observe_sample w = after_ballots n \<and>
     tmsgs w = tmsgs ballot_world \<and> lvars (observe_sample (ctx w)) ''partition'' = Some (VPartition (Some P)) \<and>
     lvars (observe_sample (ctx w)) ''faults'' = Some (VInt 1)"

definition ballot_test :: "(sample_event, sample_context) test_case" where
  "ballot_test = sanity_OneTestCase (\<lambda>_ _. rev) sample_T sample_J sample_L sample_labels"

text \<open>The scheduler puts the n-th ballot behind the event.\<close>

definition showing :: "nat \<Rightarrow> sample_context world \<Rightarrow> sample_context world" where
  "showing n w = w\<lparr>ctx := (ctx w)\<lparr>sc_messages :=
     [(''m1'', sample_message\<lparr>ParsedMessage := Some (ParsedTMessage n)\<rparr>)]\<rparr>\<rparr>"

lemma scheduler_step_showing: "scheduler_step observe_sample w (showing n w)"
  unfolding scheduler_step_def
  by (intro exI [of _ "lmessage (observe_sample (ctx (showing n w)))"]
      exI [of _ "lpool (observe_sample (ctx w))"] exI [of _ "sc_ended (ctx w)"] conjI)
    (simp_all add: showing_def observe_sample_def)

lemma ballots_ok_showing: "ballots_ok P n w \<Longrightarrow> ballots_ok P n (showing i w)"
  using votes_frame(2,3) [of observe_sample "showing i w" w]
  by (auto simp: ballots_ok_def showing_def observe_sample_def)

lemma ballot_step:
  assumes run: "run observe_sample ''start'' ballot_test ballot_world ''start'' w"
    and ok: "ballots_ok P n w" and P: "part_is sample_T P ''faulty'' [sample_r2]"
    and n: "n < 5" "ballots ! n = (f, r)" "f \<noteq> ''r2''"
    and res: "res = findIntersection rev (recorded (after_ballots (Suc n) (sint r)))
      (recorded (after_ballots (Suc n) 0)) 1"
  shows "\<exists>w'. run observe_sample ''start'' ballot_test ballot_world
      (if sint r \<noteq> 0 \<and> fst res then ''success'' else ''start'') w' \<and> ballots_ok P (Suc n) w'"
proof -
  let ?w = "showing n w"
  from ballots_ok_showing [OF ok] have ok': "votes_ok observe_sample ?w" "votes_at observe_sample ?w = after_ballots n"
    "tmsgs ?w = tmsgs ballot_world" "lvars (observe_sample (ctx ?w)) ''partition'' = Some (VPartition (Some P))"
    "lvars (observe_sample (ctx ?w)) ''faults'' = Some (VInt 1)"
    by (simp_all add: ballots_ok_def)
  have c: "carries sample_L ?w sample_send (sample_message\<lparr>ParsedMessage := Some (ParsedTMessage n)\<rparr>) n (prevote f r)"
    using n ok'(3) prevote_parsed(1)
    by (simp add: carries_def ballot_world_def GetParsedMessage_def showing_def sample_L_def sample_send_def)
  have f: "From (prevote f r) \<notin> ID ` set [sample_r2]" using n(3) by (simp add: prevote_parsed sample_r2_def)
  have "length ballots = 5" by (simp add: ballots_def)
  then have V: "after_ballots (Suc n) = votes_after (votes_at observe_sample ?w) (sint r)
      (case Some [char_of (7 :: nat)] of Some b \<Rightarrow> b | None \<Rightarrow> '''') (From (prevote f r))"
    using n(1,2) ok'(2) by (simp add: after_ballots_def take_Suc_conv_app_nth prevote_parsed)
  obtain w' where w': "quorumCond rev sample_T sample_L sample_send ?w = Some (sint r \<noteq> 0 \<and> fst res, w')"
    "votes_ok observe_sample w'" "votes_at observe_sample w' = after_ballots (Suc n)" "tmsgs w' = tmsgs ?w"
    "lvars (observe_sample (ctx w')) = (if sint r \<noteq> 0 \<and> fst res
      then (lvars (observe_sample (ctx ?w)))(''QuorumIntersection'' \<mapsto> VBool True)
      else lvars (observe_sample (ctx ?w)))"
    using quorumCond_honest [OF sample_library c prevote_parsed(2,4,5) ok'(4) P f ok'(5,1) V res]
    by (elim exE conjE) (rule that)
  have "run observe_sample ''start'' ballot_test ballot_world ''start'' ?w"
    by (rule run_scheduler [OF run scheduler_step_showing])
  from run_edge [OF this, of "\<lambda>e w. quorumCond rev sample_T sample_L e w" "''success''" sample_send _ w', OF _ w'(1)]
  have "run observe_sample ''start'' ballot_test ballot_world
      (if sint r \<noteq> 0 \<and> fst res then ''success'' else ''start'') w'"
    by (simp add: ballot_test_def sanity_OneTestCase_def sample_labels_def)
  moreover have "ballots_ok P (Suc n) w'"
    using w'(2-5) ok'(3-5) by (simp add: ballots_ok_def)
  ultimately show ?thesis by blast
qed

lemma ballot_start:
  "\<exists>P w. part_is sample_T P ''faulty'' [sample_r2] \<and>
    run observe_sample ''start'' ballot_test ballot_world ''start'' w \<and> ballots_ok P 0 w"
proof -
  let ?w0 = "ballot_world"
  have lib: "lreplicas (observe_sample (ctx ?w0)) = sample_replicas" "lcap (observe_sample (ctx ?w0)) = 4"
    by (simp_all add: ballot_world_def)
  then have store: "store_ok sample_T (lreplicas (observe_sample (ctx ?w0))) (lcap (observe_sample (ctx ?w0)))"
    by (simp add: sample_store)
  obtain w1 p where w1: "Setup sample_T sample_L [] ?w0 = Some w1" "w1 = ?w0\<lparr>ctx := ctx w1\<rparr>"
    "lvars (observe_sample (ctx w1)) ''partition'' = Some (VPartition p)"
    "byzantine_parts sample_T sample_replicas 1 ((4 - 1) sdiv 3) ''h'' ''faulty'' ''rest'' p"
    using Setup_result [OF sample_library store] unfolding lib by (elim exE conjE) (rule that, simp_all del: fun_upd_apply, simp)
  have "(3 :: int) sdiv 3 = 1" by (simp add: sdiv_nonneg)
  with w1(4) obtain P where P: "p = Some P" "part_is sample_T P ''faulty'' [sample_r2]"
    by (auto simp: byzantine_parts_def sample_replicas_def sample_r2_def)
  obtain w where w: "setupVoteCount sample_L w1 = Some w" by (simp add: setupVoteCount_def Let_def)
  then have su: "Setup sample_T sample_L [setupVoteCount sample_L] ?w0 = Some w"
    using w1(1) by (simp add: Setup_options [of sample_T sample_L "[setupVoteCount sample_L]"])
  have run: "run observe_sample ''start'' ballot_test ?w0 ''start'' w"
    by (rule run_start) (simp add: ballot_test_def sanity_OneTestCase_def su)
  have "tmsgs w1 = tmsgs ?w0" by (subst w1(2)) simp
  then have "tmsgs w = tmsgs ?w0" "lvars (observe_sample (ctx w)) ''partition'' = Some (VPartition (Some P))"
    using w w1(3) P(1) by (auto simp: setupVoteCount_def Let_def vars_specD [OF sample_library])
  moreover note sanity_one_setup [OF sample_library su]
  ultimately have "ballots_ok P 0 w"
    using lib(2) \<open>(3 :: int) sdiv 3 = 1\<close> by (auto simp: ballots_ok_def after_ballots_def)
  with P(2) run show ?thesis by blast
qed

lemma intersect_loop_none: "\<not> intersect_loop f [] rs i"
  by (induction rs) auto


end
