(* ===== verification/HigherProp_Runs.thy ===== *)
theory HigherProp_Runs
  imports HigherProp_Props LockedValue_Runs
begin

text \<open>
  Runs of the test \<open>HigherProp\<close>: what each state of its machine says about the execution, and
  that the variables a later condition reads without a check have been written by then.
\<close>

section \<open>What the code writes\<close>

definition new_known :: "('c \<Rightarrow> 'e lib_state) \<Rightarrow> 'c world \<Rightarrow> bool" where
  "new_known \<alpha> w \<longleftrightarrow>
     (\<exists>s b. lvars (\<alpha> (ctx w)) ''newProposal'' = Some (VString s) \<and>
       lvars (\<alpha> (ctx w)) ''newProposalBlockID'' = Some (VBlockID b))"

definition reproposed :: "('c \<Rightarrow> 'e lib_state) \<Rightarrow> 'c world \<Rightarrow> bool" where
  "reproposed \<alpha> w \<longleftrightarrow>
     (\<exists>q :: 32 word. lvars (\<alpha> (ctx w)) ''newPropReproposeRound'' = Some (VInt (sint q)))"

definition block_typed :: "('c \<Rightarrow> 'e lib_state) \<Rightarrow> 'c world \<Rightarrow> bool" where
  "block_typed \<alpha> w \<longleftrightarrow>
     (case lvars (\<alpha> (ctx w)) ''newProposalBlockID'' of None \<Rightarrow> True | Some v \<Rightarrow> \<exists>b. v = VBlockID b)"

text \<open>
  A step that writes variables of proposals only, keeps a known new proposal known, a round of
  the second proposal recorded, and the type of the variable with the block.
\<close>

definition proposal_vars :: "string set" where
  "proposal_vars = {''oldProposal'', ''newProposal'', ''newProposalBlockID'', ''newPropReproposeRound''}"

definition hp_quiet :: "('c \<Rightarrow> 'e lib_state) \<Rightarrow> 'c world \<Rightarrow> 'c world \<Rightarrow> bool" where
  "hp_quiet \<alpha> w w' \<longleftrightarrow> keeps \<alpha> proposal_vars w w' \<and> (new_known \<alpha> w \<longrightarrow> new_known \<alpha> w') \<and>
     (reproposed \<alpha> w \<longrightarrow> reproposed \<alpha> w') \<and> (block_typed \<alpha> w \<longrightarrow> block_typed \<alpha> w')"

lemma hp_quiet_refl [simp]: "hp_quiet \<alpha> w w"
  by (simp add: hp_quiet_def)

lemma hp_quiet_keeps:
  assumes "keeps \<alpha> {''oldProposal''} w w'"
  shows "hp_quiet \<alpha> w w'"
proof -
  have "keeps \<alpha> proposal_vars w w'" by (rule keeps_mono [OF assms]) (simp add: proposal_vars_def)
  moreover have "lvars (\<alpha> (ctx w')) k = lvars (\<alpha> (ctx w)) k" if "k \<noteq> ''oldProposal''" for k
    by (rule keepsD(1) [OF assms]) (use that in simp)
  ultimately show ?thesis by (simp add: hp_quiet_def new_known_def reproposed_def block_typed_def)
qed

lemma hp_quiet_old:
  assumes "testlib_spec L \<alpha>"
  shows "keeps \<alpha> {''oldProposal''} w (set_var L ''oldProposal'' v w)"
    and "hp_quiet \<alpha> w (set_var L ''oldProposal'' v w)"
proof -
  show "keeps \<alpha> {''oldProposal''} w (set_var L ''oldProposal'' v w)"
    by (rule keeps_set_var [OF assms]) simp
  then show "hp_quiet \<alpha> w (set_var L ''oldProposal'' v w)" by (rule hp_quiet_keeps)
qed

lemma hp_quiet_new:
  assumes "testlib_spec L \<alpha>"
  shows "hp_quiet \<alpha> w (set_var L ''newProposalBlockID'' (VBlockID b) (set_var L ''newProposal'' (VString s) w))"
    and "new_known \<alpha> (set_var L ''newProposalBlockID'' (VBlockID b) (set_var L ''newProposal'' (VString s) w))"
  by (simp_all add: hp_quiet_def proposal_vars_def new_known_def reproposed_def block_typed_def keeps_def vars_specD [OF assms])

lemma hp_quiet_round:
  assumes "testlib_spec L \<alpha>"
  shows "hp_quiet \<alpha> w (set_var L ''newPropReproposeRound'' (VInt (sint (q :: 32 word))) w)"
    and "reproposed \<alpha> (set_var L ''newPropReproposeRound'' (VInt (sint (q :: 32 word))) w)"
  by (auto simp: hp_quiet_def proposal_vars_def new_known_def reproposed_def block_typed_def keeps_def vars_specD [OF assms])

section \<open>Filters and conditions\<close>

lemma hp_faultyFilter_quiet:
  assumes "testlib_spec L \<alpha>" and "hp_faultyFilter T J L e w = Some (out, w')"
  shows "keeps \<alpha> {''oldProposal''} w w'"
proof -
  have send: "keeps \<alpha> {''oldProposal''} w w'"
    if "hp_send_vote T J L m (ChangeVote T r a b w) = Some (out, w')" for m r a b
    using that
    by (auto simp: hp_send_vote_def
        intro: frames keeps_trans [OF keeps_ChangeVote keeps_Marshal]
          keeps_replace_message [OF assms(1) keeps_ChangeVote]
        split: if_splits option.splits Option.bind_splits sum.splits prod.splits)
  from assms(2) show ?thesis
    unfolding hp_faultyFilter_def Let_def
    by (auto simp: Option.bind_eq_Some_conv ChangeVoteToNil_def dest: send
        split: if_split_asm option.split_asm var_value.split_asm)
qed

lemma hp_round0_quiet:
  assumes "testlib_spec L \<alpha>" and "hp_round0 ord T L e w = Some (out, w')"
  shows "keeps \<alpha> {''oldProposal''} w w'"
  using assms(2) unfolding hp_round0_def Let_def
  by (auto simp: Option.bind_eq_Some_conv hp_quiet_old [OF assms(1)] split: if_split_asm option.split_asm)

lemma hp_propFilter_quiet:
  assumes lib: "testlib_spec L \<alpha>" and run: "hp_propFilter T L e w = Some (out, w')"
  shows "hp_quiet \<alpha> w w'"
proof (cases "message_of L e w")
  case None
  with run show ?thesis by (simp add: hp_propFilter_def)
next
  case (Some ma)
  with run obtain t where t: "tmsgs w (snd ma) = Some t"
    by (cases ma) (auto simp: hp_propFilter_def Option.bind_eq_Some_conv)
  show ?thesis
  proof (cases "MsgType t = Proposal")
    case False
    with run Some t show ?thesis by (cases ma) (simp add: hp_propFilter_def)
  next
    case True
    with run Some t obtain r ids where r: "Round t = Some r" "GetProposalBlockIDS T t = Some ids"
      by (cases ma) (auto simp: hp_propFilter_def Option.bind_eq_Some_conv)
    have unf: "hp_propFilter T L e w =
        (if r = 0 then Some (([Some (fst ma)], True), set_var L ''oldProposal'' (VString (hp_block_text ids)) w)
         else if hp_block_text ids \<noteq> string_var L ''oldProposal'' w then do {
           blockID \<leftarrow> GetProposalBlockID T t;
           Some (([Some (fst ma)], True), set_var L ''newProposalBlockID'' (VBlockID blockID)
             (set_var L ''newProposal'' (VString (hp_block_text ids)) w)) }
         else Some (([], True), w))"
      using Some t True r by (cases ma) (simp add: hp_propFilter_def)
    show ?thesis
      using run hp_quiet_new [OF lib] hp_quiet_old [OF lib] unfolding unf
      by (cases "r = 0"; cases "hp_block_text ids = string_var L ''oldProposal'' w"; cases "GetProposalBlockID T t") auto
  qed
qed

lemma hp_diffPropSeen_result:
  assumes "testlib_spec L \<alpha>" and "hp_diffPropSeen T L e w = Some (b, w')"
  shows "hp_quiet \<alpha> w w' \<and> (b \<longrightarrow> new_known \<alpha> w')"
  using assms(2) unfolding hp_diffPropSeen_def Let_def
  by (auto simp: Option.bind_eq_Some_conv hp_quiet_new [OF assms(1)] split: if_split_asm option.split_asm)

lemma hp_newPropSeen_result:
  assumes "testlib_spec L \<alpha>" and "hp_newPropSeen T L e w = Some (b, w')"
  shows "hp_quiet \<alpha> w w' \<and> (b \<longrightarrow> reproposed \<alpha> w')"
  using assms(2) unfolding hp_newPropSeen_def Let_def
  by (auto simp: Option.bind_eq_Some_conv hp_quiet_round [OF assms(1)] split: if_split_asm option.split_asm)

lemma hp_votes_same:
  "hp_vote_for ord key T L e w = Some (b, w') \<Longrightarrow> w' = w"
  "hp_rOldVote T L e w = Some (b, w') \<Longrightarrow> w' = w"
  unfolding hp_vote_for_def hp_rOldVote_def Let_def
  by (auto simp: Option.bind_eq_Some_conv split: if_split_asm option.split_asm)

lemma hp_valueLockedCond_result:
  assumes "testlib_spec L \<alpha>" and "hp_valueLockedCond T L e w = Some (b, w')"
    and "lvars (\<alpha> (ctx w)) ''faults'' = Some (VInt f)"
  shows "keeps \<alpha> {''prevotesSent''} w w' \<and> (b \<longrightarrow> 2 * f \<le> prevotes_sent \<alpha> w')"
  using assms(2,3) unfolding hp_valueLockedCond_def Let_def
  by (auto simp: Option.bind_eq_Some_conv vars_specD [OF assms(1)] prevotes_sent_def
      intro: keeps_set_var [OF assms(1)] split: if_split_asm option.split_asm)

text \<open>The condition on rounds is the one of \<open>lockedvalue\<close> that records the round besides.\<close>

lemma sanity_roundReached_lv:
  assumes "sanity_roundReached L q e w = Some (b, w')"
  obtains w1 where "lv_roundReached L q e w = Some (b, w1)"
    and "w' = (if b then set_var L ''CurRound'' (VInt q) w1 else w1)"
  using assms unfolding sanity_roundReached_def lv_roundReached_def
  by (auto simp: Option.bind_eq_Some_conv split: option.split_asm if_split_asm)

section \<open>Runs\<close>

text \<open>How many edges of the main path lie behind a state; the failed state can be entered from the fourth.\<close>

definition hp_stage :: "labels \<Rightarrow> string \<Rightarrow> nat" where
  "hp_stage lb s =
     (if s = StartStateLabel lb then 0 else if s = ''ValueLocked'' then 1
      else if s = ''Round1'' then 2 else if s = ''DiffProposal'' \<or> s = FailStateLabel lb then 3 else 4)"

definition hp_inv :: "('c \<Rightarrow> 'e lib_state) \<Rightarrow> int \<Rightarrow> labels \<Rightarrow> string \<Rightarrow> 'c world \<Rightarrow> bool" where
  "hp_inv \<alpha> n lb s w \<longleftrightarrow>
     round_count_ok \<alpha> ''roundCount'' w \<and> lcap (\<alpha> (ctx w)) = n \<and>
     lvars (\<alpha> (ctx w)) ''faults'' = Some (VInt ((n - 1) sdiv 3)) \<and>
     (1 \<le> hp_stage lb s \<longrightarrow> 2 * ((n - 1) sdiv 3) \<le> prevotes_sent \<alpha> w) \<and>
     (2 \<le> hp_stage lb s \<longrightarrow> n \<le> count_reached 1 (round_count \<alpha> ''roundCount'' w)) \<and>
     (3 \<le> hp_stage lb s \<longrightarrow> new_known \<alpha> w) \<and> (4 \<le> hp_stage lb s \<longrightarrow> reproposed \<alpha> w)"

text \<open>Two worlds that agree on what the invariant reads.\<close>

lemma hp_inv_frame:
  assumes "hp_inv \<alpha> n lb s w" and "round_count \<alpha> ''roundCount'' w' = round_count \<alpha> ''roundCount'' w"
    and "round_count_ok \<alpha> ''roundCount'' w'" and "lcap (\<alpha> (ctx w')) = lcap (\<alpha> (ctx w))"
    and "lvars (\<alpha> (ctx w')) ''faults'' = lvars (\<alpha> (ctx w)) ''faults''"
    and "prevotes_sent \<alpha> w' = prevotes_sent \<alpha> w"
    and "new_known \<alpha> w \<longrightarrow> new_known \<alpha> w'" and "reproposed \<alpha> w \<longrightarrow> reproposed \<alpha> w'"
  shows "hp_inv \<alpha> n lb s w'"
  using assms by (simp add: hp_inv_def)

lemma hp_inv_quiet:
  assumes "hp_inv \<alpha> n lb s w" and "hp_quiet \<alpha> w w'"
  shows "hp_inv \<alpha> n lb s w'"
proof -
  have k: "keeps \<alpha> proposal_vars w w'" using assms(2) by (simp add: hp_quiet_def)
  have vars: "lvars (\<alpha> (ctx w')) x = lvars (\<alpha> (ctx w)) x" if "x \<in> {''roundCount'', ''faults'', ''prevotesSent''}" for x
    by (rule keepsD(1) [OF k]) (use that in \<open>auto simp: proposal_vars_def\<close>)
  have "round_count_ok \<alpha> ''roundCount'' w" using assms(1) by (simp add: hp_inv_def)
  then show ?thesis
    using assms(2) vars keepsD(2,4) [OF k] round_count_keeps [of \<alpha> proposal_vars w w' "''roundCount''"] k
    by (intro hp_inv_frame [OF assms(1)])
      (simp_all add: round_count_ok_def prevotes_sent_def hp_quiet_def proposal_vars_def)
qed

lemma hp_inv_scheduler:
  assumes "hp_inv \<alpha> n lb s w" and "scheduler_step \<alpha> w w'"
  shows "hp_inv \<alpha> n lb s w'"
  using assms scheduler_stepD [OF assms(2)] round_count_keeps [of \<alpha> "{}" w w' "''roundCount''"]
  by (simp add: hp_inv_def round_count_ok_def prevotes_sent_def new_known_def reproposed_def)

lemma higherPropSetup_result:
  assumes "testlib_spec L \<alpha>" and "higherPropSetup ord T L w0 = Some w"
    and "k \<notin> {''faults'', ''partition'', ''faultyReplica''}"
  shows "lvars (\<alpha> (ctx w)) ''faults'' = Some (VInt ((lcap (\<alpha> (ctx w0)) - 1) sdiv 3))"
    and "lcap (\<alpha> (ctx w)) = lcap (\<alpha> (ctx w0))" and "int_maps w = int_maps w0"
    and "lvars (\<alpha> (ctx w)) k = lvars (\<alpha> (ctx w0)) k"
  using assms(2,3)
  by (auto simp: higherPropSetup_def Let_def Option.bind_eq_Some_conv vars_specD [OF assms(1)]
      context_specD [OF assms(1)])

lemma hp_inv_start:
  assumes "testlib_spec L \<alpha>" and "higherPropSetup ord T L w0 = Some w"
    and "lvars (\<alpha> (ctx w0)) ''roundCount'' = None"
  shows "hp_inv \<alpha> (lcap (\<alpha> (ctx w0))) lb (StartStateLabel lb) w"
  using higherPropSetup_result [OF assms(1,2), of "''roundCount''"] assms(3)
  by (simp add: hp_inv_def hp_stage_def round_count_ok_def)

lemma hp_inv_locked:
  assumes lib: "testlib_spec L \<alpha>" and inv: "hp_inv \<alpha> n lb (StartStateLabel lb) w"
    and run: "hp_valueLockedCond T L e w = Some (b, w')" and "StartStateLabel lb \<noteq> ''ValueLocked''"
  shows "hp_inv \<alpha> n lb (if b then ''ValueLocked'' else StartStateLabel lb) w'"
proof -
  from hp_valueLockedCond_result [OF lib run] inv
  have k: "keeps \<alpha> {''prevotesSent''} w w'" and locked: "b \<longrightarrow> 2 * ((n - 1) sdiv 3) \<le> prevotes_sent \<alpha> w'"
    by (auto simp: hp_inv_def)
  have "lvars (\<alpha> (ctx w')) ''faults'' = lvars (\<alpha> (ctx w)) ''faults''"
    "lvars (\<alpha> (ctx w')) ''roundCount'' = lvars (\<alpha> (ctx w)) ''roundCount''"
    by (rule keepsD(1) [OF k], simp)+
  then show ?thesis
    using inv keepsD(2,4) [OF k] locked assms(4)
    by (simp add: hp_inv_def hp_stage_def round_count_ok_def)
qed

lemma hp_inv_round:
  assumes lib: "testlib_spec L \<alpha>" and inv: "hp_inv \<alpha> n lb ''ValueLocked'' w"
    and run: "sanity_roundReached L 1 e w = Some (b, w')"
    and d: "StartStateLabel lb \<noteq> ''ValueLocked''" "StartStateLabel lb \<noteq> ''Round1''"
  shows "hp_inv \<alpha> n lb (if b then ''Round1'' else ''ValueLocked'') w'"
proof -
  obtain w1 where lv: "lv_roundReached L 1 e w = Some (b, w1)"
    and w': "w' = (if b then set_var L ''CurRound'' (VInt 1) w1 else w1)"
    by (rule sanity_roundReached_lv [OF run])
  have ok: "round_count_ok \<alpha> ''roundCount'' w" using inv by (simp add: hp_inv_def)
  note r = lv_roundReached_result [OF lib ok lv]
  have same: "lvars (\<alpha> (ctx w')) x = lvars (\<alpha> (ctx w1)) x" if "x \<noteq> ''CurRound''" for x
    using that by (simp add: w' vars_specD [OF lib])
  have "int_maps w' = int_maps w1" "lcap (\<alpha> (ctx w')) = lcap (\<alpha> (ctx w1))"
    by (simp_all add: w' vars_specD [OF lib] set_var_def)
  moreover from this have "round_count \<alpha> ''roundCount'' w' = round_count \<alpha> ''roundCount'' w1"
    using same [of "''roundCount''"] round_count_cong(1) [of \<alpha> w'] by simp
  ultimately have "round_count \<alpha> ''roundCount'' w' = round_count \<alpha> ''roundCount'' w1"
    "round_count_ok \<alpha> ''roundCount'' w'" "prevotes_sent \<alpha> w' = prevotes_sent \<alpha> w" "lcap (\<alpha> (ctx w')) = n"
    "lvars (\<alpha> (ctx w')) ''faults'' = Some (VInt ((n - 1) sdiv 3))"
    using same [of "''roundCount''"] same [of "''prevotesSent''"] same [of "''faults''"] r(1,4)
      r(6) [of "''prevotesSent''"] r(6) [of "''faults''"] inv
    by (simp_all add: round_count_ok_def prevotes_sent_def hp_inv_def)
  moreover have "b \<Longrightarrow> n \<le> count_reached 1 (round_count \<alpha> ''roundCount'' w1)"
    using r(3,4) inv by (simp add: hp_inv_def)
  moreover have "2 * ((n - 1) sdiv 3) \<le> prevotes_sent \<alpha> w"
    using inv d(1) by (simp add: hp_inv_def hp_stage_def)
  ultimately show ?thesis using d by (simp add: hp_inv_def hp_stage_def)
qed

text \<open>The last three edges out of a state: a quiet step to a state that is not further on.\<close>

lemma hp_inv_move:
  assumes "hp_inv \<alpha> n lb s w" and "hp_quiet \<alpha> w w'" and "hp_stage lb s' \<le> Suc (hp_stage lb s)" and "2 \<le> hp_stage lb s"
    and "3 \<le> hp_stage lb s' \<longrightarrow> new_known \<alpha> w'" and "4 \<le> hp_stage lb s' \<longrightarrow> reproposed \<alpha> w'"
  shows "hp_inv \<alpha> n lb s' w'"
  using hp_inv_quiet [OF assms(1,2)] assms(3-6) by (simp add: hp_inv_def)

lemma hp_edgeE:
  assumes "(s, c, s') \<in> set (tc_edges (sanity_HigherProp ord0 ord T J L lb))"
  obtains (locked) "c = hp_valueLockedCond T L" "s = StartStateLabel lb" "s' = ''ValueLocked''"
    | (round) "c = sanity_roundReached L 1" "s = ''ValueLocked''" "s' = ''Round1''"
    | (diff) "c = hp_diffPropSeen T L" "s = ''Round1''" "s' = ''DiffProposal''"
    | (again) "c = hp_newPropSeen T L" "s = ''DiffProposal''" "s' = ''DiffProposalReproposed''"
    | (old) "c = hp_rOldVote T L" "s = ''DiffProposal''" "s' = FailStateLabel lb"
    | (vote) "c = (\<lambda>e w. hp_hNewVote (ord e w) T L e w) \<or> c = (\<lambda>e w. hp_hOldVote (ord e w) T L e w)"
        "s = ''DiffProposalReproposed''" "s' = SuccessStateLabel lb \<or> s' = FailStateLabel lb"
proof -
  have "c = hp_valueLockedCond T L \<and> s = StartStateLabel lb \<and> s' = ''ValueLocked'' \<or>
    c = sanity_roundReached L 1 \<and> s = ''ValueLocked'' \<and> s' = ''Round1'' \<or>
    c = hp_diffPropSeen T L \<and> s = ''Round1'' \<and> s' = ''DiffProposal'' \<or>
    c = hp_newPropSeen T L \<and> s = ''DiffProposal'' \<and> s' = ''DiffProposalReproposed'' \<or>
    c = hp_rOldVote T L \<and> s = ''DiffProposal'' \<and> s' = FailStateLabel lb \<or>
    c = (\<lambda>e w. hp_hNewVote (ord e w) T L e w) \<and> s = ''DiffProposalReproposed'' \<and> s' = SuccessStateLabel lb \<or>
    c = (\<lambda>e w. hp_hOldVote (ord e w) T L e w) \<and> s = ''DiffProposalReproposed'' \<and> s' = FailStateLabel lb"
    using assms unfolding sanity_HigherProp_def test_case.simps list.set
    by (elim insertE emptyE) (simp_all only: prod.inject simp_thms)
  from this that show ?thesis by (elim disjE conjE) blast+
qed

lemma hp_inv_edge:
  assumes lib: "testlib_spec L \<alpha>" and inv: "hp_inv \<alpha> n lb s w"
    and d: "distinct [StartStateLabel lb, SuccessStateLabel lb, FailStateLabel lb, ''ValueLocked'',
      ''Round1'', ''DiffProposal'', ''DiffProposalReproposed'']"
    and edge: "(s, c, s') \<in> set (tc_edges (sanity_HigherProp ord0 ord T J L lb))" and run: "c e w = Some (b, w')"
  shows "hp_inv \<alpha> n lb (if b then s' else s) w'"
proof -
  have stage: "hp_stage lb ''Round1'' = 2" "hp_stage lb ''DiffProposal'' = 3" "hp_stage lb (FailStateLabel lb) = 3"
    "hp_stage lb ''DiffProposalReproposed'' = 4" "hp_stage lb (SuccessStateLabel lb) = 4"
    using d by (auto simp: hp_stage_def)
  from edge show ?thesis
  proof (cases rule: hp_edgeE)
    case locked
    with run have "hp_valueLockedCond T L e w = Some (b, w')" by simp
    moreover have "StartStateLabel lb \<noteq> ''ValueLocked''" using d by simp
    ultimately show ?thesis
      unfolding locked(2,3) by (rule hp_inv_locked [OF lib inv [unfolded locked(2)]])
  next
    case round
    with run have "sanity_roundReached L 1 e w = Some (b, w')" by simp
    moreover have "StartStateLabel lb \<noteq> ''ValueLocked''" "StartStateLabel lb \<noteq> ''Round1''" using d by simp_all
    ultimately show ?thesis
      unfolding round(2,3) by (rule hp_inv_round [OF lib inv [unfolded round(2)]])
  next
    case diff
    with run have q: "hp_quiet \<alpha> w w' \<and> (b \<longrightarrow> new_known \<alpha> w')"
      by (intro hp_diffPropSeen_result [OF lib]) simp
    with hp_inv_move [OF inv, of w' s'] hp_inv_quiet [OF inv] show ?thesis
      by (cases b) (simp_all add: diff stage)
  next
    case again
    with run have "hp_quiet \<alpha> w w' \<and> (b \<longrightarrow> reproposed \<alpha> w')"
      by (intro hp_newPropSeen_result [OF lib]) simp
    moreover have "new_known \<alpha> w" using inv by (simp add: hp_inv_def again(2) stage)
    ultimately show ?thesis
      using hp_inv_move [OF inv, of w' s'] hp_inv_quiet [OF inv, of w']
      by (cases b) (simp_all add: again stage hp_quiet_def)
  next
    case old
    with run have "hp_rOldVote T L e w = Some (b, w')" by simp
    then have "w' = w" by (rule hp_votes_same(2))
    with inv show ?thesis by (simp add: hp_inv_def old(2,3) stage)
  next
    case vote
    with run obtain key where "hp_vote_for (ord e w) key T L e w = Some (b, w')"
      by (auto simp: hp_hNewVote_def hp_hOldVote_def)
    then have "w' = w" by (rule hp_votes_same(1))
    with inv vote(3) show ?thesis by (auto simp: hp_inv_def vote(2) stage)
  qed
qed


end
