(* ===== verification/HigherProp_Returns.thy ===== *)
theory HigherProp_Returns
  imports HigherProp_Runs Rskip_Runs
begin

text \<open>
  When the test \<open>HigherProp\<close> can panic. Nothing panics in any state that a schedule can reach, but
  for one filter in one situation: the block identifier of the new proposal did not convert, its
  nil pointer is kept in \<open>newProposalBlockID\<close>, and the filter of the faulty replica reads through it.
\<close>

section \<open>What the setup establishes and every step keeps\<close>

definition hp_fixed :: "'k tendermint \<Rightarrow> ('c \<Rightarrow> 'e lib_state) \<Rightarrow> replica list \<Rightarrow> 'c world \<Rightarrow> bool" where
  "hp_fixed T \<alpha> rs w \<longleftrightarrow> byz_setup T \<alpha> rs w \<and>
     (\<exists>fr \<in> set (take (nat (faults_of rs)) rs). lvars (\<alpha> (ctx w)) ''faultyReplica'' = Some (VReplica (Some fr)))"

definition hp_ok :: "'k tendermint \<Rightarrow> ('c \<Rightarrow> 'e lib_state) \<Rightarrow> replica list \<Rightarrow> 'c world \<Rightarrow> bool" where
  "hp_ok T \<alpha> rs w \<longleftrightarrow> hp_fixed T \<alpha> rs w \<and> round_count_ok \<alpha> ''roundCount'' w \<and> block_typed \<alpha> w"

lemma hp_ok_frame:
  assumes "hp_ok T \<alpha> rs w"
    and "\<And>k. k \<in> {''partition'', ''faultyReplica'', ''faults''} \<Longrightarrow>
      lvars (\<alpha> (ctx w')) k = lvars (\<alpha> (ctx w)) k"
    and "lreplicas (\<alpha> (ctx w')) = lreplicas (\<alpha> (ctx w))" and "lcap (\<alpha> (ctx w')) = lcap (\<alpha> (ctx w))"
    and "round_count_ok \<alpha> ''roundCount'' w'" and "block_typed \<alpha> w \<Longrightarrow> block_typed \<alpha> w'"
  shows "hp_ok T \<alpha> rs w'"
proof -
  have "byz_setup T \<alpha> rs w" using assms(1) by (simp add: hp_ok_def hp_fixed_def)
  then have "byz_setup T \<alpha> rs w'" by (rule byz_setup_cong) (use assms(2-4) in auto)
  with assms show ?thesis by (simp add: hp_ok_def hp_fixed_def)
qed

lemma hp_ok_keeps:
  assumes "hp_ok T \<alpha> rs w" and k: "keeps \<alpha> K w w'"
    and "K \<inter> {''partition'', ''faultyReplica'', ''faults'', ''roundCount''} = {}"
    and "block_typed \<alpha> w \<Longrightarrow> block_typed \<alpha> w'"
  shows "hp_ok T \<alpha> rs w'"
proof -
  have same: "lvars (\<alpha> (ctx w')) x = lvars (\<alpha> (ctx w)) x"
    if "x \<in> {''partition'', ''faultyReplica'', ''faults'', ''roundCount''}" for x
    by (rule keepsD(1) [OF k]) (use that assms(3) in blast)
  have "round_count_ok \<alpha> ''roundCount'' w'"
    using round_count_cong(2) [OF same keepsD(4) [OF k], of "''roundCount''"] assms(1) by (simp add: hp_ok_def)
  then show ?thesis
    by (intro hp_ok_frame [OF assms(1)] same keepsD(2,3) [OF k] assms(4)) auto
qed

lemma hp_ok_quiet: "hp_ok T \<alpha> rs w \<Longrightarrow> hp_quiet \<alpha> w w' \<Longrightarrow> hp_ok T \<alpha> rs w'"
  by (rule hp_ok_keeps [of T \<alpha> rs w proposal_vars]) (auto simp: hp_quiet_def proposal_vars_def)

lemma hp_ok_scheduler: "hp_ok T \<alpha> rs w \<Longrightarrow> scheduler_step \<alpha> w w' \<Longrightarrow> hp_ok T \<alpha> rs w'"
proof -
  assume ok: "hp_ok T \<alpha> rs w" and step: "scheduler_step \<alpha> w w'"
  from scheduler_stepD(1,4) [OF step] have "round_count_ok \<alpha> ''roundCount'' w'"
    using round_count_cong(2) [of \<alpha> w' "''roundCount''" w] ok by (simp add: hp_ok_def)
  then show ?thesis
    by (intro hp_ok_frame [OF ok]) (simp_all add: scheduler_stepD [OF step] block_typed_def)
qed

lemma hp_ok_round:
  assumes lib: "testlib_spec L \<alpha>" and ok: "hp_ok T \<alpha> rs w" and run: "sanity_roundReached L q e w = Some (b, w')"
  shows "hp_ok T \<alpha> rs w'"
proof -
  obtain w1 where lv: "lv_roundReached L q e w = Some (b, w1)"
    and w': "w' = (if b then set_var L ''CurRound'' (VInt q) w1 else w1)"
    by (rule sanity_roundReached_lv [OF run])
  have rok: "round_count_ok \<alpha> ''roundCount'' w" using ok by (simp add: hp_ok_def)
  note r = lv_roundReached_result [OF lib rok lv]
  have "hp_ok T \<alpha> rs w1"
    by (rule hp_ok_frame [OF ok]) (use r(1,4,5) r(6) in \<open>auto simp: block_typed_def\<close>)
  moreover have k: "keeps \<alpha> {''CurRound''} w1 w'"
    by (simp add: w' keeps_set_var [OF lib])
  moreover have "block_typed \<alpha> w1 \<Longrightarrow> block_typed \<alpha> w'"
    using keepsD(1) [OF k, of "''newProposalBlockID''"] by (simp add: block_typed_def)
  ultimately show ?thesis by (intro hp_ok_keeps [OF _ k]) simp_all
qed

text \<open>The last id of a part that is not empty is one of its replicas.\<close>

lemma hp_last_in_part:
  assumes "part_is T P l hs" and "hs \<noteq> []" and "\<And>xs. set (ord xs) = set xs"
  obtains p i where "Partition_GetPart (Some P) l = Some (Some p)" and "hp_last_replica ord (Some p) = Some i"
    and "i \<in> ID ` set hs"
proof -
  obtain p where p: "Partition_GetPart (Some P) l = Some (Some p)"
    "\<And>i. Part_Contains (Some p) i = Some (i \<in> ID ` set hs)"
    using assms(1) by (auto simp: part_is_def)
  have "i \<in> fst ` set (replicas (ReplicaSet p)) \<longleftrightarrow> i \<in> ID ` set hs" for i
    using p(2) [of i] by (simp add: Part_Contains_def ReplicaSet_Exists_def map_of_eq_None_iff)
  then have ids: "set (ReplicaSet_Iter ord (ReplicaSet p)) = ID ` set hs"
    using assms(3) by (auto simp: ReplicaSet_Iter_def)
  have ne: "ReplicaSet_Iter ord (ReplicaSet p) \<noteq> []"
  proof
    assume "ReplicaSet_Iter ord (ReplicaSet p) = []"
    with ids assms(2) show False by simp
  qed
  from last_in_set [OF ne] ids have "last (ReplicaSet_Iter ord (ReplicaSet p)) \<in> ID ` set hs" by simp
  with ne p(1) show ?thesis
    by (intro that [of p]) (simp_all add: hp_last_replica_def foldl_last)
qed

lemma higherPropSetup_ok:
  assumes lib: "testlib_spec L \<alpha>" and fit: "replicas_fit T (lreplicas (\<alpha> (ctx w0))) (lcap (\<alpha> (ctx w0)))"
    and ord: "\<And>xs. set (ord xs) = set xs"
    and fresh: "lvars (\<alpha> (ctx w0)) ''roundCount'' = None" "lvars (\<alpha> (ctx w0)) ''newProposalBlockID'' = None"
  shows "\<exists>w. higherPropSetup ord T L w0 = Some w \<and> hp_ok T \<alpha> (lreplicas (\<alpha> (ctx w0))) w"
proof -
  let ?rs = "lreplicas (\<alpha> (ctx w0))"
  let ?f = "faults_of ?rs"
  have cap: "lcap (\<alpha> (ctx w0)) = int (length ?rs)" and len: "4 \<le> length ?rs"
    using fit by (auto simp: replicas_fit_def store_ok_def)
  obtain P where P: "create_partition T L [?f, 1, 2 * ?f] [''faulty'', ''honestDelayed'', ''rest''] w0 = Some (Some P)"
    "part_is T P ''faulty'' (take (nat ?f) ?rs)" "part_is T P ''honestDelayed'' [?rs ! nat ?f]"
    "part_is T P ''rest'' (drop (nat ?f + 1) ?rs)"
    using byz_partition [OF lib fit refl] by blast
  have "take (nat ?f) ?rs \<noteq> []" using faults_pos(1) [OF len] len by auto
  then obtain q i where q: "Partition_GetPart (Some P) ''faulty'' = Some (Some q)" "hp_last_replica ord (Some q) = Some i"
    "i \<in> ID ` set (take (nat ?f) ?rs)"
    using hp_last_in_part [OF P(2) _ ord] by blast
  then obtain fr where fr: "fr \<in> set (take (nat ?f) ?rs)" "ID fr = i" by auto
  with set_take_subset have found: "find (\<lambda>x. ID x = i) ?rs = Some fr"
    using find_by_ID [of fr ?rs] fit by (force simp: replicas_fit_def store_ok_def)
  let ?w = "set_var L ''faults'' (VInt ?f) (set_var L ''partition'' (VPartition (Some P))
       (set_var L ''faultyReplica'' (VReplica (Some fr)) w0))"
  have "higherPropSetup ord T L w0 = Some ?w"
    using P(1) q found
    by (simp add: higherPropSetup_def context_specD [OF lib] cap Let_def Partition_String_def)
  moreover have "hp_ok T \<alpha> ?rs ?w"
    using P(2-4) fr(1) cap fresh
    by (simp add: hp_ok_def hp_fixed_def byz_setup_def vars_specD [OF lib] round_count_ok_def block_typed_def)
  ultimately show ?thesis by blast
qed

section \<open>The operations return\<close>

text \<open>The parts and replicas that the code reads.\<close>

lemma hp_ok_reads:
  assumes lib: "testlib_spec L \<alpha>" and ok: "hp_ok T \<alpha> rs w" and fit: "replicas_fit T rs cap"
  obtains P fr h where "sanity_getPartition L w = Some (Some P)"
    and "part_is T P ''honestDelayed'' [h]" and "h \<in> set rs" and "usable T h"
    and "part_is T P ''rest'' (drop (nat (faults_of rs) + 1) rs)"
    and "lvars (\<alpha> (ctx w)) ''faultyReplica'' = Some (VReplica (Some fr))" and "fr \<in> set rs" and "usable T fr"
proof -
  have byz: "byz_setup T \<alpha> rs w" using ok by (simp add: hp_ok_def hp_fixed_def)
  then obtain P where P: "lvars (\<alpha> (ctx w)) ''partition'' = Some (VPartition (Some P))"
    "part_is T P ''honestDelayed'' [rs ! nat (faults_of rs)]" "part_is T P ''rest'' (drop (nat (faults_of rs) + 1) rs)"
    by (auto simp: byz_setup_def)
  obtain fr where fr: "fr \<in> set rs" "lvars (\<alpha> (ctx w)) ''faultyReplica'' = Some (VReplica (Some fr))"
    using ok by (auto simp: hp_ok_def hp_fixed_def dest: in_set_takeD)
  have h: "rs ! nat (faults_of rs) \<in> set rs" by (rule byz_setupE [OF lib byz fit])
  have "\<forall>r \<in> set rs. usable T r" using fit by (simp add: replicas_fit_def store_ok_def)
  with h fr(1) have us: "usable T (rs ! nat (faults_of rs))" "usable T fr" by simp_all
  show ?thesis
    by (rule that [of P "rs ! nat (faults_of rs)" fr])
      (use P fr us h in \<open>simp_all add: sanity_getPartition_def vars_specD [OF lib]\<close>)
qed

lemma hp_ok_replica:
  assumes "testlib_spec L \<alpha>" and "hp_ok T \<alpha> rs w" and "replicas_fit T rs cap" and "r \<in> set rs"
  shows "Replicas_Get L (ctx w) (ID r) = Some r"
  by (rule replica_found(1) [OF assms(1) _ assms(3,4)]) (use assms(2) in \<open>simp add: hp_ok_def hp_fixed_def byz_setup_def\<close>)

lemma hp_round0_returns:
  assumes lib: "testlib_spec L \<alpha>" and ok: "hp_ok T \<alpha> rs w" and fit: "replicas_fit T rs cap"
    and heard: "heard L rs w" and ord: "\<And>xs. set (ord xs) = set xs"
  shows "\<exists>out. hp_round0 ord T L e w = Some out"
proof (cases "message_of L e w")
  case None
  then show ?thesis by (simp add: hp_round0_def)
next
  case (Some ma)
  obtain m a where ma: "ma = (m, a)" by fastforce
  obtain t r where t: "carries L w e m a t" "Round t = Some r" using heard_message [OF heard] Some ma by metis
  obtain P h where P: "sanity_getPartition L w = Some (Some P)" "part_is T P ''honestDelayed'' [h]"
    "h \<in> set rs" "usable T h"
    by (rule hp_ok_reads [OF lib ok fit])
  obtain p where p: "Partition_GetPart (Some P) ''honestDelayed'' = Some (Some p)"
    "hp_last_replica ord (Some p) = Some (ID h)"
    by (rule hp_last_single [OF P(2) ord])
  note cd = carriesD [OF t(1)]
  have proposal: "MsgType t = Proposal \<Longrightarrow> \<exists>b. GetProposalBlockIDS T t = Some b" by (rule proposal_block_total [OF cd(5)])
  have vote: "MsgType t = Prevote \<Longrightarrow> \<exists>b. IsVoteFrom T t (Some h) = Some b"
    using well_typed_vote [OF cd(5)] IsVoteFrom_own [OF P(4)] by blast
  note unf = hp_round0_def carries_message_of [OF t(1)] cd(4) t(2) P(1) p Let_def hp_ok_replica [OF lib ok fit P(3)]
  show ?thesis
  proof (cases "r = 0")
    case False
    then show ?thesis by (simp add: unf)
  next
    case True
    consider "MsgType t = Proposal" | "MsgType t = Prevote" | "MsgType t \<noteq> Proposal" "MsgType t \<noteq> Prevote" by blast
    then show ?thesis
      using True proposal vote by cases (auto simp: unf)
  qed
qed

lemma hp_propFilter_returns:
  assumes "heard L rs w"
  shows "\<exists>out. hp_propFilter T L e w = Some out"
proof (cases "message_of L e w")
  case None
  then show ?thesis by (simp add: hp_propFilter_def)
next
  case (Some ma)
  obtain m a where ma: "ma = (m, a)" by fastforce
  obtain t r where t: "carries L w e m a t" "Round t = Some r" using heard_message [OF assms] Some ma by metis
  note cd = carriesD [OF t(1)]
  show ?thesis
  proof (cases "MsgType t = Proposal")
    case False
    then show ?thesis using Some ma cd(4) by (simp add: hp_propFilter_def)
  next
    case True
    obtain b where b: "GetProposalBlockIDS T t = Some b" using proposal_block_total [OF cd(5) True] by blast
    then obtain x where "GetProposalBlockID T t = Some x"
      by (auto simp: GetProposalBlockIDS_def Option.bind_eq_Some_conv)
    then show ?thesis using Some ma cd(4) True t(2) b by (simp add: hp_propFilter_def)
  qed
qed

section \<open>The filter of the faulty replica\<close>

lemma ChangeVote_nil_block:
  assumes "well_typed t" and "tmsgs h a = Some t" and "MsgType t = Prevote \<or> MsgType t = Precommit"
    and "usable T r" and "Info r ''chain_id'' \<noteq> Some InfoOther"
  shows "if \<exists>k c. signer T r k c then ChangeVote T (Some r) a None h = None
    else \<exists>err. ChangeVote T (Some r) a None h = Some ((None, Some err), h)"
proof -
  obtain pk where pk: "GetPrivKey T (Some r) = Some pk" "pk \<noteq> Inr None"
    using GetPrivKey_Some assms(4) unfolding usable_def by metis
  have "\<exists>cid. GetChainID (Some r) = Some cid"
    using assms(5) by (auto simp: GetChainID_def split: option.split info_value.split)
  then obtain cid where cid: "GetChainID (Some r) = Some cid" by blast
  obtain v where v: "inner_vote t = Some v" using well_typed_vote [OF assms(1,3)] by blast
  show ?thesis
    using pk cid assms(2,3) v
    by (cases pk; cases cid) (auto simp: ChangeVote_def signer_def)
qed

lemma hp_send_vote_returns:
  assumes "ChangeVote T r a b w = Some out"
  shows "\<exists>out'. hp_send_vote T J L m (ChangeVote T r a b w) = Some out'"
proof -
  obtain res err w1 where out: "out = ((res, err), w1)" by (metis prod.exhaust)
  show ?thesis
  proof (cases err)
    case (Some x)
    then show ?thesis using assms out by (simp add: hp_send_vote_def)
  next
    case None
    with ChangeVote_result assms out obtain t where t: "res = Some a" "tmsgs w1 a = Some t" by blast
    obtain o2 w2 where "Marshal T J a w1 = Some (o2, w2)" using Marshal_total [OF t(2)] by blast
    then show ?thesis
      using assms out None t(1) by (cases o2) (auto simp: hp_send_vote_def split: prod.split)
  qed
qed

text \<open>
  The one situation in which the filter panics: a prevote of the faulty replica to one of the rest,
  from a sender that can sign, while the new proposal's block is the nil pointer.
\<close>

definition nil_block_vote :: "'k tendermint \<Rightarrow> ('e, 'c) testlib \<Rightarrow> ('c \<Rightarrow> 'e lib_state) \<Rightarrow> replica list \<Rightarrow>
    'c world \<Rightarrow> 'e \<Rightarrow> bool" where
  "nil_block_vote T L \<alpha> rs w e \<longleftrightarrow>
     (\<exists>m a t v fr rep k c. message_of L e w = Some (m, a) \<and> tmsgs w a = Some t \<and> MsgType t = Prevote \<and>
        lvars (\<alpha> (ctx w)) ''faultyReplica'' = Some (VReplica (Some fr)) \<and>
        inner_vote t = Some v \<and> address_of T fr = Some (pv_ValidatorAddress v) \<and>
        To t \<in> ID ` set (drop (nat (faults_of rs) + 1) rs) \<and>
        lvars (\<alpha> (ctx w)) ''newProposalBlockID'' = Some (VBlockID None) \<and>
        rep \<in> set rs \<and> ID rep = From t \<and> signer T rep k c)"

lemma hp_faultyFilter_panics:
  assumes lib: "testlib_spec L \<alpha>" and ok: "hp_ok T \<alpha> rs w" and fit: "replicas_fit T rs cap"
    and heard: "heard L rs w"
  shows "hp_faultyFilter T J L e w = None \<longleftrightarrow> nil_block_vote T L \<alpha> rs w e"
proof (cases "message_of L e w")
  case None
  then show ?thesis by (simp add: hp_faultyFilter_def nil_block_vote_def)
next
  case (Some ma)
  obtain m a where ma: "ma = (m, a)" by fastforce
  obtain t where t: "carries L w e m a t" "From t \<in> ID ` set rs" using heard_message [OF heard] Some ma by metis
  note cd = carriesD [OF t(1)] and msg = carries_message_of [OF t(1)]
  obtain P fr where P: "sanity_getPartition L w = Some (Some P)"
    "part_is T P ''rest'' (drop (nat (faults_of rs) + 1) rs)"
    "lvars (\<alpha> (ctx w)) ''faultyReplica'' = Some (VReplica (Some fr))" "fr \<in> set rs" "usable T fr"
    by (rule hp_ok_reads [OF lib ok fit])
  obtain p where p: "Partition_GetPart (Some P) ''rest'' = Some (Some p)"
    "\<And>i. Part_Contains (Some p) i = Some (i \<in> ID ` set (drop (nat (faults_of rs) + 1) rs))"
    using P(2) by (auto simp: part_is_def)
  obtain rep where rep: "rep \<in> set rs" "ID rep = From t" using t(2) by auto
  have us: "usable T rep" "Info rep ''chain_id'' \<noteq> Some InfoOther" and dist: "distinct (map ID rs)"
    using fit rep(1) by (auto simp: replicas_fit_def store_ok_def)
  have same: "r = rep" if "r \<in> set rs" "ID r = From t" for r
    using that rep dist by (metis distinct_map inj_onD)
  have get: "Replicas_Get L (ctx w) (From t) = Some rep"
    using hp_ok_replica [OF lib ok fit rep(1)] rep(2) by simp
  let ?new = "lvars (\<alpha> (ctx w)) ''newProposalBlockID''"
  have new: "?new = None \<or> (\<exists>b. ?new = Some (VBlockID b))"
    using ok by (auto simp: hp_ok_def block_typed_def split: option.splits)
  note unf = hp_faultyFilter_def hp_getFaultyReplica_def vars_specD(1) [OF lib] P(1,3) p(1) msg cd(4) get Let_def
  have wt: "well_typed t" by (rule cd(5))
  show ?thesis
  proof (cases "MsgType t = Prevote \<or> MsgType t = Precommit")
    case False
    then show ?thesis by (auto simp: unf nil_block_vote_def)
  next
    case vote: True
    then obtain v where v: "inner_vote t = Some v" using well_typed_vote [OF wt] by blast
    have own: "IsVoteFrom T t (Some fr) = Some (address_of T fr = Some (pv_ValidatorAddress v))"
      by (rule IsVoteFrom_own [OF P(5) v])
    let ?hit = "address_of T fr = Some (pv_ValidatorAddress v) \<and> MsgType t = Prevote \<and>
      To t \<in> ID ` set (drop (nat (faults_of rs) + 1) rs) \<and> ?new = Some (VBlockID None)"
    have rhs: "nil_block_vote T L \<alpha> rs w e \<longleftrightarrow> ?hit \<and> (\<exists>k c. signer T rep k c)"
    proof -
      have "nil_block_vote T L \<alpha> rs w e \<longleftrightarrow>
          ?hit \<and> (\<exists>r k c. r \<in> set rs \<and> ID r = From t \<and> signer T r k c)"
        by (simp add: nil_block_vote_def msg cd(4) P(3) v conj_ac) blast
      with same rep show ?thesis by metis
    qed
    have good: "\<exists>out. hp_send_vote T J L m (ChangeVote T (Some rep) a (Some b) w) = Some out" for b
      using ChangeVote_returns [OF wt cd(4) us, of b] hp_send_vote_returns by blast
    have bad: "hp_send_vote T J L m (ChangeVote T (Some rep) a None w) = None \<longleftrightarrow> (\<exists>k c. signer T rep k c)"
      using ChangeVote_nil_block [OF wt cd(4) vote us]
      by (cases "\<exists>k c. signer T rep k c") (auto simp: hp_send_vote_def)
    show ?thesis
    proof (cases ?hit)
      case True
      then have "hp_faultyFilter T J L e w = hp_send_vote T J L m (ChangeVote T (Some rep) a None w)"
        using vote own by (simp add: unf p(2))
      with True bad rhs show ?thesis by simp
    next
      case False
      have "\<exists>out. hp_faultyFilter T J L e w = Some out"
      proof (cases "address_of T fr = Some (pv_ValidatorAddress v)")
        case False
        then show ?thesis using vote own by (auto simp: unf)
      next
        case True
        from new show ?thesis
        proof (elim disjE exE)
          assume "?new = None"
          then show ?thesis
            using vote own True good [of nil_block_id] by (auto simp: unf ChangeVoteToNil_def)
        next
          fix b
          assume b: "?new = Some (VBlockID b)"
          show ?thesis
          proof (cases "MsgType t = Prevote \<and> To t \<in> ID ` set (drop (nat (faults_of rs) + 1) rs)")
            case hit: True
            with False True b obtain b' where "b = Some b'" by (cases b) auto
            then show ?thesis using vote own True b hit good [of b'] by (simp add: unf p(2))
          next
            case miss: False
            then show ?thesis
              using vote own True b good [of nil_block_id] by (auto simp: unf p(2) ChangeVoteToNil_def)
          qed
        qed
      qed
      with False rhs show ?thesis by auto
    qed
  qed
qed

section \<open>The conditions\<close>

lemma hp_conditions_return:
  assumes lib: "testlib_spec L \<alpha>" and ok: "hp_ok T \<alpha> rs w" and fit: "replicas_fit T rs cap"
    and heard: "heard L rs w" and ord: "\<And>xs. set (ord xs) = set xs"
  shows "\<exists>out. hp_diffPropSeen T L e w = Some out" and "\<exists>out. hp_newPropSeen T L e w = Some out"
    and "\<exists>out. hp_rOldVote T L e w = Some out" and "\<exists>out. hp_vote_for ord key T L e w = Some out"
    and "\<exists>out. sanity_roundReached L q e w = Some out"
proof -
  obtain P h where P: "sanity_getPartition L w = Some (Some P)" "part_is T P ''honestDelayed'' [h]"
    "h \<in> set rs" "usable T h" "part_is T P ''rest'' (drop (nat (faults_of rs) + 1) rs)"
    by (rule hp_ok_reads [OF lib ok fit])
  obtain p where p: "Partition_GetPart (Some P) ''honestDelayed'' = Some (Some p)"
    "hp_last_replica ord (Some p) = Some (ID h)"
    by (rule hp_last_single [OF P(2) ord])
  obtain pr where pr: "Partition_GetPart (Some P) ''rest'' = Some (Some pr)"
    "\<And>i. \<exists>b. Part_Contains (Some pr) i = Some b"
    using P(5) by (auto simp: part_is_def)
  have rok: "round_count_ok \<alpha> ''roundCount'' w" using ok by (simp add: hp_ok_def)
  have "(\<exists>out. hp_diffPropSeen T L e w = Some out) \<and> (\<exists>out. hp_newPropSeen T L e w = Some out) \<and>
    (\<exists>out. hp_rOldVote T L e w = Some out) \<and> (\<exists>out. hp_vote_for ord key T L e w = Some out) \<and>
    (\<exists>out. sanity_roundReached L q e w = Some out)"
  proof (cases "GetMessageFromEvent L e w")
    case None
    then show ?thesis
      by (simp add: hp_diffPropSeen_def hp_newPropSeen_def hp_rOldVote_def hp_vote_for_def sanity_roundReached_def)
  next
    case (Some a)
    obtain m t r where t: "carries L w e m a t" "Round t = Some r" by (rule heard_event [OF heard Some])
    note cd = carriesD [OF t(1)]
    have proposal: "\<exists>b x q. GetProposalBlockIDS T t = Some b \<and> GetProposalBlockID T t = Some x \<and> GetProposal (Data t) = Some q"
      if ty: "MsgType t = Proposal"
    proof -
      obtain b where b: "GetProposalBlockIDS T t = Some b" using proposal_block_total [OF cd(5) ty] by blast
      then obtain x where "GetProposalBlockID T t = Some x"
        by (auto simp: GetProposalBlockIDS_def Option.bind_eq_Some_conv)
      with b well_typed_proposal [OF cd(5) ty] show ?thesis by blast
    qed
    have vote: "\<exists>b i. GetVoteBlockIDS T t = Some b \<and> IsVoteFrom T t (Some h) = Some i"
      if ty: "MsgType t = Prevote \<or> MsgType t = Precommit"
      using vote_block_total [OF cd(5) ty] well_typed_vote [OF cd(5) ty] IsVoteFrom_own [OF P(4)] by blast
    note unf = Some cd(4) t(2) P(1) p pr(1) Let_def hp_ok_replica [OF lib ok fit P(3)]
    have "\<exists>out. hp_diffPropSeen T L e w = Some out" "\<exists>out. hp_newPropSeen T L e w = Some out"
      using proposal by (cases "MsgType t = Proposal"; auto simp: hp_diffPropSeen_def hp_newPropSeen_def unf split: option.split)+
    moreover have "\<exists>out. hp_rOldVote T L e w = Some out"
      using vote pr(2) [of "From t"] by (cases "MsgType t = Precommit") (auto simp: hp_rOldVote_def unf)
    moreover have "\<exists>out. hp_vote_for ord key T L e w = Some out"
      using vote by (cases "MsgType t = Prevote") (auto simp: hp_vote_for_def unf)
    moreover have "\<exists>out. sanity_roundReached L q e w = Some out"
      by (rule update_track_round [OF lib rok, of r "From t"]) (simp add: sanity_roundReached_def unf)
    ultimately show ?thesis by blast
  qed
  then show "\<exists>out. hp_diffPropSeen T L e w = Some out" "\<exists>out. hp_newPropSeen T L e w = Some out"
    "\<exists>out. hp_rOldVote T L e w = Some out" "\<exists>out. hp_vote_for ord key T L e w = Some out"
    "\<exists>out. sanity_roundReached L q e w = Some out"
    by blast+
qed

lemma hp_valueLockedCond_returns:
  assumes lib: "testlib_spec L \<alpha>" and ok: "hp_ok T \<alpha> rs w" and fit: "replicas_fit T rs cap"
    and heard: "heard L rs w"
  shows "\<exists>out. hp_valueLockedCond T L e w = Some out"
proof (cases "IsMessageReceive L e")
  case False
  then show ?thesis by (simp add: hp_valueLockedCond_def)
next
  case rcv: True
  obtain P h where P: "sanity_getPartition L w = Some (Some P)" "part_is T P ''honestDelayed'' [h]"
    by (rule hp_ok_reads [OF lib ok fit])
  obtain p where p: "Partition_GetPart (Some P) ''honestDelayed'' = Some (Some p)"
    "\<And>i. Part_Contains (Some p) i = Some (i \<in> ID ` set [h])"
    using P(2) by (auto simp: part_is_def)
  have faults: "lvars (\<alpha> (ctx w)) ''faults'' = Some (VInt (faults_of rs))"
    using ok by (simp add: hp_ok_def hp_fixed_def byz_setup_def)
  show ?thesis
  proof (cases "Option.bind (MessagePool_Get L (ctx w) (MessageID L e)) (\<lambda>m. GetParsedMessage (Some m))")
    case None
    then show ?thesis
      using rcv by (simp add: hp_valueLockedCond_def split: Option.bind_split_asm option.split)
  next
    case (Some a)
    then obtain m where m: "MessagePool_Get L (ctx w) (MessageID L e) = Some m" "GetParsedMessage (Some m) = Some a"
      by (auto simp: Option.bind_eq_Some_conv)
    with heard obtain t where t: "tmsgs w a = Some t" "well_typed t" unfolding heard_def by blast
    note unf = hp_valueLockedCond_def rcv m t(1) P(1) p(1) vars_specD(1) [OF lib] faults
    show ?thesis
    proof (cases "MsgType t = Prevote")
      case False
      then show ?thesis by (simp add: unf)
    next
      case True
      then obtain b where "GetVoteBlockIDS T t = Some b" using vote_block_total [OF t(2)] by blast
      with True show ?thesis by (simp add: unf p(2) Let_def)
    qed
  qed
qed

section \<open>Runs\<close>

lemma hp_ok_edge:
  assumes lib: "testlib_spec L \<alpha>" and ok: "hp_ok T \<alpha> rs w"
    and edge: "(s, c, s') \<in> set (tc_edges (sanity_HigherProp ord0 ord T J L lb))" and run: "c e w = Some (b, w')"
  shows "hp_ok T \<alpha> rs w'"
  using edge
proof (cases rule: hp_edgeE)
  case locked
  have "lvars (\<alpha> (ctx w)) ''faults'' = Some (VInt (faults_of rs))" using ok by (simp add: hp_ok_def hp_fixed_def byz_setup_def)
  with run have k: "keeps \<alpha> {''prevotesSent''} w w'"
    using hp_valueLockedCond_result [OF lib, of T e w b w'] unfolding locked(1) by blast
  then have "lvars (\<alpha> (ctx w')) ''newProposalBlockID'' = lvars (\<alpha> (ctx w)) ''newProposalBlockID''"
    by (rule keepsD(1)) simp
  then show ?thesis by (intro hp_ok_keeps [OF ok k]) (simp_all add: block_typed_def)
next
  case round
  with run show ?thesis by (intro hp_ok_round [OF lib ok]) simp
next
  case diff
  with run have "hp_quiet \<alpha> w w'" using hp_diffPropSeen_result [OF lib] by blast
  then show ?thesis by (rule hp_ok_quiet [OF ok])
next
  case again
  with run have "hp_quiet \<alpha> w w'" using hp_newPropSeen_result [OF lib] by blast
  then show ?thesis by (rule hp_ok_quiet [OF ok])
next
  case old
  with run have "w' = w" by (intro hp_votes_same(2) [of T L e w b w']) simp
  with ok show ?thesis by simp
next
  case vote
  with run obtain key where "hp_vote_for (ord e w) key T L e w = Some (b, w')"
    by (auto simp: hp_hNewVote_def hp_hOldVote_def)
  then have "w' = w" by (rule hp_votes_same(1))
  with ok show ?thesis by simp
qed

lemma hp_ok_handler:
  assumes lib: "testlib_spec L \<alpha>" and ok: "hp_ok T \<alpha> rs w"
    and "g \<in> set (tc_handlers (sanity_HigherProp ord0 ord T J L lb))" and "handler_of g e w = Some (out, w')"
  shows "hp_ok T \<alpha> rs w'"
proof -
  have "hp_quiet \<alpha> w w'"
    using assms(3,4)
    by (auto simp: sanity_HigherProp_def hp_propFilter_quiet [OF lib]
        hp_quiet_keeps [OF hp_faultyFilter_quiet [OF lib]] hp_quiet_keeps [OF hp_round0_quiet [OF lib]])
  then show ?thesis by (rule hp_ok_quiet [OF ok])
qed

lemma hp_ok_run:
  assumes lib: "testlib_spec L \<alpha>" and fit: "replicas_fit T (lreplicas (\<alpha> (ctx w0))) (lcap (\<alpha> (ctx w0)))"
    and ord: "\<And>xs. set (ord0 xs) = set xs"
    and fresh: "lvars (\<alpha> (ctx w0)) ''roundCount'' = None" "lvars (\<alpha> (ctx w0)) ''newProposalBlockID'' = None"
    and run: "run \<alpha> start (sanity_HigherProp ord0 ord T J L lb) w0 s w"
  shows "hp_ok T \<alpha> (lreplicas (\<alpha> (ctx w0))) w"
  using run
proof (induction rule: run_invariant)
  case (start w)
  then show ?case
    using higherPropSetup_ok [OF lib fit ord fresh] by (auto simp: sanity_HigherProp_def)
next
  case (edge s w c s' e b w')
  then show ?case by (blast intro: hp_ok_edge [OF lib])
next
  case (guard s w g c e b w')
  then show ?case by (auto simp: sanity_HigherProp_def)
next
  case (handler s w g e out w')
  then show ?case by (blast intro: hp_ok_handler [OF lib])
next
  case (scheduler s w w')
  then show ?case by (rule hp_ok_scheduler)
qed

lemma hp_edges_return:
  assumes lib: "testlib_spec L \<alpha>" and ok: "hp_ok T \<alpha> rs w" and fit: "replicas_fit T rs cap"
    and heard: "heard L rs w" and ord: "\<And>xs. set (ord e w xs) = set xs"
    and edge: "(s, c, s') \<in> set (tc_edges (sanity_HigherProp ord0 ord T J L lb))"
  shows "c e w \<noteq> None"
  using edge
proof (cases rule: hp_edgeE)
  case locked
  with hp_valueLockedCond_returns [OF lib ok fit heard, of e] show ?thesis by auto
next
  case vote
  with hp_conditions_return(4) [OF lib ok fit heard ord] show ?thesis
    by (auto simp: hp_hNewVote_def hp_hOldVote_def)
qed (use hp_conditions_return(1,2,3,5) [OF lib ok fit heard ord, where e = e] in auto)

text \<open>
  C21: when \<open>HigherProp\<close> panics. For 3 f + 1 replicas with usable keys the setup returns, and in
  every state that a schedule can reach all conditions of the machine, the filter of round 0 and
  the filter of proposals return on every event, as long as the messages come from the parser and
  from registered replicas. The filter of the faulty replica panics on an event exactly when it
  carries a prevote of that replica to one of the rest, its sender can sign, and the variable
  \<open>newProposalBlockID\<close> holds the nil pointer.
\<close>

theorem hp_panics:
  assumes "testlib_spec L \<alpha>" and "replicas_fit T (lreplicas (\<alpha> (ctx w0))) (lcap (\<alpha> (ctx w0)))"
    and "\<And>xs. set (ord0 xs) = set xs" and "\<And>e w xs. set (ord e w xs) = set xs"
    and "lvars (\<alpha> (ctx w0)) ''roundCount'' = None" and "lvars (\<alpha> (ctx w0)) ''newProposalBlockID'' = None"
  shows "higherPropSetup ord0 T L w0 \<noteq> None \<and>
    (\<forall>s w e. run \<alpha> (StartStateLabel lb) (sanity_HigherProp ord0 ord T J L lb) w0 s w \<longrightarrow>
       heard L (lreplicas (\<alpha> (ctx w0))) w \<longrightarrow>
       (\<forall>(s1, c, s2) \<in> set (tc_edges (sanity_HigherProp ord0 ord T J L lb)). c e w \<noteq> None) \<and>
       hp_round0 (ord e w) T L e w \<noteq> None \<and> hp_propFilter T L e w \<noteq> None \<and>
       (hp_faultyFilter T J L e w = None \<longleftrightarrow> nil_block_vote T L \<alpha> (lreplicas (\<alpha> (ctx w0))) w e))"
proof (intro conjI allI impI)
  show "higherPropSetup ord0 T L w0 \<noteq> None"
    using higherPropSetup_ok [of L \<alpha> T w0 ord0] assms by auto
next
  fix s w e
  assume run: "run \<alpha> (StartStateLabel lb) (sanity_HigherProp ord0 ord T J L lb) w0 s w"
    and heard: "heard L (lreplicas (\<alpha> (ctx w0))) w"
  have ok: "hp_ok T \<alpha> (lreplicas (\<alpha> (ctx w0))) w"
    by (rule hp_ok_run [OF assms(1-3,5,6) run])
  note returns = assms(1) ok assms(2) heard
  show "\<forall>(s1, c, s2) \<in> set (tc_edges (sanity_HigherProp ord0 ord T J L lb)). c e w \<noteq> None"
    using hp_edges_return [OF returns assms(4)] by fast
  show "hp_round0 (ord e w) T L e w \<noteq> None"
    using hp_round0_returns [OF returns assms(4)] by fast
  show "hp_propFilter T L e w \<noteq> None"
    using hp_propFilter_returns [OF heard] by fast
  show "hp_faultyFilter T J L e w = None \<longleftrightarrow> nil_block_vote T L \<alpha> (lreplicas (\<alpha> (ctx w0))) w e"
    by (rule hp_faultyFilter_panics [OF returns])
qed

end
