(* ===== verification/HigherProp_Witness.thy ===== *)
theory HigherProp_Witness
  imports Sanity_Witnesses HigherProp_Returns
begin

text \<open>
  A whole run of the test \<open>HigherProp\<close> on the sample instances, from the setup to success: the
  proposal of round 0, two prevotes that lock its block, four replicas at round 1, a proposal of
  another block with a proof-of-lock round, and the prevote for it by the replica that was locked.
\<close>

section \<open>The world\<close>

definition new_proposal_tmsg :: tmessage where
  "new_proposal_tmsg = sample_proposal_tmsg\<lparr>Data := Some (proposal_message
     (sample_proposal\<lparr>pp_Round := 1, pp_BlockID := sample_block_proto sample_new_block\<rparr>))\<rparr>"

definition honest_tmsg :: tmessage where
  "honest_tmsg = sample_tmsg\<lparr>From := ''r3'', Data := Some (vote_message (sample_vote
     \<lparr>pv_Round := 1, pv_BlockID := sample_block_proto sample_new_block, pv_ValidatorAddress := [3]\<rparr>))\<rparr>"

text \<open>The replica \<open>r3\<close> comes second and is the one under observation.\<close>

definition higher_replicas :: "replica list" where
  "higher_replicas = [sample_replica ''r1'' ''k'', sample_replica ''r3'' ''kkk'', sample_r2, sample_replica ''r4'' ''kkkk'']"

lemma length_higher_replicas [simp]: "length higher_replicas = 4"
  by (simp add: higher_replicas_def)

definition higher_world :: "sample_context world" where
  "higher_world = (world_of higher_replicas [])\<lparr>tmsgs :=
     [0 \<mapsto> sample_tmsg, 1 \<mapsto> sample_proposal_tmsg, 2 \<mapsto> new_proposal_tmsg, 3 \<mapsto> prevote ''r1'' 1,
      4 \<mapsto> prevote ''r2'' 1, 5 \<mapsto> prevote ''r3'' 1, 6 \<mapsto> prevote ''r4'' 1, 7 \<mapsto> honest_tmsg]\<rparr>"

text \<open>The worlds of the run: the variables but for the round count, and the round count.\<close>

definition higher_at :: "(string \<Rightarrow> var_value option) \<Rightarrow> (string, int) gomap \<Rightarrow> sample_context world \<Rightarrow> bool" where
  "higher_at vs m w \<longleftrightarrow> tmsgs w = tmsgs higher_world \<and> 
     lpool (observe_sample (ctx w)) = lpool (observe_sample (ctx higher_world)) \<and>
     lreplicas (observe_sample (ctx w)) = higher_replicas \<and> lcap (observe_sample (ctx w)) = 4 \<and>
     round_count_ok observe_sample ''roundCount'' w \<and>
     round_count observe_sample ''roundCount'' w = m \<and>
     (\<forall>k. k \<noteq> ''roundCount'' \<longrightarrow> k \<noteq> ''CurRound'' \<longrightarrow> lvars (observe_sample (ctx w)) k = vs k)"

lemma higher_at_showing: "higher_at vs m w \<Longrightarrow> higher_at vs m (showing n w)"
  using round_count_cong [of observe_sample "showing n w" "''roundCount''" w]
  by (simp add: higher_at_def) (simp add: showing_def observe_sample_def)

lemma higher_at_set_var:
  assumes "higher_at vs m w" and "k \<noteq> ''roundCount''" and "k \<noteq> ''CurRound''"
  shows "higher_at (vs(k \<mapsto> v)) m (set_var sample_L k v w)"
proof -
  have "observe_sample (ctx (set_var sample_L k v w)) =
      (observe_sample (ctx w))\<lparr>lvars := (lvars (observe_sample (ctx w)))(k \<mapsto> v)\<rparr>"
    by (simp add: vars_specD [OF sample_library])
  moreover have "int_maps (set_var sample_L k v w) = int_maps w" "tmsgs (set_var sample_L k v w) = tmsgs w"
    by (simp_all add: set_var_def)
  ultimately show ?thesis
    using assms round_count_cong [of observe_sample "set_var sample_L k v w" "''roundCount''" w] by (simp add: higher_at_def)
qed

lemma showing_event: "GetMessageFromEvent sample_L sample_send (showing n w) = Some n"
  "message_of sample_L sample_send (showing n w) = Some (sample_message\<lparr>ParsedMessage := Some (ParsedTMessage n)\<rparr>, n)"
  by (simp_all add: GetMessageFromEvent_def message_of_def GetParsedMessage_def showing_def sample_L_def sample_send_def)

abbreviation higher_test :: "(sample_event, sample_context) test_case" where
  "higher_test \<equiv> sanity_HigherProp rev (\<lambda>_ _. rev) sample_T sample_J sample_L sample_labels"

abbreviation higher_run :: "string \<Rightarrow> sample_context world \<Rightarrow> bool" where
  "higher_run \<equiv> run observe_sample ''start'' higher_test higher_world"

lemma higher_edges:
  "tc_edges higher_test = [(''start'', hp_valueLockedCond sample_T sample_L, ''ValueLocked''),
     (''ValueLocked'', sanity_roundReached sample_L 1, ''Round1''),
     (''Round1'', hp_diffPropSeen sample_T sample_L, ''DiffProposal''),
     (''DiffProposal'', hp_rOldVote sample_T sample_L, ''fail''),
     (''DiffProposal'', hp_newPropSeen sample_T sample_L, ''DiffProposalReproposed''),
     (''DiffProposalReproposed'', \<lambda>e w. hp_hNewVote rev sample_T sample_L e w, ''success''),
     (''DiffProposalReproposed'', \<lambda>e w. hp_hOldVote rev sample_T sample_L e w, ''fail'')]"
  by (simp add: sanity_HigherProp_def sample_labels_def)

text \<open>The scheduler puts a message behind the event, and an edge is evaluated.\<close>

lemma higher_edge:
  assumes "higher_run s w" and "(s, c, s') \<in> set (tc_edges higher_test)" and "c e (showing n w) = Some (b, w')"
  shows "higher_run (if b then s' else s) w'"
  by (rule run_edge [OF run_scheduler [OF assms(1) scheduler_step_showing] assms(2,3)])

lemma higher_handler:
  assumes "higher_run s w" and "g \<in> set (tc_handlers higher_test)" and "handler_of g e (showing n w) = Some (out, w')"
  shows "higher_run s w'"
  by (rule run_handler [OF run_scheduler [OF assms(1) scheduler_step_showing] assms(2,3)])

section \<open>The steps\<close>

lemma higher_start:
  "\<exists>P w. part_is sample_T P ''honestDelayed'' [sample_replica ''r3'' ''kkk''] \<and> higher_run ''start'' w \<and>
    higher_at (Map.empty(''partition'' \<mapsto> VPartition (Some P), ''faults'' \<mapsto> VInt 1,
      ''faultyReplica'' \<mapsto> VReplica (Some (sample_replica ''r1'' ''k'')))) [] w"
proof -
  have three: "(3 :: int) sdiv 3 = 1" by (simp add: sdiv_nonneg)
  have lib: "Replicas_Cap sample_L (ctx higher_world) = 4" "Replicas_Iter sample_L (ctx higher_world) = higher_replicas"
    by (simp_all add: higher_world_def world_of_def sample_L_def higher_replicas_def)
  have "store_ok sample_T higher_replicas 4"
    by (simp add: store_ok_def higher_replicas_def sample_usable sample_r2_def)
  then obtain P where P: "CreatePartition sample_T (NewGenericPartitioner 4 higher_replicas) [1, 1, 2]
      [''faulty'', ''honestDelayed'', ''rest''] = Some (Inr P)"
    "part_is sample_T P ''faulty'' [sample_replica ''r1'' ''k'']"
    "part_is sample_T P ''honestDelayed'' [sample_replica ''r3'' ''kkk'']"
    using three_parts [of sample_T higher_replicas 4 1 1 2 "''faulty''" "''honestDelayed''" "''rest''"]
    by (auto simp: higher_replicas_def)
  obtain p where p: "Partition_GetPart (Some P) ''faulty'' = Some (Some p)"
    "hp_last_replica rev (Some p) = Some ''r1''"
    by (rule hp_last_single [OF P(2), of rev]) (simp, metis sample_ID that)
  have found: "Replicas_Get sample_L (ctx higher_world) ''r1'' = Some (sample_replica ''r1'' ''k'')"
    by (simp add: higher_world_def world_of_def sample_L_def higher_replicas_def)
  let ?w = "set_var sample_L ''faults'' (VInt 1) (set_var sample_L ''partition'' (VPartition (Some P))
      (set_var sample_L ''faultyReplica'' (VReplica (Some (sample_replica ''r1'' ''k''))) higher_world))"
  have "higherPropSetup rev sample_T sample_L higher_world = Some ?w"
    by (simp add: higherPropSetup_def Let_def create_partition_def lib three P(1) p found Partition_String_def)
  then have "higher_run ''start'' ?w"
    by (intro run_start) (simp add: sanity_HigherProp_def)
  moreover have "higher_at Map.empty [] higher_world"
    by (simp add: higher_at_def higher_world_def round_count_ok_def round_count_def)
  then have "higher_at (Map.empty(''faultyReplica'' \<mapsto> VReplica (Some (sample_replica ''r1'' ''k'')),
      ''partition'' \<mapsto> VPartition (Some P), ''faults'' \<mapsto> VInt 1)) [] ?w"
    by (intro higher_at_set_var) simp_all
  then have "higher_at (Map.empty(''partition'' \<mapsto> VPartition (Some P), ''faults'' \<mapsto> VInt 1,
      ''faultyReplica'' \<mapsto> VReplica (Some (sample_replica ''r1'' ''k'')))) [] ?w"
    by (simp add: fun_upd_twist)
  ultimately show ?thesis using P(3) by blast
qed

text \<open>The filter of proposals records the first one.\<close>

lemma higher_first_proposal:
  assumes "higher_run s w" and "higher_at vs m w"
  shows "\<exists>w'. higher_run s w' \<and> higher_at (vs(''oldProposal'' \<mapsto> VString [char_of (7 :: nat)])) m w'"
proof -
  let ?w = "showing 1 w"
  have at: "higher_at vs m ?w" by (rule higher_at_showing [OF assms(2)])
  have t: "tmsgs ?w 1 = Some sample_proposal_tmsg" using at by (simp add: higher_at_def higher_world_def)
  have "MsgType sample_proposal_tmsg = Proposal" "Round sample_proposal_tmsg = Some 0"
    "GetProposalBlockIDS sample_T sample_proposal_tmsg = Some (Some [char_of (7 :: nat)])"
    by (simp_all add: sample_proposal_tmsg_def Round_def HeightRound_def proposal_message_def sample_proposal_def
        GetProposalBlockIDS_def GetProposalBlockID_def GetProposal_def sum_of_def sample_T_fields sample_block_from_def)
  then have "handler_of (Handler (hp_propFilter sample_T sample_L)) sample_send ?w =
      Some (([Some (sample_message\<lparr>ParsedMessage := Some (ParsedTMessage 1)\<rparr>)], True),
        set_var sample_L ''oldProposal'' (VString [char_of (7 :: nat)]) ?w)"
    by (simp add: hp_propFilter_def showing_event t hp_block_text_def del: One_nat_def)
  moreover have "Handler (hp_propFilter sample_T sample_L) \<in> set (tc_handlers higher_test)"
    by (simp add: sanity_HigherProp_def)
  ultimately have "higher_run s (set_var sample_L ''oldProposal'' (VString [char_of (7 :: nat)]) ?w)"
    using higher_handler [OF assms(1)] by blast
  moreover have "higher_at (vs(''oldProposal'' \<mapsto> VString [char_of (7 :: nat)])) m
      (set_var sample_L ''oldProposal'' (VString [char_of (7 :: nat)]) ?w)"
    by (rule higher_at_set_var [OF at]) simp_all
  ultimately show ?thesis by blast
qed

text \<open>A prevote for it reaches the replica under observation.\<close>

lemma higher_prevote:
  assumes "higher_run ''start'' w" and at: "higher_at vs m w"
    and vs: "vs ''partition'' = Some (VPartition (Some P))" "vs ''faults'' = Some (VInt 1)"
      "vs ''oldProposal'' = Some (VString [char_of (7 :: nat)])"
      "v = (case vs ''prevotesSent'' of Some (VInt v) \<Rightarrow> v | _ \<Rightarrow> 0) + 1"
    and P: "part_is sample_T P ''honestDelayed'' [sample_replica ''r3'' ''kkk'']"
  shows "\<exists>w'. higher_run (if 2 \<le> v then ''ValueLocked'' else ''start'') w' \<and>
    higher_at (vs(''prevotesSent'' \<mapsto> VInt v)) m w'"
proof -
  let ?w = "showing 0 w"
  have at': "higher_at vs m ?w" by (rule higher_at_showing [OF at])
  have pool: "MessagePool_Get sample_L (ctx ?w) (MessageID sample_L sample_receive) = Some sample_message"
    "IsMessageReceive sample_L sample_receive"
    using at' unfolding context_specD(2) [OF sample_library]
    by (simp_all add: higher_at_def higher_world_def) (simp add: world_of_def observe_sample_def sample_L_def sample_receive_def)
  have t: "tmsgs ?w 0 = Some sample_tmsg" using at' by (simp add: higher_at_def higher_world_def)
  have msg: "MsgType sample_tmsg = Prevote" "To sample_tmsg = ''r3''"
    "GetVoteBlockIDS sample_T sample_tmsg = Some (Some [char_of (7 :: nat)])"
    by (simp_all add: GetVoteBlockIDS_def GetVoteBlockID_def sample_tmsg_parsed sample_T_fields
        sample_block_from_def sample_vote_def) (simp_all add: sample_tmsg_def)
  obtain p where p: "Partition_GetPart (Some P) ''honestDelayed'' = Some (Some p)"
    "Part_Contains (Some p) ''r3'' = Some True"
    using P by (auto simp: part_is_def)
  have vars: "lvars (observe_sample (ctx ?w)) k = vs k" if "k \<notin> {''roundCount'', ''CurRound''}" for k
    using at' that by (simp add: higher_at_def)
  have parsed: "GetParsedMessage (Some sample_message) = Some 0" by (simp add: GetParsedMessage_def sample_message_def)
  have "hp_valueLockedCond sample_T sample_L sample_receive ?w =
      Some (2 \<le> v, set_var sample_L ''prevotesSent'' (VInt v) ?w)"
    using vs p by (simp add: hp_valueLockedCond_def pool parsed t msg sanity_getPartition_def int_var_def
        vars_specD [OF sample_library] vars Let_def split: option.split var_value.split)
  with higher_edge [OF assms(1), of "hp_valueLockedCond sample_T sample_L" "''ValueLocked''" sample_receive 0 "2 \<le> v"
      "set_var sample_L ''prevotesSent'' (VInt v) ?w"]
  have "higher_run (if 2 \<le> v then ''ValueLocked'' else ''start'') (set_var sample_L ''prevotesSent'' (VInt v) ?w)"
    by (simp add: higher_edges)
  moreover have "higher_at (vs(''prevotesSent'' \<mapsto> VInt v)) m (set_var sample_L ''prevotesSent'' (VInt v) ?w)"
    by (rule higher_at_set_var [OF at']) simp_all
  ultimately show ?thesis by blast
qed

text \<open>A replica is seen at round 1.\<close>

lemma higher_round:
  assumes "higher_run ''ValueLocked'' w" and at: "higher_at vs m w"
    and t: "tmsgs higher_world n = Some (prevote f 1)"
  shows "\<exists>w'. higher_run (if count_reached 1 (track_round f 1 m) = 4 then ''Round1'' else ''ValueLocked'') w' \<and>
    higher_at vs (track_round f 1 m) w'"
proof -
  let ?w = "showing n w"
  have at': "higher_at vs m ?w" by (rule higher_at_showing [OF at])
  have ok: "round_count_ok observe_sample ''roundCount'' ?w" "round_count observe_sample ''roundCount'' ?w = m"
    using at' by (simp_all add: higher_at_def)
  obtain y w1 where u: "updateRoundCount sample_L ''roundCount'' track_round 1 f ?w = Some (track_round f 1 m, w1)"
      "round_count observe_sample ''roundCount'' w1 = track_round f 1 m"
      "round_count_ok observe_sample ''roundCount'' w1"
      "observe_sample (ctx w1) = (observe_sample (ctx ?w))\<lparr>lvars := (lvars (observe_sample (ctx ?w)))(''roundCount'' \<mapsto> VIntMap y)\<rparr>"
      "tmsgs w1 = tmsgs ?w"
    by (rule update_track_round [OF sample_library ok(1), of 1 f]) (unfold ok(2), rule that)
  let ?b = "count_reached 1 (track_round f 1 m) = 4"
  let ?w' = "if ?b then set_var sample_L ''CurRound'' (VInt 1) w1 else w1"
  have "higher_at vs (track_round f 1 m) w1"
    using at' u(2-5) by (simp add: higher_at_def)
  then have "higher_at vs (track_round f 1 m) ?w'"
    using higher_at_set_var [of vs "track_round f 1 m" w1] round_count_cong [of observe_sample "set_var sample_L ''CurRound'' (VInt 1) w1" "''roundCount''" w1]
    by (simp add: higher_at_def vars_specD [OF sample_library])
  moreover have "tmsgs ?w n = Some (prevote f 1)" using at' t by (simp add: higher_at_def)
  then have "sanity_roundReached sample_L 1 sample_send ?w = Some (?b, ?w')"
    using u(1,4) at' by (simp add: sanity_roundReached_def showing_event prevote_parsed context_specD [OF sample_library] higher_at_def)
  with higher_edge [OF assms(1), of "sanity_roundReached sample_L 1" "''Round1''" sample_send n ?b ?w']
  have "higher_run (if ?b then ''Round1'' else ''ValueLocked'') ?w'" by (simp add: higher_edges)
  ultimately show ?thesis by blast
qed

text \<open>The new proposal is seen, and seen to have a proof-of-lock round.\<close>

lemma new_proposal_parsed: "MsgType new_proposal_tmsg = Proposal"
  "GetProposalBlockIDS sample_T new_proposal_tmsg = Some (Some [char_of (6 :: nat)])"
  "GetProposalBlockID sample_T new_proposal_tmsg = Some (Some sample_new_block)"
  "\<exists>p. GetProposal (Data new_proposal_tmsg) = Some p \<and> pp_PolRound p = 0 \<and> pp_Round p = 1"
  by (simp_all add: new_proposal_tmsg_def sample_proposal_tmsg_def proposal_message_def sample_proposal_def
      GetProposalBlockIDS_def GetProposalBlockID_def GetProposal_def sum_of_def sample_T_fields sample_block_from_def
      sample_block_proto_def sample_new_block_def)

lemma higher_new_proposal:
  assumes "higher_run ''Round1'' w" and at: "higher_at vs m w"
    and vs: "vs ''oldProposal'' = Some (VString [char_of (7 :: nat)])"
  shows "\<exists>w'. higher_run ''DiffProposalReproposed'' w' \<and>
    higher_at (vs(''newProposal'' \<mapsto> VString [char_of (6 :: nat)], ''newProposalBlockID'' \<mapsto> VBlockID (Some sample_new_block),
      ''newPropReproposeRound'' \<mapsto> VInt 1)) m w'"
proof -
  let ?w = "showing 2 w" and ?new = "VString [char_of (6 :: nat)]" and ?block = "VBlockID (Some sample_new_block)"
  let ?w1 = "set_var sample_L ''newProposalBlockID'' ?block (set_var sample_L ''newProposal'' ?new ?w)"
  have at1: "higher_at (vs(''newProposal'' \<mapsto> ?new, ''newProposalBlockID'' \<mapsto> ?block)) m ?w1"
    by (intro higher_at_set_var higher_at_showing [OF at]) simp_all
  have tm: "tmsgs ?w 2 = Some new_proposal_tmsg"
    using higher_at_showing [OF at, of 2] by (simp add: higher_at_def higher_world_def)
  have old: "lvars (observe_sample (ctx ?w)) ''oldProposal'' = Some (VString [char_of (7 :: nat)])"
    using higher_at_showing [OF at, of 2] vs by (simp add: higher_at_def)
  have "hp_diffPropSeen sample_T sample_L sample_send ?w = Some (True, ?w1)"
    by (simp add: hp_diffPropSeen_def showing_event tm new_proposal_parsed hp_block_text_def
        vars_specD [OF sample_library] old)
  with higher_edge [OF assms(1), of "hp_diffPropSeen sample_T sample_L" "''DiffProposal''" sample_send 2 True ?w1]
  have run1: "higher_run ''DiffProposal'' ?w1" by (simp add: higher_edges)
  let ?v = "showing 2 ?w1" and ?w2 = "set_var sample_L ''newPropReproposeRound'' (VInt 1) (showing 2 ?w1)"
  have at2: "higher_at (vs(''newProposal'' \<mapsto> ?new, ''newProposalBlockID'' \<mapsto> ?block)) m ?v"
    by (rule higher_at_showing [OF at1])
  have tm2: "tmsgs ?v 2 = Some new_proposal_tmsg" using at2 by (simp add: higher_at_def higher_world_def)
  have new: "lvars (observe_sample (ctx ?v)) ''newProposal'' = Some ?new" using at2 by (simp add: higher_at_def)
  obtain q where "GetProposal (Data new_proposal_tmsg) = Some q" "pp_PolRound q = 0" "pp_Round q = 1"
    using new_proposal_parsed(4) by blast
  then have "hp_newPropSeen sample_T sample_L sample_send ?v = Some (True, ?w2)"
    by (simp add: hp_newPropSeen_def showing_event tm2 new_proposal_parsed hp_block_text_def
        string_var_def vars_specD [OF sample_library] new)
  with higher_edge [OF run1, of "hp_newPropSeen sample_T sample_L" "''DiffProposalReproposed''" sample_send 2 True ?w2]
  have "higher_run ''DiffProposalReproposed'' ?w2" by (simp add: higher_edges)
  moreover have "higher_at (vs(''newProposal'' \<mapsto> ?new, ''newProposalBlockID'' \<mapsto> ?block,
      ''newPropReproposeRound'' \<mapsto> VInt 1)) m ?w2"
    by (rule higher_at_set_var [OF at2]) simp_all
  ultimately show ?thesis by blast
qed

text \<open>The replica under observation prevotes for it.\<close>

lemma higher_decided:
  assumes "higher_run ''DiffProposalReproposed'' w" and at: "higher_at vs m w"
    and vs: "vs ''partition'' = Some (VPartition (Some P))" "vs ''newProposal'' = Some (VString [char_of (6 :: nat)])"
      "vs ''newPropReproposeRound'' = Some (VInt 1)"
    and P: "part_is sample_T P ''honestDelayed'' [sample_replica ''r3'' ''kkk'']"
  shows "higher_run ''success'' (showing 7 w)"
proof -
  let ?w = "showing 7 w" and ?h = "sample_replica ''r3'' ''kkk''"
  have at': "higher_at vs m ?w" by (rule higher_at_showing [OF at])
  have tm: "tmsgs ?w 7 = Some honest_tmsg" using at' by (simp add: higher_at_def higher_world_def)
  have msg: "MsgType honest_tmsg = Prevote" "Round honest_tmsg = Some 1"
    "GetVoteBlockIDS sample_T honest_tmsg = Some (Some [char_of (6 :: nat)])"
    "\<exists>v. inner_vote honest_tmsg = Some v \<and> pv_ValidatorAddress v = [3]"
    by (simp_all add: honest_tmsg_def sample_tmsg_def Round_def HeightRound_def vote_pair_def inner_vote_def
        vote_message_def sample_vote_def GetVoteBlockIDS_def GetVoteBlockID_def sample_T_fields
        sample_block_from_def sample_block_proto_def sample_new_block_def)
  obtain p where p: "Partition_GetPart (Some P) ''honestDelayed'' = Some (Some p)"
    "hp_last_replica rev (Some p) = Some ''r3''"
    by (rule hp_last_single [OF P, of rev]) (simp, metis sample_ID that)
  have own: "IsVoteFrom sample_T honest_tmsg (Some ?h) = Some True"
    using msg(4) IsVoteFrom_own [of sample_T ?h honest_tmsg] by (auto simp: sample_usable sample_address)
  have get: "Replicas_Get sample_L (ctx ?w) ''r3'' = Some ?h"
    using at' unfolding context_specD(5) [OF sample_library] by (simp add: higher_at_def) (simp add: higher_replicas_def)
  have vars: "lvars (observe_sample (ctx ?w)) k = vs k" if "k \<notin> {''roundCount'', ''CurRound''}" for k
    using at' that by (simp add: higher_at_def)
  have "hp_hNewVote rev sample_T sample_L sample_send ?w = Some (True, ?w)"
    using vs by (simp add: hp_hNewVote_def hp_vote_for_def showing_event tm msg p own get sanity_getPartition_def
        int_var_def string_var_def vars_specD [OF sample_library] vars hp_block_text_def Let_def)
  with higher_edge [OF assms(1), of "hp_hNewVote rev sample_T sample_L" "''success''" sample_send 7 True ?w]
  show ?thesis by (simp add: higher_edges)
qed

section \<open>The run\<close>


section \<open>A run into the panic\<close>

text \<open>
  A tendermint module that refuses a hash of more than one byte, and a later proposal whose block
  has such a hash: the filter of proposals stores the nil pointer for it, and the filter of the
  faulty replica panics on the next prevote of that replica to one of the rest.
\<close>

definition strict_T :: "nat tendermint" where
  "strict_T = sample_T\<lparr>BlockIDFromProto := (\<lambda>b. if length (pb_Hash b) \<le> 1 then Inr (sample_block_from b)
     else Inl (library_error ''wrong Hash''))\<rparr>"

definition long_proposal_tmsg :: tmessage where
  "long_proposal_tmsg = sample_proposal_tmsg\<lparr>Data := Some (proposal_message
     (sample_proposal\<lparr>pp_Round := 1, pp_BlockID := \<lparr>pb_Hash = [6, 6], pb_PartSetHeader = \<lparr>psh_Total = 1, psh_Hash = [8]\<rparr>\<rparr>\<rparr>))\<rparr>"

definition faulty_prevote :: tmessage where
  "faulty_prevote = sample_tmsg\<lparr>From := ''r1'', To := ''r2'',
     Data := Some (vote_message (sample_vote\<lparr>pv_ValidatorAddress := [1]\<rparr>))\<rparr>"

definition strict_world :: "sample_context world" where
  "strict_world = (world_of higher_replicas [])\<lparr>tmsgs :=
     [0 \<mapsto> sample_tmsg, 1 \<mapsto> sample_proposal_tmsg, 2 \<mapsto> long_proposal_tmsg, 3 \<mapsto> faulty_prevote]\<rparr>"

abbreviation strict_test :: "(sample_event, sample_context) test_case" where
  "strict_test \<equiv> sanity_HigherProp rev (\<lambda>_ _. rev) strict_T sample_J sample_L sample_labels"

lemma strict_keys: "GetPrivKey strict_T = GetPrivKey sample_T" "GetReplicaAddress strict_T = GetReplicaAddress sample_T"
proof -
  have T: "decode_key strict_T = decode_key sample_T" "key_address strict_T = key_address sample_T"
    by (simp_all add: strict_T_def)
  show key: "GetPrivKey strict_T = GetPrivKey sample_T"
    by (rule ext, unfold GetPrivKey_def T) (rule refl)
  show "GetReplicaAddress strict_T = GetReplicaAddress sample_T"
    by (rule ext, unfold GetReplicaAddress_def key T) (rule refl)
qed

lemma strict_replicas: "usable strict_T = usable sample_T" "address_of strict_T = address_of sample_T"
  "signer strict_T = signer sample_T"
  by (simp_all add: fun_eq_iff usable_def address_of_def signer_def strict_keys)

lemma strict_fit: "replicas_fit strict_T higher_replicas 4"
  by (simp add: replicas_fit_def store_ok_def strict_replicas higher_replicas_def sample_usable sample_r2_def)
    (simp add: sample_replica_def)

lemma strict_messages:
  "MsgType sample_proposal_tmsg = Proposal" "Round sample_proposal_tmsg = Some 0"
  "GetProposalBlockIDS strict_T sample_proposal_tmsg = Some (Some [char_of (7 :: nat)])"
  "MsgType long_proposal_tmsg = Proposal" "Round long_proposal_tmsg = Some 1"
  "GetProposalBlockID strict_T long_proposal_tmsg = Some None"
  "GetProposalBlockIDS strict_T long_proposal_tmsg = Some None"
  "MsgType faulty_prevote = Prevote" "From faulty_prevote = ''r1''" "To faulty_prevote = ''r2''"
  "inner_vote faulty_prevote = Some (sample_vote\<lparr>pv_ValidatorAddress := [1]\<rparr>)"
  "well_typed long_proposal_tmsg" "From long_proposal_tmsg = ''r1''" "well_typed faulty_prevote"
  by (simp_all add: sample_proposal_tmsg_def long_proposal_tmsg_def faulty_prevote_def sample_tmsg_def Round_def
      HeightRound_def proposal_message_def sample_proposal_def GetProposalBlockIDS_def GetProposalBlockID_def
      GetProposal_def sum_of_def strict_T_def sample_T_fields sample_block_from_def vote_message_def inner_vote_def
      well_typed_def sum_type_def ascii_def sample_vote_def)

text \<open>The part of the world that no step of the run writes.\<close>

definition strict_at :: "(string \<Rightarrow> var_value option) \<Rightarrow> sample_context world \<Rightarrow> bool" where
  "strict_at vs w \<longleftrightarrow> tmsgs w = tmsgs strict_world \<and> sc_pool (ctx w) = sc_pool (ctx strict_world) \<and>
     lvars (observe_sample (ctx w)) = vs"

lemma strict_at_showing: "strict_at vs w \<Longrightarrow> strict_at vs (showing n w)"
  by (simp add: strict_at_def) (simp add: showing_def observe_sample_def)

lemma strict_at_set_var: "strict_at vs w \<Longrightarrow> strict_at (vs(k \<mapsto> v)) (set_var sample_L k v w)"
  by (simp add: strict_at_def vars_specD [OF sample_library]) (simp add: set_var_def sample_L_def)

lemma strict_known:
  assumes "n \<in> {0, 1, 2, 3}"
  shows "\<exists>t. tmsgs strict_world n = Some t \<and> well_typed t \<and> From t \<in> ID ` set higher_replicas"
proof -
  have "From sample_tmsg = ''r2''" "From sample_proposal_tmsg = ''r1''"
    by (simp_all add: sample_tmsg_def sample_proposal_tmsg_def)
  with assms show ?thesis
    by (auto simp: strict_world_def sample_tmsg_parsed sample_proposal_parsed strict_messages higher_replicas_def sample_r2_def)
qed

lemma strict_heard:
  assumes "strict_at vs w" and "n \<in> {1, 2, 3}"
  shows "heard sample_L higher_replicas (showing n w)"
  unfolding heard_def
proof (intro allI impI)
  fix m a
  assume m: "(\<exists>e. GetMessage sample_L (ctx (showing n w)) e = Some m) \<or>
      (\<exists>i. MessagePool_Get sample_L (ctx (showing n w)) i = Some m)"
    and a: "GetParsedMessage (Some m) = Some a"
  from m assms(1) have "m \<in> {sample_message\<lparr>ParsedMessage := Some (ParsedTMessage n)\<rparr>, sample_message,
      sample_proposal_message, sample_again}"
    by (auto simp: strict_at_def strict_world_def world_of_def showing_def sample_L_def split: if_split_asm)
  with a have "a \<in> {0, 1, n}"
    by (auto simp: GetParsedMessage_def sample_message_def sample_proposal_message_def sample_again_def)
  with assms(2) have "a \<in> {0, 1, 2, 3}" by auto
  moreover have "tmsgs (showing n w) = tmsgs strict_world"
    using assms(1) by (simp add: strict_at_def) (simp add: showing_def)
  ultimately show "\<exists>t. tmsgs (showing n w) a = Some t \<and> well_typed t \<and> From t \<in> ID ` set higher_replicas"
    using strict_known by simp
qed

lemma strict_filter:
  assumes "run observe_sample ''start'' strict_test strict_world ''start'' w"
    and "hp_propFilter strict_T sample_L sample_send (showing n w) = Some (out, w')"
  shows "run observe_sample ''start'' strict_test strict_world ''start'' w'"
  by (rule run_handler [OF run_scheduler [OF assms(1) scheduler_step_showing], of "Handler (hp_propFilter strict_T sample_L)"])
    (use assms(2) in \<open>simp_all add: sanity_HigherProp_def\<close>)

text \<open>The state before the vote: the nil pointer is stored.\<close>

lemma strict_start:
  "\<exists>vs w. run observe_sample ''start'' strict_test strict_world ''start'' w \<and> strict_at vs w \<and>
    vs ''faultyReplica'' = Some (VReplica (Some (sample_replica ''r1'' ''k'')))"
proof -
  have f: "faults_of higher_replicas = 1" by (simp add: sdiv_nonneg)
  have "\<exists>w. higherPropSetup rev strict_T sample_L strict_world = Some w \<and>
      hp_ok strict_T observe_sample higher_replicas w"
    using higherPropSetup_ok [OF sample_library, of strict_T strict_world rev] strict_fit by (simp add: strict_world_def)
  then obtain w1 where w1: "higherPropSetup rev strict_T sample_L strict_world = Some w1"
    "hp_ok strict_T observe_sample higher_replicas w1" by blast
  have "run observe_sample ''start'' strict_test strict_world ''start'' w1"
    using w1(1) by (intro run_start) (simp add: sanity_HigherProp_def)
  moreover have "strict_at (lvars (observe_sample (ctx w1))) w1"
    using w1(1) by (auto simp: strict_at_def higherPropSetup_def Let_def Option.bind_eq_Some_conv set_var_def sample_L_def)
  moreover have "lvars (observe_sample (ctx w1)) ''faultyReplica'' = Some (VReplica (Some (sample_replica ''r1'' ''k'')))"
    using w1(2) unfolding hp_ok_def hp_fixed_def f by (simp add: higher_replicas_def)
  ultimately show ?thesis by blast
qed

lemma strict_nil_stored:
  "\<exists>vs w. run observe_sample ''start'' strict_test strict_world ''start'' w \<and> strict_at vs w \<and>
    vs ''faultyReplica'' = Some (VReplica (Some (sample_replica ''r1'' ''k''))) \<and>
    vs ''newProposalBlockID'' = Some (VBlockID None)"
proof -
  obtain vs w1 where run1: "run observe_sample ''start'' strict_test strict_world ''start'' w1" and at1: "strict_at vs w1"
    and fr: "vs ''faultyReplica'' = Some (VReplica (Some (sample_replica ''r1'' ''k'')))"
    using strict_start by blast
  let ?w2 = "set_var sample_L ''oldProposal'' (VString [char_of (7 :: nat)]) (showing 1 w1)"
  have "tmsgs (showing 1 w1) 1 = Some sample_proposal_tmsg"
    using strict_at_showing [OF at1, of 1] by (simp add: strict_at_def strict_world_def)
  then have "hp_propFilter strict_T sample_L sample_send (showing 1 w1) =
      Some (([Some (sample_message\<lparr>ParsedMessage := Some (ParsedTMessage 1)\<rparr>)], True), ?w2)"
    by (simp add: hp_propFilter_def showing_event strict_messages hp_block_text_def del: One_nat_def)
  with run1 have run2: "run observe_sample ''start'' strict_test strict_world ''start'' ?w2" by (rule strict_filter)
  have at2: "strict_at (vs(''oldProposal'' \<mapsto> VString [char_of (7 :: nat)])) (showing 2 ?w2)"
    by (intro strict_at_showing strict_at_set_var at1)
  let ?w3 = "set_var sample_L ''newProposalBlockID'' (VBlockID None)
      (set_var sample_L ''newProposal'' (VString '''') (showing 2 ?w2))"
  have "tmsgs (showing 2 ?w2) 2 = Some long_proposal_tmsg"
    "string_var sample_L ''oldProposal'' (showing 2 ?w2) = [char_of (7 :: nat)]"
    using at2 by (simp_all add: strict_at_def strict_world_def string_var_def vars_specD [OF sample_library])
  then have "hp_propFilter strict_T sample_L sample_send (showing 2 ?w2) =
      Some (([Some (sample_message\<lparr>ParsedMessage := Some (ParsedTMessage 2)\<rparr>)], True), ?w3)"
    by (simp add: hp_propFilter_def showing_event strict_messages hp_block_text_def)
  with run2 have "run observe_sample ''start'' strict_test strict_world ''start'' ?w3" by (rule strict_filter)
  moreover have "strict_at (vs(''oldProposal'' \<mapsto> VString [char_of (7 :: nat)], ''newProposal'' \<mapsto> VString '''',
      ''newProposalBlockID'' \<mapsto> VBlockID None)) ?w3"
    by (intro strict_at_set_var at2)
  ultimately show ?thesis using fr by (intro exI conjI) (assumption+, simp_all)
qed

lemma strict_nil_vote:
  assumes "strict_at vs w" and "vs ''faultyReplica'' = Some (VReplica (Some (sample_replica ''r1'' ''k'')))"
    and "vs ''newProposalBlockID'' = Some (VBlockID None)"
  shows "nil_block_vote strict_T sample_L observe_sample higher_replicas (showing 3 w) sample_send"
proof -
  have vars: "lvars (observe_sample (ctx (showing 3 w))) = vs" and tm: "tmsgs (showing 3 w) 3 = Some faulty_prevote"
    using strict_at_showing [OF assms(1), of 3] by (simp_all add: strict_at_def strict_world_def)
  have f: "faults_of higher_replicas = 1" by (simp add: sdiv_nonneg)
  have r1: "address_of strict_T (sample_replica ''r1'' ''k'') = Some [1]"
    "signer strict_T (sample_replica ''r1'' ''k'') 1 ''chain''"
    using sample_signer [of "''k''" "''r1''"] by (simp_all add: strict_replicas sample_address)
  have parts: "sample_replica ''r1'' ''k'' \<in> set higher_replicas" "''r2'' \<in> ID ` set (drop (Suc (Suc 0)) higher_replicas)"
    by (simp_all add: higher_replicas_def sample_r2_def)
  show ?thesis
    unfolding nil_block_vote_def f
    by (rule exI [of _ "sample_message\<lparr>ParsedMessage := Some (ParsedTMessage 3)\<rparr>"], rule exI [of _ 3],
        rule exI [of _ faulty_prevote], rule exI [of _ "sample_vote\<lparr>pv_ValidatorAddress := [1]\<rparr>"],
        rule exI [of _ "sample_replica ''r1'' ''k''"], rule exI [of _ "sample_replica ''r1'' ''k''"],
        rule exI [of _ 1], rule exI [of _ "''chain''"])
      (use parts r1 assms(2,3) in \<open>simp add: showing_event tm strict_messages vars\<close>)
qed

theorem hp_panics_witness:
  "\<exists>w. run observe_sample ''start'' (sanity_HigherProp rev (\<lambda>_ _. rev) strict_T sample_J sample_L sample_labels)
      strict_world ''start'' w \<and>
    hp_faultyFilter strict_T sample_J sample_L sample_send w = None \<and>
    hp_round0 rev strict_T sample_L sample_send w \<noteq> None \<and> hp_propFilter strict_T sample_L sample_send w \<noteq> None"
proof -
  obtain vs w where w: "run observe_sample ''start'' strict_test strict_world ''start'' w" "strict_at vs w"
    "vs ''faultyReplica'' = Some (VReplica (Some (sample_replica ''r1'' ''k'')))"
    "vs ''newProposalBlockID'' = Some (VBlockID None)"
    using strict_nil_stored by blast
  have run: "run observe_sample (StartStateLabel sample_labels) strict_test strict_world ''start'' (showing 3 w)"
    using run_scheduler [OF w(1) scheduler_step_showing] by (simp add: sample_labels_def)
  have heard: "heard sample_L higher_replicas (showing 3 w)" by (rule strict_heard [OF w(2)]) simp
  have start: "lreplicas (observe_sample (ctx strict_world)) = higher_replicas"
    "replicas_fit strict_T (lreplicas (observe_sample (ctx strict_world))) (lcap (observe_sample (ctx strict_world)))"
    "lvars (observe_sample (ctx strict_world)) ''roundCount'' = None"
    "lvars (observe_sample (ctx strict_world)) ''newProposalBlockID'' = None"
    using strict_fit by (simp_all add: strict_world_def)
  have "\<And>xs :: string list. set (rev xs) = set xs" by simp
  note panics = hp_panics [OF sample_library start(2) this this start(3,4), THEN conjunct2, rule_format, OF run]
  from panics [unfolded start(1), OF heard, of sample_send] strict_nil_vote [OF w(2-4)] run
  show ?thesis by (auto simp: sample_labels_def)
qed

end
