(* ===== verification/Server.thy ===== *)
theory Server
  imports Rskip_Runs Small_Tests
begin

text \<open>
  What \<open>server.go\<close> wires together: the configuration, the parser and the test cases given to
  \<open>testlib.NewTestingServer\<close>, which is a parameter: it answers a server of the library or the text of
  an error. \<open>main\<close> is the list of what it asks of the operating system and of that server.
\<close>

record server_config =
  APIServerAddr :: string
  NumReplicas :: int
  LogPath :: string

definition server_configuration :: server_config where
  "server_configuration = \<lparr>APIServerAddr = ''192.168.1.8:7074'', NumReplicas = 4,
     LogPath = ''/tmp/tendermint/log/checker.log''\<rparr>"

definition server_testcases :: "'k tendermint \<Rightarrow> json \<Rightarrow> ('e, 'c) testlib \<Rightarrow> labels \<Rightarrow> ('e, 'c) test_case list" where
  "server_testcases T J L lb = [rskip_OneTestcase T J L lb 1 2]"

datatype signal = Interrupt | SIGTERM

text \<open>
  The steps of \<open>main\<close>. \<open>StopOnSignal\<close> starts the goroutine that waits for one of the signals and
  then stops the server.
\<close>

datatype 's main_step = Notify "signal list" | Printf string | Exit int | StopOnSignal 's | Start 's

definition server_main :: "(server_config \<Rightarrow> (bytes \<Rightarrow> (tmessage \<times> go_error option) option) \<Rightarrow>
    ('e, 'c) test_case list \<Rightarrow> string + 's) \<Rightarrow> 'k tendermint \<Rightarrow> json \<Rightarrow> ('e, 'c) testlib \<Rightarrow> labels \<Rightarrow>
    's main_step list" where
  "server_main NewTestingServer T J L lb =
     Notify [Interrupt, SIGTERM] #
     (case NewTestingServer server_configuration (Parse T J) (server_testcases T J L lb) of
        Inl err \<Rightarrow> [Printf (''Failed to start server: '' @ err @ [CHR 0x0A]), Exit 1]
      | Inr server \<Rightarrow> [StopOnSignal server, Start server])"

text \<open>A server is started only when none of the steps exits, and always with a way to stop it.\<close>

lemma server_main_starts:
  assumes "Start s \<in> set (server_main NewTestingServer T J L lb)"
  shows "StopOnSignal s \<in> set (server_main NewTestingServer T J L lb)"
    and "Exit c \<notin> set (server_main NewTestingServer T J L lb)"
  using assms by (auto simp: server_main_def split: sum.splits)

text \<open>
  The configured number of replicas is one the test case can work with: with the replicas
  registered, their keys usable and their chain ids texts, each test case of the server is set up
  and no condition or handler panics in any schedule.
\<close>

lemma server_ready:
  assumes lib: "testlib_spec L \<alpha>" and reg: "lcap (\<alpha> (ctx w0)) = NumReplicas server_configuration"
      "store_ok T (lreplicas (\<alpha> (ctx w0))) (lcap (\<alpha> (ctx w0)))"
      "\<forall>r \<in> set (lreplicas (\<alpha> (ctx w0))). Info r ''chain_id'' \<noteq> Some InfoOther"
    and fresh: "lvars (\<alpha> (ctx w0)) ''roundCount'' = None" and tc: "tc \<in> set (server_testcases T J L lb)"
  shows "(\<exists>w. tc_setup tc w0 = Some w) \<and>
    (\<forall>s w e. run \<alpha> (StartStateLabel lb) tc w0 s w \<longrightarrow> pool_ok L w \<longrightarrow>
      (\<forall>(s1, c, s2) \<in> set (tc_edges tc). \<exists>out. c e w = Some out) \<and>
      (\<forall>g \<in> set (tc_handlers tc). \<exists>out. handler_of g e w = Some out))"
proof -
  have "replicas_fit T (lreplicas (\<alpha> (ctx w0))) (lcap (\<alpha> (ctx w0)))"
    using reg by (simp add: replicas_fit_def store_ok_def server_configuration_def)
  from rskip_returns [OF lib this fresh, where lb = lb and J = J and height = 1 and round = 2] tc show ?thesis
    by (auto simp: server_testcases_def)
qed

end
