(* ===== verification/Spec2Isabelle.thy ===== *)
theory Spec2Isabelle
  imports Witnesses LockedValue_Witnesses Run_Witnesses Sanity_Witnesses HigherProp_Witness Server
begin

text \<open>
  A verification development for \<open>tendermint-test\<close>, a suite of tests that drive a tendermint
  network through the scheduler's testing server. The server (\<open>server.go\<close>) intercepts the messages
  the replicas send and hands each event to a test case: a state machine, whose conditions look at
  events, a cascade of handlers, which decide what is delivered, and an assertion at the end. The
  handlers delay, drop and forge messages, re-signing votes and proposals with the keys of the
  replicas they play.

  \<^bold>\<open>Parts of the program and the theories that model them.\<close>

  \<^item> \<open>Go_Prelude\<close>: Go idioms. A panic is \<^term>\<open>None\<close> of an option, a result with an error a sum, a map
    an association list, \<open>Sprintf("%d")\<close> is \<open>fmt_d\<close>.
  \<^item> \<open>Tendermint_Api\<close>: the types of the tendermint module the code touches (votes, proposals, block
    ids, the protobuf messages), with their integer widths as words, and its functions as the
    parameter record \<open>tendermint\<close>.
  \<^item> \<open>Replicas\<close> (\<open>util/replicas.go\<close>), \<open>Partitions\<close> (\<open>util/partition.go\<close>), \<open>Messages\<close>
    (\<open>util/messages.go\<close>): sets of replicas, partitions into labelled parts, the parser and encoder
    and the functions that forge messages. Parsed messages are shared through pointers, so they live
    in a heap that the forging functions write in place, as the code does.
  \<^item> \<open>Worlds\<close>: the scheduler library as the parameter record \<open>testlib\<close>, over an opaque context, and
    the world a handler runs in: that context with the heaps of shared objects. \<open>Tracking\<close>: the two
    contracts the test cases share, as locales: the map from replicas to the highest round seen
    (\<open>round_tracker\<close>) and the counter with a limit per recipient (\<open>quota\<close>).
  \<^item> \<open>Common\<close> (\<open>common/\<close>): the setup, conditions and handlers of the newer tests. \<open>Testcases\<close>: a
    test case as data, and the relation \<open>run\<close>. \<open>Returns\<close>: what the proofs that a test case does not
    panic share, the replicas it can run with and what comes from the network.
  \<^item> \<open>Rskip\<close>, \<open>Rskip_Runs\<close> (\<open>testcases/rskip\<close>); \<open>LockedValue\<close>, \<open>LockedValue_Filters\<close>,
    \<open>LockedValue_Three\<close>, \<open>LockedValue_Runs\<close>, \<open>LockedValue_Returns\<close> (\<open>testcases/lockedvalue\<close>);
    \<open>Sanity\<close>, \<open>Sanity_One\<close>, \<open>Sanity_Two\<close>, \<open>Sanity_Returns\<close>, \<open>HigherProp\<close>, \<open>HigherProp_Props\<close>,
    \<open>HigherProp_Runs\<close>, \<open>HigherProp_Returns\<close> (\<open>testcases/sanity\<close>); \<open>Small_Tests\<close>
    (\<open>testcases/bfttime\<close>, \<open>byzantine\<close> and \<open>dummy.go\<close>); \<open>Server\<close> (what \<open>server.go\<close> wires together).
  \<^item> \<open>Samples\<close>: concrete instances of the parameters, which satisfy all hypotheses together. The
    theories whose name ends in \<open>Witness\<close> or \<open>Witnesses\<close> apply the properties to them, with whole runs
    of the machines where a property is about runs.

  A definition has the name of the Go function it models, with a prefix of its package where two
  packages use a name (\<open>rskip_\<close>, \<open>lv_\<close>, \<open>sanity_\<close>, \<open>hp_\<close>, \<open>bft_\<close>, \<open>byz_\<close>, \<open>dummy_\<close>, \<open>common_\<close>), and
  follows its order of reads, writes and early returns.

  \<^bold>\<open>State.\<close> A test case keeps its state in the context's variables (\<open>c.Vars\<close>), of dynamic type
  \<open>var_value\<close>. A variable that holds a Go map or a counter holds a reference into a heap of the record
  \<open>world\<close>. A type assertion without comma-ok on another value is a panic.

  \<^bold>\<open>Parameters and hypotheses.\<close> The libraries are not part of the repository. \<open>signing_spec\<close> says
  that a signature verifies and that the bytes signed do not depend on it, \<open>conversion_spec\<close> how the
  domain types convert to the protobuf types, \<open>codec_spec\<close> and \<open>json_spec\<close> that decoding undoes
  encoding. \<open>testlib_spec\<close> is a simulation: through an observation of the context, every operation
  of the library reads or updates the variables, messages, replicas and stores as documented. The
  order in which Go visits a map is an argument (\<open>ord\<close>) of the definitions whose result depends
  on it; in a test case that runs, each call may visit in an order of its own. The clock is an
  argument of \<open>bft_assert\<close>.

  \<^bold>\<open>Schedules.\<close> How the library steps through states and handlers is its own. The relation \<open>run\<close> takes
  every order: any condition of an edge out of the current state, any guard and any handler may be
  given any event, and in between the scheduler may take in messages. So what is proved of every run
  holds of every schedule. No step bound or fuel is needed: all loops of the code run over finite
  lists and are structural recursions.

  \<^bold>\<open>What the lemmas show.\<close>

  \<^item> Utilities: the partitioner deals the replicas out into the parts asked for, each in exactly one,
    and its errors and panics are exact; a replica set holds what was added; the parser undoes the
    encoder, its results can be asked for height and round, and the one input shape on which it panics;
    forged votes and proposals differ from the original in the field changed only and carry a
    signature that verifies.
  \<^item> Common: the round counters count each replica once per round, the setup writes the partition of
    3 f + 1 replicas (and a nil pointer for any other number), the nil votes are signed by the owner.
  \<^item> Round skip: every branch of the filter, the refinement of the condition to the set of replicas
    seen, the delivery of what was delayed; in every schedule the test succeeds only with its assertion
    true, progress from the last state, and no panic with 3 f + 1 usable replicas (\<open>server_ready\<close>
    states it for the configured server). The blocking test keeps back exactly f + 1 prevotes.
  \<^item> Locked value: the invariant of the states over all schedules, the count of prevotes that locks,
    the filters of each round and the votes that decide; no panic in any schedule with 3 f + 1 usable
    replicas, and a panic of the setup for any other number.
  \<^item> Sanity: \<open>findIntersection\<close> against its specification by sets and its independence of the map
    order, the quotas of the filters, success means an intersection of more than f, the abort that
    comes too early, the assertions that are never true and, for the three tests, no panic on what
    comes from registered replicas; the test of a higher proposal: its forged votes, the deciding vote,
    the invariant of its states over all schedules, and the one situation in which it panics
    (\<open>hp_panics\<close>).
    \<open>forge_vote\<close> and \<open>replaced\<close> say once what every filter that replaces votes answers.
  \<^item> Small tests: the votes dated a day later, and the parsing of the printed time.

  \<^bold>\<open>Not modelled.\<close> Logging (its arguments are kept where evaluating them can panic), the mutex of
  \<open>rskip/blocking.go\<close> (each method of the counter holds it throughout, so calls are atomic), what the
  library does once \<open>server.go\<close> has started it, the unit test \<open>util/messages_test.go\<close>, the recorded logs
  and the documents. Times are added without overflow: the wire format keeps them within the
  years 1 to 9999. The timeouts of the test cases are data; the library enforces them.
\<close>

end
